(* ===== verification/Prelude.thy ===== *)
theory Prelude
  imports Main "HOL-Library.Word"
begin

text \<open>
  What every component shares: Go errors as trees with \<open>errors.Is\<close> and \<open>errors.As\<close>,
  results as sums, the state-passing convention, 64-bit integers with their wrap-around, and
  the schedule of infrastructure faults that the environment imposes on calls leaving the
  process.

  A Go function that returns \<open>(T, error)\<close> and acts on the outside world becomes a function
  of type \<open>'w \<Rightarrow> (goerr + 'a) \<times> 'w\<close>: \<open>Inl\<close> carries the error, \<open>Inr\<close> the value.
\<close>

named_theorems goerr_simps \<open>evaluation of errors.Is and errors.As on error trees\<close>
named_theorems gostr_simps \<open>evaluation of the string functions of the Go library\<close>

subsection \<open>Errors\<close>

text \<open>The sentinel errors of packages bloby, authn and authz, and of context, pgx and os.\<close>

datatype sentinel =
    ErrNotFound | ErrAlreadyExists | ErrConflict | ErrInvalidInput
  | ErrObjectNotFound | ErrMultipartUploadNotFound | ErrContentMismatch
  | ErrInvalidCapability | ErrExpiredCapability
  | ErrPrincipalNotFound | ErrInvalidCredentials | ErrNotAuthenticated
  | ErrSSOStateMismatch | ErrSSONonceMismatch | ErrSSONotConfigured
  | ErrSSOUnknownUser | ErrSSOEmailClaimEmpty
  | ErrUnknownResource | ErrInvalidAccess
  | Canceled | NoRows | NotExist

text \<open>
  An error is a tree: a sentinel, an opaque error, an error that carries a code (a PostgreSQL
  SQLSTATE or an S3 API code), or a wrapper made by \<open>fmt.Errorf\<close> with \<open>%w\<close> or by
  \<open>errors.Join\<close>. Of a message only the constant text is kept.
\<close>

datatype goerr =
    Sentinel sentinel
  | Opaque string
  | PgError string
  | ApiError string
  | Wrap string "goerr list"

type_synonym 'a result = "goerr + 'a"

fun errors_is :: "goerr \<Rightarrow> sentinel \<Rightarrow> bool" where
  "errors_is (Sentinel s) t = (s = t)"
| "errors_is (Wrap _ es) t = list_ex (\<lambda>e. errors_is e t) es"
| "errors_is _ _ = False"

text \<open>\<open>errors.AsType\<close> walks the tree in pre-order and returns the first match.\<close>

fun first_some :: "'a option list \<Rightarrow> 'a option" where
  "first_some [] = None"
| "first_some (None # xs) = first_some xs"
| "first_some (Some x # _) = Some x"

fun as_pg_error :: "goerr \<Rightarrow> string option" where
  "as_pg_error (PgError c) = Some c"
| "as_pg_error (Wrap _ es) = first_some (map as_pg_error es)"
| "as_pg_error _ = None"

fun as_api_error :: "goerr \<Rightarrow> string option" where
  "as_api_error (ApiError c) = Some c"
| "as_api_error (Wrap _ es) = first_some (map as_api_error es)"
| "as_api_error _ = None"

text \<open>\<open>errors.Join\<close> of two possibly nil errors.\<close>

fun errors_join :: "goerr option \<Rightarrow> goerr option \<Rightarrow> goerr option" where
  "errors_join None None = None"
| "errors_join (Some e) None = Some (Wrap '''' [e])"
| "errors_join None (Some e) = Some (Wrap '''' [e])"
| "errors_join (Some e) (Some f) = Some (Wrap '''' [e, f])"

text \<open>The error of a call that returns only an error.\<close>

fun err_of :: "'a result \<Rightarrow> goerr option" where
  "err_of (Inl e) = Some e"
| "err_of (Inr _) = None"

lemma errors_join_None [simp]: "errors_join a b = None \<longleftrightarrow> a = None \<and> b = None"
  by (cases a; cases b) auto

lemma err_of_None [simp]: "err_of r = None \<longleftrightarrow> (\<exists>x. r = Inr x)"
  by (cases r) auto

lemma errors_join_is [goerr_simps]:
  "errors_join a b = Some e \<Longrightarrow>
     errors_is e t \<longleftrightarrow> (\<exists>x. a = Some x \<and> errors_is x t) \<or> (\<exists>x. b = Some x \<and> errors_is x t)"
  by (cases a; cases b) auto

subsection \<open>64-bit integers\<close>

text \<open>
  Go's \<open>int64\<close> is modelled as \<open>int\<close>, with the wrap-around of its arithmetic written
  out: \<open>wrap64\<close> reads an integer as a two's complement 64-bit value. Division truncates
  towards zero.
\<close>

definition wrap64 :: "int \<Rightarrow> int" where
  "wrap64 n = sint (word_of_int n :: 64 word)"

definition in_int64 :: "int \<Rightarrow> bool" where
  "in_int64 n \<longleftrightarrow> - (2 ^ 63) \<le> n \<and> n < 2 ^ 63"

definition go_div :: "int \<Rightarrow> int \<Rightarrow> int" where
  "go_div a b = sgn a * sgn b * (\<bar>a\<bar> div \<bar>b\<bar>)"

lemma wrap64_id: "in_int64 n \<Longrightarrow> wrap64 n = n"
  by (simp add: wrap64_def in_int64_def signed_take_bit_int_eq_self sint_sbintrunc')

lemma wrap64_in_int64: "in_int64 (wrap64 n)"
  using sint_ge [of "word_of_int n :: 64 word"] sint_lt [of "word_of_int n :: 64 word"]
  by (simp add: wrap64_def in_int64_def)

lemma wrap64_top: "2 ^ 63 \<le> n \<Longrightarrow> n < 2 ^ 64 \<Longrightarrow> wrap64 n = n - 2 ^ 64"
proof -
  assume n: "2 ^ 63 \<le> n" "n < 2 ^ 64"
  have "(word_of_int n :: 64 word) = word_of_int (n - 2 ^ 64)"
    by (rule word_of_int_eq_iff [THEN iffD2]) (simp add: take_bit_eq_mod mod_diff_right_eq [symmetric])
  then have "wrap64 n = wrap64 (n - 2 ^ 64)" unfolding wrap64_def by (rule arg_cong)
  with n show ?thesis using wrap64_id [of "n - 2 ^ 64"] by (simp add: in_int64_def)
qed

subsection \<open>Faults of the environment\<close>

text \<open>
  A call that leaves the process can fail at any time. The environment decides with a
  schedule, one entry per call: the call runs; or it is refused before it has any effect; or it
  takes effect and its response is lost. An infrastructure error is never one of the sentinel
  errors of this program, only \<open>context.Canceled\<close> or an opaque error. An exhausted schedule
  means that no further call fails.
\<close>

datatype infra = CtxCanceled | Failure string

fun infra_err :: "infra \<Rightarrow> goerr" where
  "infra_err CtxCanceled = Sentinel Canceled"
| "infra_err (Failure m) = Opaque m"

datatype fault = Works | Refused infra | Lost infra

lemma infra_err_is [simp]: "errors_is (infra_err i) s \<longleftrightarrow> i = CtxCanceled \<and> s = Canceled"
  by (cases i) auto

lemma infra_err_pg [simp]: "as_pg_error (infra_err i) = None"
  by (cases i) auto

lemma infra_err_api [simp]: "as_api_error (infra_err i) = None"
  by (cases i) auto

subsection \<open>Lists and association lists\<close>

text \<open>A list of rows read as a map from its key: the first row with the key counts.\<close>

definition find_by :: "('a \<Rightarrow> 'k) \<Rightarrow> 'k \<Rightarrow> 'a list \<Rightarrow> 'a option" where
  "find_by key k xs = find (\<lambda>x. key x = k) xs"

lemma find_by_simps [simp]:
  "find_by key k [] = None"
  "find_by key k (x # xs) = (if key x = k then Some x else find_by key k xs)"
  by (simp_all add: find_by_def)

lemma find_by_append [simp]:
  "find_by key k (xs @ ys) = (case find_by key k xs of Some x \<Rightarrow> Some x | None \<Rightarrow> find_by key k ys)"
  by (induction xs) auto

lemma find_by_SomeD: "find_by key k xs = Some x \<Longrightarrow> x \<in> set xs \<and> key x = k"
  by (induction xs) (auto split: if_splits)

lemma find_by_None: "find_by key k xs = None \<longleftrightarrow> k \<notin> key ` set xs"
  by (induction xs) auto

lemma find_by_distinct:
  "distinct (map key xs) \<Longrightarrow> x \<in> set xs \<Longrightarrow> find_by key (key x) xs = Some x"
  by (induction xs) (auto simp: image_iff)

lemma find_by_filter:
  "distinct (map key xs) \<Longrightarrow>
   find_by key k (filter P xs) = (case find_by key k xs of Some x \<Rightarrow> if P x then Some x else None | None \<Rightarrow> None)"
  by (induction xs) (auto simp: find_by_None split: option.splits dest!: find_by_SomeD)

lemma find_by_map:
  "(\<And>x. key (f x) = key x) \<Longrightarrow> find_by key k (map f xs) = map_option f (find_by key k xs)"
  by (induction xs) auto

text \<open>Go's \<open>slices.Chunk\<close>: consecutive batches of at most n elements.\<close>

function chunk :: "nat \<Rightarrow> 'a list \<Rightarrow> 'a list list" where
  "chunk n xs = (if xs = [] \<or> n = 0 then [] else take n xs # chunk n (drop n xs))"
  by pat_completeness auto
termination
  by (relation "measure (\<lambda>(n, xs). length xs)") auto

declare chunk.simps [simp del]

lemma chunk_concat: "0 < n \<Longrightarrow> concat (chunk n xs) = xs"
proof (induction n xs rule: chunk.induct)
  case (1 n xs)
  then show ?case by (cases "xs = []") (simp_all add: chunk.simps [of n xs] chunk.simps [of n "[]"])
qed

lemma chunk_length: "b \<in> set (chunk n xs) \<Longrightarrow> length b \<le> n"
proof (induction n xs rule: chunk.induct)
  case (1 n xs)
  then show ?case by (cases "xs = [] \<or> n = 0") (auto simp: chunk.simps [of n xs])
qed

end
