(* ===== verification/GoStrings.thy ===== *)
theory GoStrings
  imports Prelude "HOL-Library.Char_ord" "HOL-Library.List_Lexorder" "HOL-Library.Sublist"
begin

text \<open>
  The functions of the Go library that the program uses on strings: \<open>strings.Cut\<close>,
  \<open>CutPrefix\<close>, \<open>Split\<close>, \<open>Join\<close>, \<open>ReplaceAll\<close>, \<open>TrimSpace\<close>, \<open>TrimRight\<close>,
  \<open>EqualFold\<close>, \<open>path.Base\<close>, \<open>path.Clean\<close>, \<open>filepath.Join\<close>, the UTF-8 decoder,
  \<open>%d\<close> and \<open>strconv.ParseInt\<close>. A Go string is a sequence of bytes, so it is a HOL
  \<open>string\<close> whose characters are the bytes.
\<close>

subsection \<open>Cutting, splitting and joining\<close>

fun cut :: "char \<Rightarrow> string \<Rightarrow> string \<times> string \<times> bool" where
  "cut c [] = ([], [], False)"
| "cut c (x # xs) =
     (if x = c then ([], xs, True)
      else let (before, after, found) = cut c xs in (x # before, after, found))"

definition cut_prefix :: "string \<Rightarrow> string \<Rightarrow> string option" where
  "cut_prefix p s = (if prefix p s then Some (drop (length p) s) else None)"

definition trim_prefix :: "string \<Rightarrow> string \<Rightarrow> string" where
  "trim_prefix p s = (if prefix p s then drop (length p) s else s)"

fun split_on :: "char \<Rightarrow> string \<Rightarrow> string list" where
  "split_on c [] = [[]]"
| "split_on c (x # xs) =
     (if x = c then [] # split_on c xs
      else (case split_on c xs of [] \<Rightarrow> [[x]] | p # ps \<Rightarrow> (x # p) # ps))"

fun join_with :: "string \<Rightarrow> string list \<Rightarrow> string" where
  "join_with sep [] = []"
| "join_with sep [p] = p"
| "join_with sep (p # q # ps) = p @ sep @ join_with sep (q # ps)"

definition replace_char :: "char \<Rightarrow> char \<Rightarrow> string \<Rightarrow> string" where
  "replace_char a b s = map (\<lambda>x. if x = a then b else x) s"

definition trim_right_char :: "char \<Rightarrow> string \<Rightarrow> string" where
  "trim_right_char c s = rev (dropWhile (\<lambda>x. x = c) (rev s))"

definition contains_any :: "string \<Rightarrow> string \<Rightarrow> bool" where
  "contains_any s chars = list_ex (\<lambda>c. c \<in> set chars) s"

lemma cut_found: "cut c (u @ c # v) = (u, v, True)" if "c \<notin> set u"
  using that by (induction u) auto

lemma cut_not_found: "c \<notin> set s \<Longrightarrow> cut c s = (s, [], False)"
  by (induction s) auto

lemma cut_True: "cut c s = (u, v, True) \<Longrightarrow> s = u @ c # v \<and> c \<notin> set u"
  by (induction s arbitrary: u) (auto split: if_splits prod.splits)

lemma split_on_ne [simp]: "split_on c s \<noteq> []"
  by (induction s) (auto split: list.splits)

lemma split_on_no_sep: "c \<notin> set s \<Longrightarrow> split_on c s = [s]"
  by (induction s) auto

lemma split_on_append: "c \<notin> set u \<Longrightarrow> split_on c (u @ c # v) = u # split_on c v"
  by (induction u) auto

lemma join_with_Cons: "ps \<noteq> [] \<Longrightarrow> join_with sep (p # ps) = p @ sep @ join_with sep ps"
  by (cases ps) auto

lemma join_split [simp]: "join_with [c] (split_on c s) = s"
proof (induction s)
  case (Cons x xs)
  obtain p ps where ps: "split_on c xs = p # ps"
    by (cases "split_on c xs") auto
  with Cons show ?case by (cases ps) auto
qed simp

lemma split_on_parts: "p \<in> set (split_on c s) \<Longrightarrow> c \<notin> set p"
  by (induction s arbitrary: p) (auto split: list.splits if_splits)

lemma split_join:
  "ps \<noteq> [] \<Longrightarrow> \<forall>p \<in> set ps. c \<notin> set p \<Longrightarrow> split_on c (join_with [c] ps) = ps"
proof (induction ps)
  case (Cons p ps)
  then show ?case
    by (cases ps) (auto simp: split_on_no_sep split_on_append)
qed simp

subsection \<open>White space\<close>

text \<open>
  The UTF-8 encodings of the characters for which \<open>unicode.IsSpace\<close> holds. A leading or
  trailing rune is white space iff the string starts or ends with one of them, because a UTF-8
  decoder reads these bytes as exactly that rune.
\<close>

definition spaces :: "string list" where
  "spaces =
     [[CHR 0x09], [CHR 0x0A], [CHR 0x0B], [CHR 0x0C], [CHR 0x0D], [CHR 0x20],
      [CHR 0xC2, CHR 0x85], [CHR 0xC2, CHR 0xA0], [CHR 0xE1, CHR 0x9A, CHR 0x80],
      [CHR 0xE2, CHR 0x80, CHR 0x80], [CHR 0xE2, CHR 0x80, CHR 0x81], [CHR 0xE2, CHR 0x80, CHR 0x82],
      [CHR 0xE2, CHR 0x80, CHR 0x83], [CHR 0xE2, CHR 0x80, CHR 0x84], [CHR 0xE2, CHR 0x80, CHR 0x85],
      [CHR 0xE2, CHR 0x80, CHR 0x86], [CHR 0xE2, CHR 0x80, CHR 0x87], [CHR 0xE2, CHR 0x80, CHR 0x88],
      [CHR 0xE2, CHR 0x80, CHR 0x89], [CHR 0xE2, CHR 0x80, CHR 0x8A], [CHR 0xE2, CHR 0x80, CHR 0xA8],
      [CHR 0xE2, CHR 0x80, CHR 0xA9], [CHR 0xE2, CHR 0x80, CHR 0xAF], [CHR 0xE2, CHR 0x81, CHR 0x9F],
      [CHR 0xE3, CHR 0x80, CHR 0x80]]"

function trim_left_any :: "string list \<Rightarrow> string \<Rightarrow> string" where
  "trim_left_any ws s =
     (case find (\<lambda>w. w \<noteq> [] \<and> prefix w s) ws of
        None \<Rightarrow> s
      | Some w \<Rightarrow> trim_left_any ws (drop (length w) s))"
  by pat_completeness auto
termination
  by (relation "measure (\<lambda>(ws, s). length s)")
     (auto simp: find_Some_iff prefix_def)

declare trim_left_any.simps [simp del]

definition trim_space :: "string \<Rightarrow> string" where
  "trim_space s = rev (trim_left_any (map rev spaces) (rev (trim_left_any spaces s)))"

lemma trim_left_any_suffix: "suffix (trim_left_any ws s) s"
proof (induction ws s rule: trim_left_any.induct)
  case (1 ws s)
  show ?case
  proof (cases "find (\<lambda>w. w \<noteq> [] \<and> prefix w s) ws")
    case None
    then show ?thesis by (simp add: trim_left_any.simps [of ws s])
  next
    case (Some w)
    with 1 have "suffix (trim_left_any ws (drop (length w) s)) (drop (length w) s)" by simp
    then have "suffix (trim_left_any ws (drop (length w) s)) s"
      using suffix_drop suffix_order.trans by blast
    with Some show ?thesis by (simp add: trim_left_any.simps [of ws s])
  qed
qed

lemma set_trim_left_any: "set (trim_left_any ws s) \<subseteq> set s"
  using trim_left_any_suffix set_mono_suffix by blast

lemma trim_left_any_id: "\<forall>w \<in> set ws. w = [] \<or> \<not> prefix w s \<Longrightarrow> trim_left_any ws s = s"
proof -
  assume "\<forall>w \<in> set ws. w = [] \<or> \<not> prefix w s"
  then have "find (\<lambda>w. w \<noteq> [] \<and> prefix w s) ws = None" by (auto simp: find_None_iff)
  then show ?thesis by (simp add: trim_left_any.simps [of ws s])
qed

lemma set_trim_space: "set (trim_space s) \<subseteq> set s"
  unfolding trim_space_def using set_trim_left_any by (metis set_rev subset_trans)

subsection \<open>ASCII case folding\<close>

text \<open>
  \<open>strings.EqualFold\<close>, used with a constant of the letters b, e, a and r only. No rune
  outside ASCII folds to one of these letters, so folding ASCII is exact there.
\<close>

definition ascii_lower :: "char \<Rightarrow> char" where
  "ascii_lower c = (let n = of_char c :: nat in if 65 \<le> n \<and> n \<le> 90 then char_of (n + 32) else c)"

definition equal_fold :: "string \<Rightarrow> string \<Rightarrow> bool" where
  "equal_fold a b \<longleftrightarrow> map ascii_lower a = map ascii_lower b"

subsection \<open>UTF-8\<close>

definition cont_in :: "nat \<Rightarrow> nat \<Rightarrow> nat \<Rightarrow> bool" where
  "cont_in lo hi b \<longleftrightarrow> lo \<le> b \<and> b \<le> hi"

text \<open>
  The runes of a byte string, \<open>None\<close> when it is not valid UTF-8: the table of first bytes and
  accept ranges of package \<open>unicode/utf8\<close>. \<open>utf8.ValidString\<close> asks whether it is
  \<open>Some\<close>; ranging over a valid string visits these runes.
\<close>

fun utf8_runes :: "nat list \<Rightarrow> nat list option" where
  "utf8_runes [] = Some []"
| "utf8_runes (b0 # bs) =
     (if b0 < 0x80 then map_option ((#) b0) (utf8_runes bs)
      else if cont_in 0xC2 0xDF b0 then
        (case bs of
           b1 # bs' \<Rightarrow>
             if cont_in 0x80 0xBF b1
             then map_option ((#) ((b0 - 0xC0) * 64 + (b1 - 0x80))) (utf8_runes bs') else None
         | _ \<Rightarrow> None)
      else if cont_in 0xE0 0xEF b0 then
        (case bs of
           b1 # b2 # bs' \<Rightarrow>
             if cont_in (if b0 = 0xE0 then 0xA0 else 0x80) (if b0 = 0xED then 0x9F else 0xBF) b1
                \<and> cont_in 0x80 0xBF b2
             then map_option ((#) ((b0 - 0xE0) * 4096 + (b1 - 0x80) * 64 + (b2 - 0x80))) (utf8_runes bs')
             else None
         | _ \<Rightarrow> None)
      else if cont_in 0xF0 0xF4 b0 then
        (case bs of
           b1 # b2 # b3 # bs' \<Rightarrow>
             if cont_in (if b0 = 0xF0 then 0x90 else 0x80) (if b0 = 0xF4 then 0x8F else 0xBF) b1
                \<and> cont_in 0x80 0xBF b2 \<and> cont_in 0x80 0xBF b3
             then map_option ((#) ((b0 - 0xF0) * 262144 + (b1 - 0x80) * 4096 + (b2 - 0x80) * 64 + (b3 - 0x80)))
                    (utf8_runes bs')
             else None
         | _ \<Rightarrow> None)
      else None)"

definition runes :: "string \<Rightarrow> nat list option" where
  "runes s = utf8_runes (map of_char s)"

definition utf8_valid :: "string \<Rightarrow> bool" where
  "utf8_valid s \<longleftrightarrow> runes s \<noteq> None"

text \<open>
  One step of the decoder: the first rune is an ASCII byte, or it takes a group of bytes that
  are all at least 0x80. Hence a byte below 0x80 of a valid string is one of its runes.
\<close>

declare utf8_runes.simps(2) [simp del]

lemma utf8_runes_step:
  assumes "utf8_runes (b0 # bs) = Some rs"
  obtains (ascii) rs' where "b0 < 0x80" "rs = b0 # rs'" "utf8_runes bs = Some rs'"
    | (multi) pre bs' r rs' where "bs = pre @ bs'" "\<forall>b \<in> set (b0 # pre). 0x80 \<le> b"
        "rs = r # rs'" "0x80 \<le> r" "utf8_runes bs' = Some rs'"
proof (cases "b0 < 0x80")
  case True
  with assms ascii show ?thesis by (auto simp: utf8_runes.simps(2))
next
  case False
  then have b0: "0x80 \<le> b0" by simp
  consider (two) "cont_in 0xC2 0xDF b0" | (three) "\<not> cont_in 0xC2 0xDF b0" "cont_in 0xE0 0xEF b0"
    | (four) "\<not> cont_in 0xC2 0xDF b0" "\<not> cont_in 0xE0 0xEF b0" "cont_in 0xF0 0xF4 b0"
    using assms False by (auto simp: utf8_runes.simps(2) split: if_splits)
  then show ?thesis
  proof cases
    case two
    with assms False obtain b1 bs' rs' where "bs = b1 # bs'" "cont_in 0x80 0xBF b1"
        "utf8_runes bs' = Some rs'" "rs = ((b0 - 0xC0) * 64 + (b1 - 0x80)) # rs'"
      by (auto simp: utf8_runes.simps(2) split: list.splits if_splits)
    with b0 two show ?thesis
      by (intro multi [of "[b1]" bs' "(b0 - 0xC0) * 64 + (b1 - 0x80)"]) (auto simp: cont_in_def)
  next
    case three
    with assms False obtain b1 b2 bs' r rs' where "bs = b1 # b2 # bs'" "0x80 \<le> b1" "0x80 \<le> b2"
        "utf8_runes bs' = Some rs'" "rs = r # rs'" "0x80 \<le> r"
      by (auto simp: utf8_runes.simps(2) cont_in_def split: list.splits if_splits)
    with b0 show ?thesis by (intro multi [of "[b1, b2]" bs' r]) auto
  next
    case four
    with assms False obtain b1 b2 b3 bs' r rs' where "bs = b1 # b2 # b3 # bs'" "0x80 \<le> b1" "0x80 \<le> b2"
        "0x80 \<le> b3" "utf8_runes bs' = Some rs'" "rs = r # rs'" "0x80 \<le> r"
      by (auto simp: utf8_runes.simps(2) cont_in_def split: list.splits if_splits)
    with b0 show ?thesis by (intro multi [of "[b1, b2, b3]" bs' r]) auto
  qed
qed

lemma utf8_ascii_rune:
  "utf8_runes bs = Some rs \<Longrightarrow> b \<in> set bs \<Longrightarrow> b < 0x80 \<Longrightarrow> b \<in> set rs"
proof (induction bs arbitrary: rs rule: length_induct)
  case (1 bs)
  then obtain b0 bs' where bs: "bs = b0 # bs'" by (cases bs) auto
  from 1(2) [unfolded bs] show ?case
  proof (cases rule: utf8_runes_step)
    case ascii
    with 1 bs show ?thesis by auto
  next
    case (multi pre bs'' r rs')
    then have "b \<in> set bs''" using 1(3,4) bs by auto
    moreover have "length bs'' < length bs" using multi(1) bs by simp
    ultimately have "b \<in> set rs'" using 1(1,4) multi(5) by blast
    then show ?thesis using multi(3) by simp
  qed
qed

lemma utf8_rune_ascii:
  "utf8_runes bs = Some rs \<Longrightarrow> r \<in> set rs \<Longrightarrow> r < 0x80 \<Longrightarrow> r \<in> set bs"
proof (induction bs arbitrary: rs rule: length_induct)
  case (1 bs)
  then obtain b0 bs' where bs: "bs = b0 # bs'" by (cases bs) auto
  from 1(2) [unfolded bs] show ?case
  proof (cases rule: utf8_runes_step)
    case ascii
    with 1 bs show ?thesis by auto
  next
    case (multi pre bs'' q rs')
    then have "r \<in> set rs'" using 1(3,4) by auto
    moreover have "length bs'' < length bs" using multi(1) bs by simp
    ultimately have "r \<in> set bs''" using 1(1,4) multi(5) by blast
    then show ?thesis using multi(1) bs by simp
  qed
qed

subsection \<open>Paths\<close>

text \<open>\<open>path.Base\<close>: the last element, without trailing slashes.\<close>

definition path_base :: "string \<Rightarrow> string" where
  "path_base p =
     (if p = [] then ''.''
      else let q = trim_right_char (CHR ''/'') p in
        if q = [] then ''/'' else last (split_on (CHR ''/'') q))"

text \<open>
  \<open>path.Clean\<close>, and \<open>filepath.Clean\<close> on Unix: empty and dot elements vanish, a dot-dot
  element removes the element before it. \<open>clean_step\<close> is one element of its loop over a stack
  of the elements kept so far (innermost first).
\<close>

definition clean_step :: "bool \<Rightarrow> string \<Rightarrow> string list \<Rightarrow> string list" where
  "clean_step rooted e stack =
     (if e = [] \<or> e = ''.'' then stack
      else if e = ''..'' then
        (case stack of
           [] \<Rightarrow> if rooted then [] else [''..'']
         | t # ts \<Rightarrow> if t = ''..'' then ''..'' # stack else ts)
      else e # stack)"

definition clean_elems :: "bool \<Rightarrow> string list \<Rightarrow> string list" where
  "clean_elems rooted es = rev (fold (clean_step rooted) es [])"

definition clean_path :: "string \<Rightarrow> string" where
  "clean_path p =
     (if p = [] then ''.''
      else let rooted = (hd p = CHR ''/'');
               es = clean_elems rooted (split_on (CHR ''/'') p);
               body = join_with ''/'' es
           in if rooted then CHR ''/'' # body else if body = [] then ''.'' else body)"

text \<open>\<open>filepath.Join\<close> drops leading empty elements, joins the rest with slashes and cleans.\<close>

definition path_join :: "string list \<Rightarrow> string" where
  "path_join es =
     (let fs = dropWhile (\<lambda>e. e = []) es in if fs = [] then [] else clean_path (join_with ''/'' fs))"

text \<open>\<open>filepath.Dir\<close>: everything before the last slash, cleaned.\<close>

definition path_dir :: "string \<Rightarrow> string" where
  "path_dir p =
     (let es = split_on (CHR ''/'') p
      in if length es \<le> 1 then ''.'' else clean_path (join_with ''/'' (butlast es) @ ''/''))"

lemma set_path_base: "path_base p \<noteq> ''/'' \<Longrightarrow> CHR ''/'' \<notin> set (path_base p)"
  using split_on_parts [OF last_in_set [OF split_on_ne]]
  by (auto simp: path_base_def Let_def split: if_splits)

end
