(* ===== verification/Encoding.thy ===== *)
theory Encoding
  imports GoStrings
begin

text \<open>
  The encodings of the Go library that the program uses: decimal integers (\<open>%d\<close>,
  \<open>strconv.ParseInt\<close> with base 10 and 64 bits), \<open>encoding/hex\<close>, and the standard and raw
  URL alphabets of \<open>encoding/base64\<close>, with the round trip of each.
\<close>

subsection \<open>Decimal integers\<close>

definition digit_char :: "nat \<Rightarrow> char" where
  "digit_char d = char_of (48 + d)"

definition digit_val :: "char \<Rightarrow> nat option" where
  "digit_val c = (let n = of_char c :: nat in if 48 \<le> n \<and> n \<le> 57 then Some (n - 48) else None)"

fun show_nat :: "nat \<Rightarrow> string" where
  "show_nat n = (if n < 10 then [digit_char n] else show_nat (n div 10) @ [digit_char (n mod 10)])"

declare show_nat.simps [simp del]

definition show_int :: "int \<Rightarrow> string" where
  "show_int i = (if i < 0 then CHR ''-'' # show_nat (nat (- i)) else show_nat (nat i))"

fun read_digits :: "nat \<Rightarrow> string \<Rightarrow> nat option" where
  "read_digits acc [] = Some acc"
| "read_digits acc (c # cs) =
     (case digit_val c of None \<Rightarrow> None | Some d \<Rightarrow> read_digits (10 * acc + d) cs)"

text \<open>\<open>strconv.ParseInt (s, 10, 64)\<close>, \<open>None\<close> for both of its errors.\<close>

definition parse_uint :: "string \<Rightarrow> nat option" where
  "parse_uint s =
     (if s = [] then None
      else case read_digits 0 s of None \<Rightarrow> None | Some n \<Rightarrow> if n < 2 ^ 64 then Some n else None)"

definition parse_int :: "string \<Rightarrow> int option" where
  "parse_int s =
     (case s of
        [] \<Rightarrow> None
      | c # cs \<Rightarrow>
          let neg = (c = CHR ''-'');
              body = (if c = CHR ''-'' \<or> c = CHR ''+'' then cs else s)
          in case parse_uint body of
               None \<Rightarrow> None
             | Some n \<Rightarrow>
                 if neg then (if n \<le> 2 ^ 63 then Some (- int n) else None)
                 else (if n < 2 ^ 63 then Some (int n) else None))"

lemma of_char_digit: "d < 10 \<Longrightarrow> (of_char (digit_char d) :: nat) = 48 + d"
  by (simp add: digit_char_def)

lemma digit_val_char: "d < 10 \<Longrightarrow> digit_val (digit_char d) = Some d"
  by (simp add: digit_val_def of_char_digit)

lemma read_digits_append:
  "read_digits acc (u @ v) = (case read_digits acc u of None \<Rightarrow> None | Some n \<Rightarrow> read_digits n v)"
  by (induction u arbitrary: acc) (auto split: option.splits)

lemma read_show_nat: "read_digits 0 (show_nat n) = Some n"
proof (induction n rule: show_nat.induct)
  case (1 n)
  then show ?case
    by (cases "n < 10") (auto simp: show_nat.simps [of n] digit_val_char read_digits_append)
qed

lemma show_nat_ne [simp]: "show_nat n \<noteq> []"
  by (simp add: show_nat.simps [of n])

lemma show_nat_digits: "c \<in> set (show_nat n) \<Longrightarrow> \<exists>d < 10. c = digit_char d"
proof (induction n rule: show_nat.induct)
  case (1 n)
  moreover have "n mod 10 < 10" by simp
  ultimately show ?case
    by (cases "n < 10") (auto simp: show_nat.simps [of n] simp del: mod_less_divisor)
qed

lemma show_nat_inj: "show_nat m = show_nat n \<Longrightarrow> m = n"
  by (metis option.inject read_show_nat)

lemma digit_char_ne: "d < 10 \<Longrightarrow> of_char c < (48::nat) \<or> 57 < (of_char c :: nat) \<Longrightarrow> digit_char d \<noteq> c"
  using of_char_digit [of d] by auto

lemma not_in_show_nat:
  "of_char c < (48::nat) \<or> 57 < (of_char c :: nat) \<Longrightarrow> c \<notin> set (show_nat n)"
  using show_nat_digits digit_char_ne by metis

lemma hd_show_nat: "of_char c < (48::nat) \<or> 57 < (of_char c :: nat) \<Longrightarrow> hd (show_nat n) \<noteq> c"
  using not_in_show_nat hd_in_set show_nat_ne by metis

lemma parse_show_int: "in_int64 i \<Longrightarrow> parse_int (show_int i) = Some i"
proof (cases "i < 0")
  case True
  moreover assume "in_int64 i"
  ultimately show ?thesis
    by (auto simp: parse_int_def show_int_def parse_uint_def read_show_nat in_int64_def)
next
  case False
  assume i: "in_int64 i"
  obtain c cs where s: "show_nat (nat i) = c # cs" by (cases "show_nat (nat i)") auto
  have "c \<noteq> CHR ''-''" "c \<noteq> CHR ''+''"
    using hd_show_nat [of "CHR ''-''" "nat i"] hd_show_nat [of "CHR ''+''" "nat i"] s by auto
  then show ?thesis
    using False i s read_show_nat [of "nat i"]
    by (auto simp: parse_int_def show_int_def parse_uint_def in_int64_def)
qed

lemma not_in_show_int:
  "of_char c < (48::nat) \<or> 57 < (of_char c :: nat) \<Longrightarrow> c \<noteq> CHR ''-'' \<Longrightarrow> c \<notin> set (show_int i)"
  by (auto simp: show_int_def not_in_show_nat)

lemma show_int_ne [simp]: "show_int i \<noteq> []"
  by (simp add: show_int_def)

subsection \<open>Hexadecimal\<close>

definition hex_char :: "nat \<Rightarrow> char" where
  "hex_char n = char_of (if n < 10 then 48 + n else 87 + n)"

lemma hex_table: "list_all (\<lambda>n. hex_char n = ''0123456789abcdef'' ! n) [0..<16]"
  by code_simp

lemma hex_char_table [code]:
  "hex_char n = (if n < 16 then ''0123456789abcdef'' ! n else char_of (87 + n))"
  using hex_table by (auto simp: list_all_iff hex_char_def)

definition hex_val :: "char \<Rightarrow> nat option" where
  "hex_val c =
     (let n = of_char c :: nat
      in if 48 \<le> n \<and> n \<le> 57 then Some (n - 48)
         else if 97 \<le> n \<and> n \<le> 102 then Some (n - 87)
         else if 65 \<le> n \<and> n \<le> 70 then Some (n - 55)
         else None)"

fun hex_encode :: "string \<Rightarrow> string" where
  "hex_encode [] = []"
| "hex_encode (b # bs) =
     (let n = of_char b :: nat in hex_char (n div 16) # hex_char (n mod 16) # hex_encode bs)"

fun hex_decode :: "string \<Rightarrow> string option" where
  "hex_decode [] = Some []"
| "hex_decode [_] = None"
| "hex_decode (a # b # cs) =
     (case (hex_val a, hex_val b, hex_decode cs) of
        (Some x, Some y, Some bs) \<Rightarrow> Some (char_of (16 * x + y) # bs)
      | _ \<Rightarrow> None)"

definition lower_hex :: "char \<Rightarrow> bool" where
  "lower_hex c \<longleftrightarrow> (let n = of_char c :: nat in (48 \<le> n \<and> n \<le> 57) \<or> (97 \<le> n \<and> n \<le> 102))"

lemma of_char_less [simp]: "(of_char c :: nat) < 256"
  by (metis of_char_mod_256 mod_less_divisor zero_less_numeral)

lemma hex_char_code: "n < 16 \<Longrightarrow> (of_char (hex_char n) :: nat) = (if n < 10 then 48 + n else 87 + n)"
  by (simp add: hex_char_def)

lemma hex_val_char: "n < 16 \<Longrightarrow> hex_val (hex_char n) = Some n"
  by (auto simp: hex_val_def hex_char_code Let_def)

lemma lower_hex_char: "n < 16 \<Longrightarrow> lower_hex (hex_char n)"
  by (auto simp: lower_hex_def hex_char_code Let_def)

lemma div16_less: "(of_char c :: nat) div 16 < 16"
  using of_char_less [of c] by (simp add: less_mult_imp_div_less)

lemma hex_decode_encode: "hex_decode (hex_encode s) = Some s"
  by (induction s) (auto simp: Let_def hex_val_char div16_less)

lemma length_hex_encode: "length (hex_encode s) = 2 * length s"
  by (induction s) (auto simp: Let_def)

lemma hex_encode_lower: "list_all lower_hex (hex_encode s)"
  by (induction s) (auto simp: Let_def lower_hex_char div16_less)

lemma hex_encode_inj: "hex_encode s = hex_encode t \<Longrightarrow> s = t"
  by (metis hex_decode_encode option.inject)

subsection \<open>Base64\<close>

definition b64_letters :: string where
  "b64_letters = ''ABCDEFGHIJKLMNOPQRSTUVWXYZabcdefghijklmnopqrstuvwxyz0123456789''"

definition b64_std :: string where "b64_std = b64_letters @ ''+/''"
definition b64_url :: string where "b64_url = b64_letters @ ''-_''"

fun b64_sextets :: "nat list \<Rightarrow> nat list" where
  "b64_sextets [] = []"
| "b64_sextets [a] = [a div 4, (a mod 4) * 16]"
| "b64_sextets [a, b] = [a div 4, (a mod 4) * 16 + b div 16, (b mod 16) * 4]"
| "b64_sextets (a # b # c # r) =
     [a div 4, (a mod 4) * 16 + b div 16, (b mod 16) * 4 + c div 64, c mod 64] @ b64_sextets r"

text \<open>The non-strict raw decoder: the unused low bits of the last sextet are ignored.\<close>

fun b64_octets :: "nat list \<Rightarrow> nat list option" where
  "b64_octets [] = Some []"
| "b64_octets [w] = None"
| "b64_octets [w, x] = Some [w * 4 + x div 16]"
| "b64_octets [w, x, y] = Some [w * 4 + x div 16, (x mod 16) * 16 + y div 4]"
| "b64_octets (w # x # y # z # r) =
     map_option (\<lambda>os. [w * 4 + x div 16, (x mod 16) * 16 + y div 4, (y mod 4) * 64 + z] @ os) (b64_octets r)"

text \<open>\<open>RawURLEncoding\<close>; its decoder skips carriage returns and newlines.\<close>

definition b64url_encode :: "string \<Rightarrow> string" where
  "b64url_encode s = map (\<lambda>i. b64_url ! i) (b64_sextets (map of_char s))"

definition b64url_val :: "char \<Rightarrow> nat option" where
  "b64url_val c = map_of (zip b64_url [0..<64]) c"

fun opt_all :: "'a option list \<Rightarrow> 'a list option" where
  "opt_all [] = Some []"
| "opt_all (None # _) = None"
| "opt_all (Some x # xs) = map_option ((#) x) (opt_all xs)"

definition b64url_decode :: "string \<Rightarrow> string option" where
  "b64url_decode s =
     (case opt_all (map b64url_val (filter (\<lambda>c. c \<noteq> CHR 0x0D \<and> c \<noteq> CHR 0x0A) s)) of
        None \<Rightarrow> None
      | Some ws \<Rightarrow> map_option (map char_of) (b64_octets ws))"

text \<open>\<open>StdEncoding\<close> pads the last group with equals signs.\<close>

definition b64std_encode :: "string \<Rightarrow> string" where
  "b64std_encode s =
     map (\<lambda>i. b64_std ! i) (b64_sextets (map of_char s))
     @ replicate ((3 - length s mod 3) mod 3) (CHR ''='')"

definition b64url_ok :: "nat \<Rightarrow> bool" where
  "b64url_ok i \<longleftrightarrow> b64url_val (b64_url ! i) = Some i \<and> b64_url ! i \<noteq> CHR 0x0D
     \<and> b64_url ! i \<noteq> CHR 0x0A \<and> b64_url ! i \<noteq> CHR ''.''"

lemma b64url_ok_all: "list_all b64url_ok [0..<64]"
  by code_simp

lemma b64_url_nth: "i < 64 \<Longrightarrow> b64url_val (b64_url ! i) = Some i \<and> b64_url ! i \<noteq> CHR 0x0D
     \<and> b64_url ! i \<noteq> CHR 0x0A \<and> b64_url ! i \<noteq> CHR ''.''"
  using b64url_ok_all by (simp add: list_all_iff b64url_ok_def)

lemma b64_sextets_bound: "\<forall>b \<in> set bs. b < 256 \<Longrightarrow> \<forall>w \<in> set (b64_sextets bs). w < 64"
  by (induction bs rule: b64_sextets.induct) auto

lemma b64_octets_sextets: "\<forall>b \<in> set bs. b < 256 \<Longrightarrow> b64_octets (b64_sextets bs) = Some bs"
  by (induction bs rule: b64_sextets.induct) auto

lemma opt_all_map: "\<forall>x \<in> set xs. f (g x) = Some x \<Longrightarrow> opt_all (map f (map g xs)) = Some xs"
  by (induction xs) auto

lemma of_chars_bound: "\<forall>b \<in> set (map of_char s). b < (256::nat)"
  by auto

lemma b64url_encode_chars: "c \<in> set (b64url_encode s) \<Longrightarrow> c \<noteq> CHR 0x0D \<and> c \<noteq> CHR 0x0A \<and> c \<noteq> CHR ''.''"
  using b64_sextets_bound [OF of_chars_bound [of s]] b64_url_nth
  by (auto simp: b64url_encode_def)

lemma b64url_decode_encode: "b64url_decode (b64url_encode s) = Some s"
proof -
  let ?ws = "b64_sextets (map of_char s)"
  have "filter (\<lambda>c. c \<noteq> CHR 0x0D \<and> c \<noteq> CHR 0x0A) (b64url_encode s) = b64url_encode s"
    using b64url_encode_chars by (auto simp: filter_id_conv)
  moreover have "opt_all (map b64url_val (b64url_encode s)) = Some ?ws"
    unfolding b64url_encode_def using b64_sextets_bound [OF of_chars_bound [of s]] b64_url_nth
    by (intro opt_all_map) auto
  ultimately show ?thesis
    by (simp add: b64url_decode_def b64_octets_sextets of_chars_bound o_def)
qed

lemma b64url_encode_empty [simp]: "b64url_encode s = [] \<longleftrightarrow> s = []"
  by (cases s rule: list.exhaust; cases "tl s"; cases "tl (tl s)") (auto simp: b64url_encode_def)

end
