(* ===== verification/Content.thy ===== *)
theory Content
  imports Encoding
begin

text \<open>
  \<open>bloby/content.go\<close>: an uploader's declaration of the bytes it is about to send, the digest
  that computes it, and its validation. SHA-256 (\<open>crypto/sha256\<close>) and CRC64NVME (the package
  \<open>minio/crc64nvme\<close>) are parameters: a record of the two functions from the bytes of a message
  to the bytes of its checksum. What the code relies on is only the length of their results.
\<close>

record hashes =
  h_sha256 :: "string \<Rightarrow> string"
  h_crc64 :: "string \<Rightarrow> string"

definition hashes_ok :: "hashes \<Rightarrow> bool" where
  "hashes_ok H \<longleftrightarrow> (\<forall>s. length (h_sha256 H s) = 32 \<and> length (h_crc64 H s) = 8)"

text \<open>A reader delivers bytes and then ends, or fails with an error.\<close>

record reader =
  rd_bytes :: string
  rd_err :: "goerr option"

definition bytes_reader :: "string \<Rightarrow> reader" where
  "bytes_reader b = \<lparr>rd_bytes = b, rd_err = None\<rparr>"

text \<open>
  \<open>io.LimitReader\<close> stops after n bytes (at once when n is not positive); the error of the
  underlying reader shows only if it is reached before the limit. \<open>io.ReadAll\<close> and
  \<open>io.Copy\<close> read to the end.
\<close>

definition limit_reader :: "reader \<Rightarrow> int \<Rightarrow> reader" where
  "limit_reader r n =
     (if int (length (rd_bytes r)) < n then r
      else \<lparr>rd_bytes = take (nat n) (rd_bytes r), rd_err = None\<rparr>)"

definition read_all :: "reader \<Rightarrow> string result" where
  "read_all r = (case rd_err r of None \<Rightarrow> Inr (rd_bytes r) | Some e \<Rightarrow> Inl e)"

record content =
  c_size :: int
  c_sha256 :: string
  c_crc64 :: string

definition digest :: "hashes \<Rightarrow> reader \<Rightarrow> content result" where
  "digest H r =
     (case read_all r of
        Inl e \<Rightarrow> Inl e
      | Inr b \<Rightarrow> Inr \<lparr>c_size = int (length b), c_sha256 = hex_encode (h_sha256 H b),
                      c_crc64 = hex_encode (h_crc64 H b)\<rparr>)"

definition crc64nvme :: "hashes \<Rightarrow> reader \<Rightarrow> string result" where
  "crc64nvme H r =
     (case read_all r of Inl e \<Rightarrow> Inl e | Inr b \<Rightarrow> Inr (hex_encode (h_crc64 H b)))"

text \<open>The regular expressions \<open>^[0-9a-f]{64}$\<close> and \<open>^[0-9a-f]{16}$\<close>.\<close>

definition sha256_pattern :: "string \<Rightarrow> bool" where
  "sha256_pattern s \<longleftrightarrow> length s = 64 \<and> list_all lower_hex s"

definition crc64_pattern :: "string \<Rightarrow> bool" where
  "crc64_pattern s \<longleftrightarrow> length s = 16 \<and> list_all lower_hex s"

definition invalid_input :: "string \<Rightarrow> goerr" where
  "invalid_input msg = Wrap msg [Sentinel ErrInvalidInput]"

definition validate_content :: "content \<Rightarrow> goerr option" where
  "validate_content c =
     (if c_size c < 0 \<or> \<not> sha256_pattern (c_sha256 c) \<or> \<not> crc64_pattern (c_crc64 c)
      then Some (invalid_input ''content needs a size, SHA-256 and CRC64NVME'')
      else None)"

definition content_mismatch :: "string \<Rightarrow> goerr" where
  "content_mismatch msg = Wrap msg [Sentinel ErrInvalidInput, Sentinel ErrContentMismatch]"

text \<open>
  \<open>hex.DecodeString\<close> returns the bytes decoded before an error; \<open>base64Digest\<close> drops
  the error.
\<close>

fun hex_decode_prefix :: "string \<Rightarrow> string" where
  "hex_decode_prefix (a # b # cs) =
     (case (hex_val a, hex_val b) of
        (Some x, Some y) \<Rightarrow> char_of (16 * x + y) # hex_decode_prefix cs
      | _ \<Rightarrow> [])"
| "hex_decode_prefix _ = []"

definition base64_digest :: "string \<Rightarrow> string" where
  "base64_digest s = b64std_encode (hex_decode_prefix s)"

lemma invalid_input_is [goerr_simps]: "errors_is (invalid_input m) s \<longleftrightarrow> s = ErrInvalidInput"
  by (auto simp: invalid_input_def)

lemma content_mismatch_is [goerr_simps]:
  "errors_is (content_mismatch m) s \<longleftrightarrow> s = ErrInvalidInput \<or> s = ErrContentMismatch"
  by (auto simp: content_mismatch_def)

lemma validate_content_None:
  "validate_content c = None \<longleftrightarrow> 0 \<le> c_size c \<and> sha256_pattern (c_sha256 c) \<and> crc64_pattern (c_crc64 c)"
  by (auto simp: validate_content_def)

lemma read_all_bytes [simp]: "read_all (bytes_reader b) = Inr b"
  by (simp add: read_all_def bytes_reader_def)

text \<open>A body passes a declaration when its length and SHA-256 are the declared ones.\<close>

definition matches :: "hashes \<Rightarrow> content \<Rightarrow> string \<Rightarrow> bool" where
  "matches H c b \<longleftrightarrow> int (length b) = c_size c \<and> hex_encode (h_sha256 H b) = c_sha256 c"

lemma digest_matches: "digest H (bytes_reader b) = Inr c \<Longrightarrow> matches H c b"
  by (auto simp: digest_def matches_def)

lemma digest_valid:
  assumes "hashes_ok H" "digest H r = Inr c"
  shows "validate_content c = None"
  using assms
  by (auto simp: digest_def validate_content_None hashes_ok_def sha256_pattern_def
        crc64_pattern_def length_hex_encode hex_encode_lower split: sum.splits)

lemma hex_decode_prefix_encode: "hex_decode_prefix (hex_encode s) = s"
  by (induction s) (auto simp: Let_def hex_val_char div16_less)

lemma limit_reader_bytes:
  assumes "0 \<le> n" and "rd_bytes (limit_reader r (n + 1)) = b" and "int (length b) = n"
  shows "rd_bytes r = b"
proof (cases "int (length (rd_bytes r)) < n + 1")
  case True
  with assms(2) show ?thesis by (simp add: limit_reader_def)
next
  case False
  with assms(2) have "b = take (nat (n + 1)) (rd_bytes r)" by (simp add: limit_reader_def)
  then have "length b = min (length (rd_bytes r)) (nat (n + 1))" by simp
  with False assms(1,3) show ?thesis by linarith
qed

end
