(* ===== verification/Objects.thy ===== *)
theory Objects
  imports Content
begin

text \<open>
  The pure part of \<open>bloby/object_store.go\<close>: the record of one blob, its key, declaration and
  derived values, the normalisation and validation of prefixes and file names, and
  \<open>ownerID\<close> of \<open>bloby/cleanup_store.go\<close>, which reads an object's ID back from a key. Times
  are nanoseconds since the epoch, Go pointers are options.
\<close>

subsection \<open>Objects\<close>

record obj =
  ob_id :: int
  ob_prefix :: string
  ob_filename :: string
  ob_ctype :: string
  ob_size :: "int option"
  ob_sha256 :: "string option"
  ob_crc64 :: "string option"
  ob_available_at :: "int option"
  ob_upload :: "string option"
  ob_storage_key :: "string option"
  ob_created :: int
  ob_updated :: int

definition object_prefix :: string where
  "object_prefix = ''_objects/''"

text \<open>\<open>Object.Key\<close> and \<open>Object.key\<close>.\<close>

definition obj_stored_key :: "('a) obj_scheme \<Rightarrow> string" where
  "obj_stored_key o' = (case ob_storage_key o' of None \<Rightarrow> '''' | Some k \<Rightarrow> k)"

definition obj_key :: "('a) obj_scheme \<Rightarrow> string" where
  "obj_key o' =
     (case ob_storage_key o' of
        Some k \<Rightarrow> k
      | None \<Rightarrow> object_prefix @ show_int (ob_id o') @ ''/'' @ ob_filename o')"

definition obj_content :: "('a) obj_scheme \<Rightarrow> content result" where
  "obj_content o' =
     (case (ob_size o', ob_sha256 o', ob_crc64 o') of
        (Some n, Some s, Some c) \<Rightarrow> Inr \<lparr>c_size = n, c_sha256 = s, c_crc64 = c\<rparr>
      | _ \<Rightarrow> Inl (invalid_input ''object has no declared content''))"

definition available :: "('a) obj_scheme \<Rightarrow> bool" where
  "available o' \<longleftrightarrow> ob_available_at o' \<noteq> None"

definition sha256_value :: "('a) obj_scheme \<Rightarrow> string" where
  "sha256_value o' = (case ob_sha256 o' of None \<Rightarrow> '''' | Some s \<Rightarrow> s)"

definition size_bytes_value :: "('a) obj_scheme \<Rightarrow> int" where
  "size_bytes_value o' = (case ob_size o' of None \<Rightarrow> 0 | Some n \<Rightarrow> n)"

definition size_kb_value :: "('a) obj_scheme \<Rightarrow> int" where
  "size_kb_value o' =
     (let n = size_bytes_value o' in if n \<le> 0 then 0 else go_div (wrap64 (n + 1023)) 1024)"

definition etag :: "('a) obj_scheme \<Rightarrow> string" where
  "etag o' =
     (case ob_sha256 o' of
        None \<Rightarrow> ''''
      | Some s \<Rightarrow> if s = '''' then '''' else [CHR 0x22] @ s @ [CHR 0x22])"

subsection \<open>Prefixes and file names\<close>

text \<open>The regular expression \<open>^[a-z0-9]+(/[a-z0-9]+)*$\<close>: nonempty segments of [a-z0-9].\<close>

definition prefix_char :: "char \<Rightarrow> bool" where
  "prefix_char c \<longleftrightarrow> (let n = of_char c :: nat in (97 \<le> n \<and> n \<le> 122) \<or> (48 \<le> n \<and> n \<le> 57))"

definition prefix_pattern :: "string \<Rightarrow> bool" where
  "prefix_pattern p \<longleftrightarrow>
     list_all (\<lambda>seg. seg \<noteq> [] \<and> list_all prefix_char seg) (split_on (CHR ''/'') p)"

definition normalize_upload_filename :: "string \<Rightarrow> string" where
  "normalize_upload_filename name =
     trim_space (path_base (replace_char (CHR 0x5C) (CHR ''/'') name))"

definition validate_upload_filename :: "string \<Rightarrow> goerr option" where
  "validate_upload_filename name =
     (if name = '''' \<or> name = ''.'' \<or> name = ''..'' \<or> name = ''/'' then
        Some (invalid_input ''invalid upload filename'')
      else case runes name of
        None \<Rightarrow> Some (invalid_input ''invalid upload filename'')
      | Some rs \<Rightarrow>
          if list_ex (\<lambda>r. r < 0x20 \<or> r = 0x7F) rs
          then Some (invalid_input ''invalid upload filename'') else None)"

text \<open>
  What the validation of a file name leaves: one path element, not a dot name, without
  control characters.
\<close>

definition safe_filename :: "string \<Rightarrow> bool" where
  "safe_filename f \<longleftrightarrow>
     f \<noteq> '''' \<and> f \<noteq> ''.'' \<and> f \<noteq> ''..'' \<and> CHR ''/'' \<notin> set f \<and> utf8_valid f
     \<and> (\<forall>c \<in> set f. 0x20 \<le> (of_char c :: nat) \<and> (of_char c :: nat) \<noteq> 0x7F)"

lemma trim_space_slash: "trim_space ''/'' = ''/''"
proof -
  have "trim_left_any spaces ''/'' = ''/''"
    by (rule trim_left_any_id) (simp add: spaces_def)
  moreover have "trim_left_any (map rev spaces) ''/'' = ''/''"
    by (rule trim_left_any_id) (simp add: spaces_def)
  ultimately show ?thesis by (simp add: trim_space_def)
qed

lemma normalize_no_slash:
  assumes "normalize_upload_filename n \<noteq> ''/''"
  shows "CHR ''/'' \<notin> set (normalize_upload_filename n)"
proof (cases "path_base (replace_char (CHR 0x5C) (CHR ''/'') n) = ''/''")
  case True
  with assms show ?thesis by (simp add: normalize_upload_filename_def trim_space_slash)
next
  case False
  from set_path_base [OF False] set_trim_space show ?thesis
    by (auto simp: normalize_upload_filename_def)
qed

lemma validate_upload_filename_None:
  "validate_upload_filename f = None \<longleftrightarrow>
     f \<noteq> '''' \<and> f \<noteq> ''.'' \<and> f \<noteq> ''..'' \<and> f \<noteq> ''/'' \<and>
     (\<exists>rs. runes f = Some rs \<and> (\<forall>r \<in> set rs. \<not> (r < 0x20 \<or> r = 0x7F)))"
  by (cases "runes f") (auto simp: validate_upload_filename_def list_ex_iff)

lemma validated_filename_safe:
  assumes "validate_upload_filename (normalize_upload_filename n) = None"
  shows "safe_filename (normalize_upload_filename n)"
proof -
  let ?f = "normalize_upload_filename n"
  from assms obtain rs where rs: "runes ?f = Some rs" and ctl: "\<forall>r \<in> set rs. \<not> (r < 0x20 \<or> r = 0x7F)"
    and ne: "?f \<noteq> ''''" "?f \<noteq> ''.''" "?f \<noteq> ''..''" "?f \<noteq> ''/''"
    unfolding validate_upload_filename_None by blast
  have "0x20 \<le> (of_char c :: nat) \<and> (of_char c :: nat) \<noteq> 0x7F" if "c \<in> set ?f" for c
  proof (cases "(of_char c :: nat) < 0x80")
    case True
    from that have "of_char c \<in> set (map of_char ?f :: nat list)" by simp
    from utf8_ascii_rune [OF rs [unfolded runes_def] this True] ctl show ?thesis by (auto simp: not_less)
  next
    case False
    then show ?thesis by linarith
  qed
  with ne rs normalize_no_slash [OF ne(4)] show ?thesis
    by (simp add: safe_filename_def utf8_valid_def)
qed

subsection \<open>Keys and their owners\<close>

definition owner_id :: "string \<Rightarrow> int option" where
  "owner_id key =
     (case cut_prefix object_prefix key of
        None \<Rightarrow> None
      | Some rest \<Rightarrow>
          (case cut (CHR ''/'') rest of
             (idText, _, True) \<Rightarrow> parse_int idText
           | (_, _, False) \<Rightarrow> None))"

text \<open>The key an object is created with.\<close>

definition key_for :: "int \<Rightarrow> string \<Rightarrow> string" where
  "key_for i f = object_prefix @ show_int i @ ''/'' @ f"

lemma obj_key_pending: "ob_storage_key o' = None \<Longrightarrow> obj_key o' = key_for (ob_id o') (ob_filename o')"
  by (simp add: obj_key_def key_for_def)

lemma owner_id_key_for: "in_int64 i \<Longrightarrow> owner_id (key_for i f) = Some i"
proof -
  assume i: "in_int64 i"
  have "cut (CHR ''/'') (show_int i @ CHR ''/'' # f) = (show_int i, f, True)"
    by (rule cut_found) (simp add: not_in_show_int)
  with i show ?thesis
    by (simp add: owner_id_def key_for_def cut_prefix_def parse_show_int)
qed

lemma show_nat_not_minus: "show_nat k \<noteq> CHR ''-'' # t"
  using not_in_show_nat [of "CHR ''-''" k] by auto

lemma show_nat_inject: "show_nat m = show_nat n \<longleftrightarrow> m = n"
  using show_nat_inj by blast

lemma show_int_inj: "show_int i = show_int j \<Longrightarrow> i = j"
  by (auto simp: show_int_def show_nat_not_minus show_nat_not_minus [symmetric] show_nat_inject
      split: if_splits)

lemma key_for_inj:
  assumes "key_for i f = key_for j g"
  shows "i = j \<and> f = g"
proof -
  have c: "cut (CHR ''/'') (show_int k @ CHR ''/'' # h) = (show_int k, h, True)" for k h
    by (rule cut_found) (simp add: not_in_show_int)
  from assms have "show_int i @ CHR ''/'' # f = show_int j @ CHR ''/'' # g"
    by (simp add: key_for_def)
  then have "cut (CHR ''/'') (show_int i @ CHR ''/'' # f) = cut (CHR ''/'') (show_int j @ CHR ''/'' # g)"
    by (rule arg_cong)
  then show ?thesis unfolding c using show_int_inj by simp
qed

end
