(* ===== verification/Registry.thy ===== *)
theory Registry
  imports Objects
begin

text \<open>
  The interface \<open>bloby.Registry\<close> of \<open>bloby/object_store.go\<close>: its operations as a record of
  functions on a world of any type, and its contract as a locale. The contract sees the world
  through a view that maps IDs to rows; a row is an object with the expiry mark that the
  interface does not show. Every operation either has its effect on the view or none, whether
  its response arrives or not.
\<close>

subsection \<open>Operations\<close>

record list_options =
  lo_limit :: int
  lo_offset :: int

record 'w registry =
  reg_create_pending :: "string \<Rightarrow> string \<Rightarrow> content \<Rightarrow> 'w \<Rightarrow> obj result \<times> 'w"
  reg_mark_available :: "int \<Rightarrow> string \<Rightarrow> string \<Rightarrow> 'w \<Rightarrow> obj result \<times> 'w"
  reg_refresh_pending :: "int \<Rightarrow> 'w \<Rightarrow> obj result \<times> 'w"
  reg_record_upload :: "int \<Rightarrow> string \<Rightarrow> 'w \<Rightarrow> unit result \<times> 'w"
  reg_clear_upload :: "int \<Rightarrow> string \<Rightarrow> 'w \<Rightarrow> unit result \<times> 'w"
  reg_get :: "int \<Rightarrow> 'w \<Rightarrow> obj result \<times> 'w"
  reg_list_by_ids :: "int list \<Rightarrow> 'w \<Rightarrow> (int \<times> obj) list result \<times> 'w"
  reg_list_by_prefix :: "string \<Rightarrow> list_options \<Rightarrow> 'w \<Rightarrow> (obj list \<times> int) result \<times> 'w"
  reg_delete :: "int \<Rightarrow> 'w \<Rightarrow> obj result \<times> 'w"
  reg_claim_expired :: "int \<Rightarrow> int \<Rightarrow> int \<Rightarrow> 'w \<Rightarrow> obj list result \<times> 'w"
  reg_delete_expired :: "int \<Rightarrow> 'w \<Rightarrow> unit result \<times> 'w"
  reg_list_unreferenced :: "string list \<Rightarrow> int \<Rightarrow> int \<Rightarrow> 'w \<Rightarrow> obj list result \<times> 'w"

subsection \<open>Rows and their transitions\<close>

record row = obj +
  ro_expired :: "int option"

definition row_obj :: "row \<Rightarrow> obj" where
  "row_obj r = obj.truncate r"

definition live :: "row \<Rightarrow> bool" where
  "live r \<longleftrightarrow> ro_expired r = None"

definition pending :: "row \<Rightarrow> bool" where
  "pending r \<longleftrightarrow> ob_available_at r = None \<and> ro_expired r = None"

lemma row_obj_simps [simp]:
  "ob_id (row_obj r) = ob_id r" "ob_prefix (row_obj r) = ob_prefix r"
  "ob_filename (row_obj r) = ob_filename r" "ob_ctype (row_obj r) = ob_ctype r"
  "ob_size (row_obj r) = ob_size r" "ob_sha256 (row_obj r) = ob_sha256 r"
  "ob_crc64 (row_obj r) = ob_crc64 r" "ob_available_at (row_obj r) = ob_available_at r"
  "ob_upload (row_obj r) = ob_upload r" "ob_storage_key (row_obj r) = ob_storage_key r"
  "ob_created (row_obj r) = ob_created r" "ob_updated (row_obj r) = ob_updated r"
  by (simp_all add: row_obj_def obj.truncate_def)

lemma row_obj_derived [simp]:
  "obj_key (row_obj r) = obj_key r" "obj_content (row_obj r) = obj_content r"
  "available (row_obj r) = available r"
  by (simp_all add: obj_key_def obj_content_def available_def split: option.splits)

lemma pending_live: "pending r \<Longrightarrow> live r"
  by (simp add: pending_def live_def)

lemma pending_not_available: "pending r \<Longrightarrow> \<not> available r"
  by (simp add: pending_def available_def)

text \<open>The transitions of a view.\<close>

definition v_created :: "string \<Rightarrow> string \<Rightarrow> content \<Rightarrow> (int \<rightharpoonup> row) \<Rightarrow> row \<Rightarrow> (int \<rightharpoonup> row) \<Rightarrow> bool" where
  "v_created p f c V r V' \<longleftrightarrow>
     V (ob_id r) = None \<and> V' = V(ob_id r \<mapsto> r) \<and> in_int64 (ob_id r) \<and> pending r
     \<and> ob_prefix r = p \<and> ob_filename r = f \<and> ob_storage_key r = None \<and> ob_upload r = None
     \<and> ob_size r = Some (c_size c) \<and> ob_sha256 r = Some (c_sha256 c) \<and> ob_crc64 r = Some (c_crc64 c)"

definition v_published :: "int \<Rightarrow> string \<Rightarrow> string \<Rightarrow> (int \<rightharpoonup> row) \<Rightarrow> row \<Rightarrow> (int \<rightharpoonup> row) \<Rightarrow> bool" where
  "v_published i ct k V r V' \<longleftrightarrow>
     (\<exists>q t. V i = Some q \<and> pending q \<and> ob_upload q = None \<and> V' = V(i \<mapsto> r) \<and>
        r = q\<lparr>ob_ctype := ct, ob_storage_key := Some k, ob_available_at := Some t, ob_updated := t\<rparr>)"

definition v_refreshed :: "int \<Rightarrow> (int \<rightharpoonup> row) \<Rightarrow> row \<Rightarrow> (int \<rightharpoonup> row) \<Rightarrow> bool" where
  "v_refreshed i V r V' \<longleftrightarrow>
     (\<exists>q t. V i = Some q \<and> pending q \<and> r = q\<lparr>ob_updated := t\<rparr> \<and> V' = V(i \<mapsto> r))"

definition v_upload :: "int \<Rightarrow> (string option \<Rightarrow> string option \<Rightarrow> bool) \<Rightarrow> (int \<rightharpoonup> row) \<Rightarrow> (int \<rightharpoonup> row) \<Rightarrow> bool" where
  "v_upload i P V V' \<longleftrightarrow>
     (\<exists>q t u. V i = Some q \<and> live q \<and> P (ob_upload q) u
        \<and> V' = V(i \<mapsto> q\<lparr>ob_upload := u, ob_updated := t\<rparr>))"

definition v_deleted :: "int \<Rightarrow> (row \<Rightarrow> bool) \<Rightarrow> (int \<rightharpoonup> row) \<Rightarrow> row \<Rightarrow> (int \<rightharpoonup> row) \<Rightarrow> bool" where
  "v_deleted i P V r V' \<longleftrightarrow> V i = Some r \<and> P r \<and> V' = V(i := None)"

text \<open>A claim marks a set of rows that are not available as expired.\<close>

definition v_claimed :: "(int \<rightharpoonup> row) \<Rightarrow> int set \<Rightarrow> (int \<rightharpoonup> row) \<Rightarrow> bool" where
  "v_claimed V A V' \<longleftrightarrow>
     (\<exists>t. (\<forall>i \<in> A. \<exists>q. V i = Some q \<and> \<not> available q) \<and>
        V' = (\<lambda>i. if i \<in> A then map_option (\<lambda>q. q\<lparr>ro_expired := Some t\<rparr>) (V i) else V i))"

subsection \<open>The contract\<close>

locale registry_contract =
  fixes R :: "'w registry"
    and V :: "'w \<Rightarrow> int \<rightharpoonup> row"
    and ok :: "'w \<Rightarrow> bool"
  assumes view_id: "ok w \<Longrightarrow> V w i = Some r \<Longrightarrow> ob_id r = i"
    and ok_create: "ok w \<Longrightarrow> ok (snd (reg_create_pending R p f c w))"
    and create_ok: "ok w \<Longrightarrow> reg_create_pending R p f c w = (Inr b, w') \<Longrightarrow>
          \<exists>r. b = row_obj r \<and> v_created p f c (V w) r (V w')"
    and create_err: "ok w \<Longrightarrow> reg_create_pending R p f c w = (Inl e, w') \<Longrightarrow>
          V w' = V w \<or> (\<exists>r. v_created p f c (V w) r (V w'))"
    and ok_mark: "ok w \<Longrightarrow> ok (snd (reg_mark_available R i ct k w))"
    and mark_ok: "ok w \<Longrightarrow> reg_mark_available R i ct k w = (Inr b, w') \<Longrightarrow>
          (\<exists>r. b = row_obj r \<and> v_published i ct k (V w) r (V w'))
          \<or> V w' = V w \<and> (\<exists>r. V w i = Some r \<and> live r \<and> available r \<and> b = row_obj r)"
    and mark_err: "ok w \<Longrightarrow> reg_mark_available R i ct k w = (Inl e, w') \<Longrightarrow>
          V w' = V w \<or> (\<exists>r. v_published i ct k (V w) r (V w'))"
    and mark_not_found: "ok w \<Longrightarrow> reg_mark_available R i ct k w = (Inl e, w') \<Longrightarrow>
          errors_is e ErrNotFound \<Longrightarrow> V w' = V w"
    and ok_refresh: "ok w \<Longrightarrow> ok (snd (reg_refresh_pending R i w))"
    and refresh_ok: "ok w \<Longrightarrow> reg_refresh_pending R i w = (Inr b, w') \<Longrightarrow>
          \<exists>r. b = row_obj r \<and> v_refreshed i (V w) r (V w')"
    and refresh_err: "ok w \<Longrightarrow> reg_refresh_pending R i w = (Inl e, w') \<Longrightarrow>
          V w' = V w \<or> (\<exists>r. v_refreshed i (V w) r (V w'))"
    and ok_record: "ok w \<Longrightarrow> ok (snd (reg_record_upload R i u w))"
    and record_any: "ok w \<Longrightarrow> reg_record_upload R i u w = (res, w') \<Longrightarrow>
          V w' = V w \<or> v_upload i (\<lambda>a b. a = None \<and> b = Some u) (V w) (V w')"
    and record_ok: "ok w \<Longrightarrow> reg_record_upload R i u w = (Inr x, w') \<Longrightarrow>
          v_upload i (\<lambda>a b. a = None \<and> b = Some u) (V w) (V w')"
    and ok_clear: "ok w \<Longrightarrow> ok (snd (reg_clear_upload R i u w))"
    and clear_any: "ok w \<Longrightarrow> reg_clear_upload R i u w = (res, w') \<Longrightarrow>
          V w' = V w \<or> v_upload i (\<lambda>a b. a = Some u \<and> b = None) (V w) (V w')"
    and clear_ok: "ok w \<Longrightarrow> reg_clear_upload R i u w = (Inr x, w') \<Longrightarrow>
          \<exists>r. V w' i = Some r \<and> live r \<and> ob_upload r = None"
    and get_any: "ok w \<Longrightarrow> reg_get R i w = (rg, w') \<Longrightarrow> V w' = V w \<and> ok w'"
    and get_ok: "ok w \<Longrightarrow> reg_get R i w = (Inr b, w') \<Longrightarrow>
          \<exists>r. V w i = Some r \<and> live r \<and> b = row_obj r"
    and list_ids_any: "ok w \<Longrightarrow> reg_list_by_ids R ids w = (rl, w') \<Longrightarrow> V w' = V w \<and> ok w'"
    and list_ids_ok: "ok w \<Longrightarrow> reg_list_by_ids R ids w = (Inr m, w') \<Longrightarrow>
          map_of m i = (if i \<in> set ids then
             (case V w i of Some r \<Rightarrow> if live r then Some (row_obj r) else None | None \<Rightarrow> None) else None)"
    and list_prefix_any: "ok w \<Longrightarrow> reg_list_by_prefix R p opts w = (rp, w') \<Longrightarrow> V w' = V w \<and> ok w'"
    and ok_unlink: "ok w \<Longrightarrow> ok (snd (reg_delete R i w))"
    and unlink_ok: "ok w \<Longrightarrow> reg_delete R i w = (Inr b, w') \<Longrightarrow>
          \<exists>r. b = row_obj r \<and> v_deleted i live (V w) r (V w')"
    and unlink_err: "ok w \<Longrightarrow> reg_delete R i w = (Inl e, w') \<Longrightarrow>
          V w' = V w \<or> (\<exists>r. v_deleted i live (V w) r (V w'))"
    and unlink_not_found: "ok w \<Longrightarrow> reg_delete R i w = (Inl e, w') \<Longrightarrow>
          errors_is e ErrNotFound \<Longrightarrow> V w' = V w \<and> (\<forall>r. V w i = Some r \<longrightarrow> \<not> live r)"
    and ok_claim: "ok w \<Longrightarrow> ok (snd (reg_claim_expired R t1 t2 n w))"
    and claim_ok: "ok w \<Longrightarrow> reg_claim_expired R t1 t2 n w = (Inr bs, w') \<Longrightarrow>
          v_claimed (V w) (ob_id ` set bs) (V w')
          \<and> (\<forall>b \<in> set bs. \<exists>r. V w (ob_id b) = Some r \<and> b = row_obj r)"
    and claim_err: "ok w \<Longrightarrow> reg_claim_expired R t1 t2 n w = (Inl e, w') \<Longrightarrow>
          \<exists>A. v_claimed (V w) A (V w')"
    and ok_purge: "ok w \<Longrightarrow> ok (snd (reg_delete_expired R i w))"
    and purge_any: "ok w \<Longrightarrow> reg_delete_expired R i w = (res, w') \<Longrightarrow>
          V w' = V w \<or> (\<exists>r. v_deleted i (\<lambda>r. \<not> live r) (V w) r (V w'))"
    and unref_any: "ok w \<Longrightarrow> reg_list_unreferenced R ps t n w = (ru, w') \<Longrightarrow> V w' = V w \<and> ok w'"

text \<open>
  IDs come from a sequence: a row that appears has an ID that the sequence had not reached, and
  no operation turns the sequence back.
\<close>

locale registry_fresh = registry_contract R V ok
  for R :: "'w registry" and V :: "'w \<Rightarrow> int \<rightharpoonup> row" and ok :: "'w \<Rightarrow> bool" +
  fixes nx :: "'w \<Rightarrow> int"
  assumes view_bound: "ok w \<Longrightarrow> V w i = Some r \<Longrightarrow> i < nx w"
    and create_bound: "ok w \<Longrightarrow> reg_create_pending R p f c w = (res, w') \<Longrightarrow>
          V w' i \<noteq> V w i \<Longrightarrow> nx w \<le> i"
    and nx_create: "nx w \<le> nx (snd (reg_create_pending R p f c w))"
    and nx_mark: "nx w \<le> nx (snd (reg_mark_available R i ct k w))"
    and nx_refresh: "nx w \<le> nx (snd (reg_refresh_pending R i w))"
    and nx_record: "nx w \<le> nx (snd (reg_record_upload R i u w))"
    and nx_clear: "nx w \<le> nx (snd (reg_clear_upload R i u w))"
    and nx_get: "nx w \<le> nx (snd (reg_get R i w))"
    and nx_list_ids: "nx w \<le> nx (snd (reg_list_by_ids R ids w))"
    and nx_list_prefix: "nx w \<le> nx (snd (reg_list_by_prefix R p opts w))"
    and nx_delete: "nx w \<le> nx (snd (reg_delete R i w))"
    and nx_claim: "nx w \<le> nx (snd (reg_claim_expired R t1 t2 n w))"
    and nx_purge: "nx w \<le> nx (snd (reg_delete_expired R i w))"
    and nx_unref: "nx w \<le> nx (snd (reg_list_unreferenced R ps t n w))"

end
