(* ===== verification/Backend.thy ===== *)
theory Backend
  imports Objects
begin

text \<open>
  The interfaces \<open>backend\<close> and \<open>multipartBackend\<close> of \<open>bloby/store.go\<close> with the types of
  \<open>transfer.go\<close>: their operations as records of functions on a world of any type, and the
  contract of a backend as a locale. The contract sees the stored bytes through a map on the
  keys that objects have; a key of any other shape is outside it.
\<close>

subsection \<open>Types\<close>

datatype strategy = StrategyDirectPut | StrategyMultipart

record upload_target =
  ut_url :: string
  ut_method :: string
  ut_headers :: "(string \<times> string) list"

record upload_action =
  ua_strategy :: strategy
  ua_target :: "upload_target option"

record multipart_upload =
  mu_key :: string
  mu_id :: string

record put_options =
  po_ctype :: string

record get_options =
  go_ctype :: string
  go_cache :: string

subsection \<open>Operations\<close>

record 'w multipart =
  mp_create :: "string \<Rightarrow> 'w \<Rightarrow> string result \<times> 'w"
  mp_presign_part :: "string \<Rightarrow> string \<Rightarrow> int \<Rightarrow> string \<Rightarrow> int \<Rightarrow> 'w \<Rightarrow> upload_target result \<times> 'w"
  mp_complete :: "string \<Rightarrow> string \<Rightarrow> int \<Rightarrow> 'w \<Rightarrow> unit result \<times> 'w"
  mp_abort :: "string \<Rightarrow> string \<Rightarrow> 'w \<Rightarrow> unit result \<times> 'w"
  mp_expired_uploads :: "int \<Rightarrow> 'w \<Rightarrow> multipart_upload list result \<times> 'w"

text \<open>
  \<open>be_multipart\<close> is the type assertion \<open>s.backend.(multipartBackend)\<close>. The listing of
  expired objects can return keys together with an error.
\<close>

record 'w backend =
  be_open :: "string \<Rightarrow> 'w \<Rightarrow> reader result \<times> 'w"
  be_put :: "string \<Rightarrow> reader \<Rightarrow> content \<Rightarrow> put_options \<Rightarrow> 'w \<Rightarrow> unit result \<times> 'w"
  be_delete :: "string \<Rightarrow> 'w \<Rightarrow> unit result \<times> 'w"
  be_presign_get :: "string \<Rightarrow> int \<Rightarrow> get_options \<Rightarrow> 'w \<Rightarrow> string result \<times> 'w"
  be_presign_put :: "string \<Rightarrow> content \<Rightarrow> int \<Rightarrow> 'w \<Rightarrow> upload_target result \<times> 'w"
  be_transfer_origin :: string
  be_begin_upload :: "string \<Rightarrow> content \<Rightarrow> 'w \<Rightarrow> upload_action result \<times> 'w"
  be_verify :: "string \<Rightarrow> content \<Rightarrow> 'w \<Rightarrow> unit result \<times> 'w"
  be_head :: "string \<Rightarrow> int \<Rightarrow> 'w \<Rightarrow> string result \<times> 'w"
  be_expired_objects :: "int \<Rightarrow> 'w \<Rightarrow> (string list \<times> goerr option) \<times> 'w"
  be_multipart :: "'w multipart option"

text \<open>\<open>ttlOrDefault\<close> of \<open>bloby/ttl.go\<close>.\<close>

definition ttl_or_default :: "int \<Rightarrow> int \<Rightarrow> int" where
  "ttl_or_default ttl fallback = (if 0 < ttl then ttl else fallback)"

subsection \<open>Keys of objects\<close>

text \<open>
  The keys that pending and published objects have: a registry ID and a validated file name. A
  file name of the form of the file store's temporary files is excluded.
\<close>

definition temp_name :: "string \<Rightarrow> bool" where
  "temp_name f \<longleftrightarrow> prefix ''.upload-'' f"

definition object_key :: "string \<Rightarrow> bool" where
  "object_key k \<longleftrightarrow> (\<exists>i f. in_int64 i \<and> safe_filename f \<and> \<not> temp_name f \<and> k = key_for i f)"

lemma object_keyI: "in_int64 i \<Longrightarrow> safe_filename f \<Longrightarrow> \<not> temp_name f \<Longrightarrow> object_key (key_for i f)"
  by (auto simp: object_key_def)

lemma object_keyE:
  assumes "object_key k"
  obtains i f where "in_int64 i" "safe_filename f" "\<not> temp_name f" "k = key_for i f"
  using assms by (auto simp: object_key_def)

subsection \<open>The contract\<close>

text \<open>
  \<open>fits c b\<close> is what a backend vouches for when it accepts bytes for a declaration; bytes that match
  the declaration always fit.
\<close>

locale backend_contract =
  fixes B :: "'w backend"
    and H :: hashes
    and stored :: "'w \<Rightarrow> string \<rightharpoonup> string"
    and okb :: "'w \<Rightarrow> bool"
    and fits :: "content \<Rightarrow> string \<Rightarrow> bool"
  assumes fits_matches: "matches H c b \<Longrightarrow> fits c b"
    and okb_put: "okb w \<Longrightarrow> object_key k \<Longrightarrow> okb (snd (be_put B k r c opts w))"
    and put_any: "okb w \<Longrightarrow> object_key k \<Longrightarrow> validate_content c = None \<Longrightarrow> matches H c (rd_bytes r) \<Longrightarrow>
          be_put B k r c opts w = (res, w') \<Longrightarrow>
          stored w' = stored w \<or> (\<exists>b. fits c b \<and> stored w' = (stored w)(k \<mapsto> b))"
    and put_ok: "okb w \<Longrightarrow> object_key k \<Longrightarrow> validate_content c = None \<Longrightarrow> matches H c (rd_bytes r) \<Longrightarrow>
          be_put B k r c opts w = (Inr x, w') \<Longrightarrow> stored w' = (stored w)(k \<mapsto> rd_bytes r)"
    and okb_delete: "okb w \<Longrightarrow> okb (snd (be_delete B k w))"
    and delete_any: "okb w \<Longrightarrow> object_key k \<Longrightarrow> be_delete B k w = (res, w') \<Longrightarrow>
          stored w' = stored w \<or> stored w' = (stored w)(k := None)"
    and delete_listed: "okb w \<Longrightarrow> be_expired_objects B t w = ((ks, err), w') \<Longrightarrow> k \<in> set ks \<Longrightarrow>
          okb v \<Longrightarrow> be_delete B k v = (res, v') \<Longrightarrow>
          stored v' = stored v \<or> stored v' = (stored v)(k := None)"
    and delete_ok: "okb w \<Longrightarrow> object_key k \<Longrightarrow> be_delete B k w = (Inr x, w') \<Longrightarrow>
          stored w' = (stored w)(k := None)"
    and verify_any: "okb w \<Longrightarrow> be_verify B k c w = (res, w') \<Longrightarrow> stored w' = stored w \<and> okb w'"
    and verify_ok: "okb w \<Longrightarrow> object_key k \<Longrightarrow> be_verify B k c w = (Inr x, w') \<Longrightarrow>
          \<exists>b. stored w k = Some b \<and> int (length b) = c_size c"
    and head_any: "okb w \<Longrightarrow> be_head B k n w = (rh, w') \<Longrightarrow> stored w' = stored w \<and> okb w'"
    and open_any: "okb w \<Longrightarrow> be_open B k w = (ro, w') \<Longrightarrow> stored w' = stored w \<and> okb w'"
    and open_ok: "okb w \<Longrightarrow> object_key k \<Longrightarrow> be_open B k w = (Inr rd, w') \<Longrightarrow>
          \<exists>b. stored w k = Some b \<and> prefix (rd_bytes rd) b \<and> (rd_err rd = None \<longrightarrow> rd_bytes rd = b)"
    and begin_any: "okb w \<Longrightarrow> be_begin_upload B k c w = (ra, w') \<Longrightarrow> stored w' = stored w \<and> okb w'"
    and presign_put_any: "okb w \<Longrightarrow> be_presign_put B k c ttl w = (rt, w') \<Longrightarrow> stored w' = stored w \<and> okb w'"
    and presign_get_any: "okb w \<Longrightarrow> be_presign_get B k ttl gopts w = (ru, w') \<Longrightarrow> stored w' = stored w \<and> okb w'"
    and list_any: "okb w \<Longrightarrow> be_expired_objects B t w = (rl, w') \<Longrightarrow> stored w' = stored w \<and> okb w'"
    and list_stored: "okb w \<Longrightarrow> be_expired_objects B t w = ((ks, err), w') \<Longrightarrow> k \<in> set ks \<Longrightarrow>
          object_key k \<Longrightarrow> stored w k \<noteq> None"

subsection \<open>Multipart uploads\<close>

text \<open>
  What is known of multipart uploads: at each key a set of open uploads, and a set of the IDs that
  were ever given out. An upload that is no longer open is never opened again. Only the completion
  of an open upload stores bytes, which nobody has checked, and closes the upload.
\<close>

definition uploads_step :: "('w \<Rightarrow> string \<Rightarrow> string set) \<Rightarrow> ('w \<Rightarrow> string set) \<Rightarrow> 'w \<Rightarrow> 'w \<Rightarrow> bool" where
  "uploads_step opn iss w w' \<longleftrightarrow>
     iss w \<subseteq> iss w' \<and> (\<forall>k u. u \<in> iss w \<longrightarrow> u \<notin> opn w k \<longrightarrow> u \<notin> opn w' k)"

definition keeps_closed :: "('w \<Rightarrow> bool) \<Rightarrow> ('w \<Rightarrow> string \<Rightarrow> string set) \<Rightarrow> ('w \<Rightarrow> string set) \<Rightarrow> ('w \<Rightarrow> 'a \<times> 'w) \<Rightarrow> bool" where
  "keeps_closed okb opn iss g \<longleftrightarrow> (\<forall>w. okb w \<longrightarrow> uploads_step opn iss w (snd (g w)))"

lemma uploads_refl [simp]: "uploads_step opn iss w w"
  by (simp add: uploads_step_def)

lemma uploads_trans: "uploads_step opn iss w v \<Longrightarrow> uploads_step opn iss v u \<Longrightarrow> uploads_step opn iss w u"
  unfolding uploads_step_def by blast

lemma keeps_closedD: "keeps_closed okb opn iss g \<Longrightarrow> okb w \<Longrightarrow> g w = (r, w') \<Longrightarrow> uploads_step opn iss w w'"
  by (fastforce simp: keeps_closed_def)

text \<open>\<open>multi c\<close> says that an upload of the content \<open>c\<close> goes in several parts.\<close>

locale multipart_contract = backend_contract B H stored okb fits
  for B :: "'w backend" and H :: hashes and stored :: "'w \<Rightarrow> string \<rightharpoonup> string" and okb :: "'w \<Rightarrow> bool"
    and fits :: "content \<Rightarrow> string \<Rightarrow> bool" +
  fixes opn :: "'w \<Rightarrow> string \<Rightarrow> string set"
    and iss :: "'w \<Rightarrow> string set"
    and multi :: "content \<Rightarrow> bool"
  assumes begin_kind: "okb w \<Longrightarrow> be_begin_upload B k c w = (Inr a, w') \<Longrightarrow>
          (ua_strategy a = StrategyMultipart) = multi c"
    and verify_multi: "okb w \<Longrightarrow> object_key k \<Longrightarrow> validate_content c = None \<Longrightarrow> multi c \<Longrightarrow>
          be_verify B k c w = (Inr x, w') \<Longrightarrow> \<exists>b. stored w k = Some b \<and> fits c b"
    and up_put: "keeps_closed okb opn iss (be_put B k r c opts)"
    and up_delete: "keeps_closed okb opn iss (be_delete B k)"
    and up_verify: "keeps_closed okb opn iss (be_verify B k c)"
    and up_head: "keeps_closed okb opn iss (be_head B k n)"
    and up_open: "keeps_closed okb opn iss (be_open B k)"
    and up_begin: "keeps_closed okb opn iss (be_begin_upload B k c)"
    and up_presign_put: "keeps_closed okb opn iss (be_presign_put B k c ttl)"
    and up_presign_get: "keeps_closed okb opn iss (be_presign_get B k ttl gopts)"
    and up_list: "keeps_closed okb opn iss (be_expired_objects B t)"
    and up_create: "be_multipart B = Some m \<Longrightarrow> keeps_closed okb opn iss (mp_create m k)"
    and up_presign_part: "be_multipart B = Some m \<Longrightarrow> keeps_closed okb opn iss (mp_presign_part m k u n crc ttl)"
    and up_complete: "be_multipart B = Some m \<Longrightarrow> keeps_closed okb opn iss (mp_complete m k u n)"
    and up_abort: "be_multipart B = Some m \<Longrightarrow> keeps_closed okb opn iss (mp_abort m k u)"
    and up_uploads: "be_multipart B = Some m \<Longrightarrow> keeps_closed okb opn iss (mp_expired_uploads m t)"
    and create_any: "be_multipart B = Some m \<Longrightarrow> okb w \<Longrightarrow> mp_create m k w = (rc, w') \<Longrightarrow>
          stored w' = stored w \<and> okb w' \<and> (\<forall>u. rc = Inr u \<longrightarrow> u \<in> iss w')"
    and presign_part_any: "be_multipart B = Some m \<Longrightarrow> okb w \<Longrightarrow> mp_presign_part m k u n crc ttl w = (rt, w') \<Longrightarrow>
          stored w' = stored w \<and> okb w'"
    and complete_any: "be_multipart B = Some m \<Longrightarrow> okb w \<Longrightarrow> u \<in> iss w \<Longrightarrow> mp_complete m k u n w = (res, w') \<Longrightarrow>
          okb w' \<and> (stored w' = stored w \<or>
            (\<exists>b. u \<in> opn w k \<and> u \<notin> opn w' k \<and> stored w' = (stored w)(k \<mapsto> b)))"
    and abort_any: "be_multipart B = Some m \<Longrightarrow> okb w \<Longrightarrow> mp_abort m k u w = (res, w') \<Longrightarrow>
          stored w' = stored w \<and> okb w'"
    and uploads_any: "be_multipart B = Some m \<Longrightarrow> okb w \<Longrightarrow> mp_expired_uploads m t w = (rl, w') \<Longrightarrow>
          stored w' = stored w \<and> okb w'"

end
