(* ===== verification/Service.thy ===== *)
theory Service
  imports Registry Backend "HOL-Library.State_Monad"
begin

text \<open>
  \<open>bloby.Service\<close>: ingestion (\<open>ingest.go\<close>), deletion (\<open>object_store.go\<close>), cleanup
  (\<open>cleanup_store.go\<close>) and reads (\<open>delivery.go\<close>) over any registry and any backend. The
  operations run in the state monad of a world that holds both. Other requests are served at the
  same time: before each call of the registry or the backend the world takes one step chosen by
  the environment (\<open>w_env\<close>).

  Package \<open>mime\<close> and the detector \<open>mimetype\<close> are a parameter. Contexts appear only through
  their effect, calls that fail; logging has none.
\<close>

subsection \<open>The world of a request\<close>

record ('d, 'f) world =
  w_db :: 'd
  w_be :: 'f
  w_env :: "('d \<times> 'f \<Rightarrow> 'd \<times> 'f) list"

type_synonym ('d, 'f, 'a) oper = "(('d, 'f) world, 'a) state"

definition disturb :: "('d, 'f) world \<Rightarrow> ('d, 'f) world" where
  "disturb w =
     (case w_env w of
        [] \<Rightarrow> w
      | g # gs \<Rightarrow> (let (d, f) = g (w_db w, w_be w) in w\<lparr>w_db := d, w_be := f, w_env := gs\<rparr>))"

definition on_reg :: "('d \<Rightarrow> 'a \<times> 'd) \<Rightarrow> ('d, 'f, 'a) oper" where
  "on_reg g = State (\<lambda>w. let w1 = disturb w; (r, d) = g (w_db w1) in (r, w1\<lparr>w_db := d\<rparr>))"

definition on_be :: "('f \<Rightarrow> 'a \<times> 'f) \<Rightarrow> ('d, 'f, 'a) oper" where
  "on_be g = State (\<lambda>w. let w1 = disturb w; (r, f) = g (w_be w1) in (r, w1\<lparr>w_be := f\<rparr>))"

text \<open>\<open>if err != nil { return ..., err }\<close>.\<close>

definition attempt :: "('w, 'a result) state \<Rightarrow> ('a \<Rightarrow> ('w, 'b result) state) \<Rightarrow> ('w, 'b result) state" where
  "attempt m f = do { r \<leftarrow> m; case r of Inl e \<Rightarrow> State_Monad.return (Inl e) | Inr x \<Rightarrow> f x }"

primrec for_each :: "('a \<Rightarrow> ('w, unit) state) \<Rightarrow> 'a list \<Rightarrow> ('w, unit) state" where
  "for_each f [] = State_Monad.return ()"
| "for_each f (x # xs) = do { f x; for_each f xs }"

subsection \<open>The service\<close>

record mime =
  mi_parse :: "string \<Rightarrow> (string \<times> (string \<times> string) list) option"
  mi_format :: "string \<Rightarrow> (string \<times> string) list \<Rightarrow> string"
  mi_detect :: "string \<Rightarrow> string"

record ('d, 'f) service =
  sv_registry :: "'d registry"
  sv_backend :: "'f backend"
  sv_mime :: mime
  sv_hashes :: hashes
  sv_ttl :: int
  sv_prefixes :: "string list"

definition multipart_parts_max :: int where "multipart_parts_max = 10000"
definition head_bytes :: int where "head_bytes = 3072"
definition cleanup_batch :: int where "cleanup_batch = 100"

definition hour :: int where "hour = 3600 * 1000000000"
definition min_pending_age :: int where "min_pending_age = 24 * hour"

definition normalize_content_type :: "mime \<Rightarrow> string \<Rightarrow> string result" where
  "normalize_content_type M v =
     (case mi_parse M v of
        None \<Rightarrow> Inl (invalid_input ''invalid content type'')
      | Some (mt, ps) \<Rightarrow>
          let v' = mi_format M mt ps in
          if v' = '''' then Inl (invalid_input ''invalid content type'') else Inr v')"

definition create_pending :: "('d, 'f) service \<Rightarrow> string \<Rightarrow> string \<Rightarrow> content \<Rightarrow> ('d, 'f, obj result) oper" where
  "create_pending S p filename c =
     (if \<not> prefix_pattern p then State_Monad.return (Inl (invalid_input ''invalid storage prefix''))
      else let f = normalize_upload_filename filename in
        case validate_upload_filename f of
          Some e \<Rightarrow> State_Monad.return (Inl e)
        | None \<Rightarrow>
            (case validate_content c of
               Some e \<Rightarrow> State_Monad.return (Inl e)
             | None \<Rightarrow> on_reg (reg_create_pending (sv_registry S) p f c)))"

definition mark_available :: "('d, 'f) service \<Rightarrow> obj \<Rightarrow> string \<Rightarrow> ('d, 'f, obj result) oper" where
  "mark_available S b ct =
     (case normalize_content_type (sv_mime S) ct of
        Inl e \<Rightarrow> State_Monad.return (Inl e)
      | Inr ct' \<Rightarrow> on_reg (reg_mark_available (sv_registry S) (ob_id b) ct' (obj_key b)))"

definition get_by_id :: "('d, 'f) service \<Rightarrow> int \<Rightarrow> ('d, 'f, obj result) oper" where
  "get_by_id S i = on_reg (reg_get (sv_registry S) i)"

definition list_by_ids :: "('d, 'f) service \<Rightarrow> int list \<Rightarrow> ('d, 'f, (int \<times> obj) list result) oper" where
  "list_by_ids S ids = on_reg (reg_list_by_ids (sv_registry S) ids)"

definition list_by_prefix ::
  "('d, 'f) service \<Rightarrow> string \<Rightarrow> list_options \<Rightarrow> ('d, 'f, (obj list \<times> int) result) oper" where
  "list_by_prefix S p opts =
     (let opts = (if lo_limit opts = 0 then opts\<lparr>lo_limit := 50\<rparr> else opts) in
      if lo_limit opts < 1 \<or> lo_limit opts > 1000 \<or> lo_offset opts < 0
      then State_Monad.return (Inl (invalid_input ''invalid list options''))
      else on_reg (reg_list_by_prefix (sv_registry S) p opts))"

subsection \<open>Deletion\<close>

definition remove_bytes :: "('d, 'f) service \<Rightarrow> obj \<Rightarrow> ('d, 'f, goerr option) oper" where
  "remove_bytes S b = do {
     abortErr \<leftarrow>
       (case (ob_upload b, be_multipart (sv_backend S)) of
          (Some u, Some m) \<Rightarrow> do {
            r \<leftarrow> on_be (mp_abort m (obj_key b) u);
            State_Monad.return (case r of
              Inl e \<Rightarrow> if errors_is e ErrMultipartUploadNotFound then None else Some e
            | Inr _ \<Rightarrow> None) }
        | _ \<Rightarrow> State_Monad.return None);
     r \<leftarrow> on_be (be_delete (sv_backend S) (obj_key b));
     State_Monad.return (errors_join abortErr (err_of r)) }"

definition delete_bytes :: "('d, 'f) service \<Rightarrow> obj \<Rightarrow> ('d, 'f, unit) oper" where
  "delete_bytes S b = do { remove_bytes S b; State_Monad.return () }"

definition delete_unreferenced :: "('d, 'f) service \<Rightarrow> int list \<Rightarrow> ('d, 'f, unit) oper" where
  "delete_unreferenced S ids =
     for_each (\<lambda>i. do {
       r \<leftarrow> on_reg (reg_delete (sv_registry S) i);
       case r of Inr b \<Rightarrow> delete_bytes S b | Inl e \<Rightarrow> State_Monad.return () }) ids"

definition delete_object :: "('d, 'f) service \<Rightarrow> int \<Rightarrow> string \<Rightarrow> ('d, 'f, unit result) oper" where
  "delete_object S i p =
     attempt (on_reg (reg_get (sv_registry S) i)) (\<lambda>b.
       if ob_prefix b \<noteq> p
       then State_Monad.return (Inl (invalid_input ''object has the wrong storage prefix''))
       else attempt (on_reg (reg_delete (sv_registry S) (ob_id b))) (\<lambda>b'. do {
         delete_bytes S b';
         State_Monad.return (Inr ()) }))"

subsection \<open>Ingestion\<close>

definition multipart_of :: "('d, 'f) service \<Rightarrow> 'f multipart result" where
  "multipart_of S =
     (case be_multipart (sv_backend S) of
        None \<Rightarrow> Inl (invalid_input ''multipart uploads require S3 storage'')
      | Some m \<Rightarrow> Inr m)"

text \<open>The error of a failed reservation, joined with the error of its removal.\<close>

definition abandon :: "('d, 'f) service \<Rightarrow> obj \<Rightarrow> string \<Rightarrow> goerr \<Rightarrow> ('d, 'f, 'a result) oper" where
  "abandon S b p e = do {
     r \<leftarrow> delete_object S (ob_id b) p;
     State_Monad.return (Inl (case errors_join (Some e) (err_of r) of Some j \<Rightarrow> j | None \<Rightarrow> e)) }"

definition create_multipart :: "('d, 'f) service \<Rightarrow> obj \<Rightarrow> ('d, 'f, unit result) oper" where
  "create_multipart S b =
     (case multipart_of S of
        Inl e \<Rightarrow> State_Monad.return (Inl e)
      | Inr m \<Rightarrow>
          attempt (on_be (mp_create m (obj_key b))) (\<lambda>u. do {
            r \<leftarrow> on_reg (reg_record_upload (sv_registry S) (ob_id b) u);
            case r of
              Inr _ \<Rightarrow> State_Monad.return (Inr ())
            | Inl e \<Rightarrow> do {
                a \<leftarrow> on_be (mp_abort m (obj_key b) u);
                State_Monad.return (Inl (case errors_join (Some e) (err_of a) of Some j \<Rightarrow> j | None \<Rightarrow> e)) } }))"

definition begin_upload ::
  "('d, 'f) service \<Rightarrow> string \<Rightarrow> string \<Rightarrow> content \<Rightarrow> ('d, 'f, (obj \<times> upload_action) result) oper" where
  "begin_upload S p filename c =
     attempt (create_pending S p filename c) (\<lambda>b. do {
       a \<leftarrow> on_be (be_begin_upload (sv_backend S) (obj_key b) c);
       case a of
         Inl e \<Rightarrow> abandon S b p e
       | Inr action \<Rightarrow>
           if ua_strategy action = StrategyMultipart then do {
             m \<leftarrow> create_multipart S b;
             case m of
               Inl e \<Rightarrow> abandon S b p e
             | Inr _ \<Rightarrow> State_Monad.return (Inr (b, action)) }
           else State_Monad.return (Inr (b, action)) })"

definition begin_direct ::
  "('d, 'f) service \<Rightarrow> string \<Rightarrow> string \<Rightarrow> content \<Rightarrow> ('d, 'f, (obj \<times> upload_action) result) oper" where
  "begin_direct S p filename c =
     attempt (create_pending S p filename c) (\<lambda>b. do {
       t \<leftarrow> on_be (be_presign_put (sv_backend S) (obj_key b) c 0);
       case t of
         Inl e \<Rightarrow> abandon S b p e
       | Inr target \<Rightarrow>
           State_Monad.return (Inr (b, \<lparr>ua_strategy = StrategyDirectPut, ua_target = Some target\<rparr>)) })"

text \<open>
  \<open>Write\<close> when its publication failed: the registry decides whether the bytes may go. A publish
  may have committed before its response was lost, so they stay unless the object is gone.
\<close>

definition write_undo :: "('d, 'f) service \<Rightarrow> obj \<Rightarrow> goerr \<Rightarrow> ('d, 'f, obj result) oper" where
  "write_undo S b e = do {
     d \<leftarrow> on_reg (reg_delete (sv_registry S) (ob_id b));
     (case d of
        Inr deleted \<Rightarrow> delete_bytes S deleted
      | Inl de \<Rightarrow>
          if errors_is de ErrNotFound then delete_bytes S b
          else State_Monad.return ());
     State_Monad.return (Inl e) }"

definition write_publish :: "('d, 'f) service \<Rightarrow> obj \<Rightarrow> string \<Rightarrow> ('d, 'f, obj result) oper" where
  "write_publish S b ct = do {
     m \<leftarrow> mark_available S b ct;
     case m of
       Inr q \<Rightarrow> State_Monad.return (Inr q)
     | Inl e \<Rightarrow> write_undo S b e }"

definition write_object ::
  "('d, 'f) service \<Rightarrow> string \<Rightarrow> string \<Rightarrow> string \<Rightarrow> string \<Rightarrow> ('d, 'f, obj result) oper" where
  "write_object S p filename contentType body =
     (case normalize_content_type (sv_mime S) contentType of
        Inl e \<Rightarrow> State_Monad.return (Inl e)
      | Inr ct \<Rightarrow>
          (case digest (sv_hashes S) (bytes_reader body) of
             Inl e \<Rightarrow> State_Monad.return (Inl e)
           | Inr c \<Rightarrow>
               attempt (create_pending S p filename c) (\<lambda>b. do {
                 w \<leftarrow> on_be (be_put (sv_backend S) (obj_key b) (bytes_reader body) c \<lparr>po_ctype = ct\<rparr>);
                 case w of
                   Inl e \<Rightarrow> do {
                     delete_unreferenced S [ob_id b];
                     State_Monad.return (Inl e) }
                 | Inr _ \<Rightarrow> write_publish S b ct })))"

definition complete_multipart :: "('d, 'f) service \<Rightarrow> obj \<Rightarrow> string \<Rightarrow> content \<Rightarrow> ('d, 'f, unit result) oper" where
  "complete_multipart S b u c =
     (case multipart_of S of
        Inl e \<Rightarrow> State_Monad.return (Inl e)
      | Inr m \<Rightarrow> do {
          r \<leftarrow> on_be (mp_complete m (obj_key b) u (c_size c));
          case r of
            Inl e \<Rightarrow>
              if \<not> errors_is e ErrMultipartUploadNotFound then State_Monad.return (Inl e)
              else on_reg (reg_clear_upload (sv_registry S) (ob_id b) u)
          | Inr _ \<Rightarrow> on_reg (reg_clear_upload (sv_registry S) (ob_id b) u) })"

definition inspect :: "('d, 'f) service \<Rightarrow> string \<Rightarrow> content \<Rightarrow> ('d, 'f, string result) oper" where
  "inspect S k c =
     attempt (on_be (be_verify (sv_backend S) k c)) (\<lambda>_.
       if c_size c = 0 then State_Monad.return (Inr '''')
       else on_be (be_head (sv_backend S) k head_bytes))"

text \<open>\<open>Finalize\<close> from the point where the object is known to be pending.\<close>

definition finalize_pending :: "('d, 'f) service \<Rightarrow> obj \<Rightarrow> ('d, 'f, obj result) oper" where
  "finalize_pending S b =
     (case obj_content b of
        Inl e \<Rightarrow> State_Monad.return (Inl e)
      | Inr c \<Rightarrow>
          attempt (case ob_upload b of
              None \<Rightarrow> State_Monad.return (Inr ())
            | Some u \<Rightarrow> complete_multipart S b u c) (\<lambda>_. do {
            h \<leftarrow> inspect S (obj_key b) c;
            case h of
              Inl e \<Rightarrow>
                if errors_is e ErrObjectNotFound
                then State_Monad.return (Inl (Wrap ''upload has not arrived'' [Sentinel ErrInvalidInput, e]))
                else State_Monad.return (Inl e)
            | Inr head \<Rightarrow> mark_available S b (mi_detect (sv_mime S) head) }))"

definition finalize :: "('d, 'f) service \<Rightarrow> int \<Rightarrow> string \<Rightarrow> ('d, 'f, obj result) oper" where
  "finalize S i p =
     attempt (on_reg (reg_get (sv_registry S) i)) (\<lambda>b.
       if ob_prefix b \<noteq> p
       then State_Monad.return (Inl (invalid_input ''object has the wrong storage prefix''))
       else if available b then State_Monad.return (Inr b)
       else do {
         r \<leftarrow> on_reg (reg_refresh_pending (sv_registry S) (ob_id b));
         case r of
           Inr b' \<Rightarrow> finalize_pending S b'
         | Inl e \<Rightarrow>
             if errors_is e ErrNotFound then do {
               cur \<leftarrow> on_reg (reg_get (sv_registry S) i);
               case cur of
                 Inr current \<Rightarrow>
                   if available current then State_Monad.return (Inr current)
                   else State_Monad.return (Inl e)
               | Inl _ \<Rightarrow> State_Monad.return (Inl e) }
             else State_Monad.return (Inl e) })"

definition presign_multipart_part ::
  "('d, 'f) service \<Rightarrow> int \<Rightarrow> string \<Rightarrow> int \<Rightarrow> string \<Rightarrow> ('d, 'f, upload_target result) oper" where
  "presign_multipart_part S i p part crc =
     (if part < 1 \<or> part > multipart_parts_max
      then State_Monad.return (Inl (invalid_input ''part_number must be between 1 and 10000''))
      else if \<not> crc64_pattern crc then State_Monad.return (Inl (invalid_input ''part needs a CRC64NVME''))
      else case multipart_of S of
        Inl e \<Rightarrow> State_Monad.return (Inl e)
      | Inr m \<Rightarrow>
          attempt (on_reg (reg_get (sv_registry S) i)) (\<lambda>b.
            if ob_prefix b \<noteq> p
            then State_Monad.return (Inl (invalid_input ''object has the wrong storage prefix''))
            else if available b
            then State_Monad.return (Inl (invalid_input ''storage object is already finalized''))
            else attempt (on_reg (reg_refresh_pending (sv_registry S) (ob_id b))) (\<lambda>b'.
              case ob_upload b' of
                None \<Rightarrow> State_Monad.return (Inl (invalid_input ''object has no multipart upload''))
              | Some u \<Rightarrow> on_be (mp_presign_part m (obj_key b') u part crc 0))))"

subsection \<open>Cleanup\<close>

definition pending_upload_max_age :: "int \<Rightarrow> int" where
  "pending_upload_max_age ttl = (if ttl \<ge> min_pending_age then wrap64 (ttl + hour) else min_pending_age)"

text \<open>The registry objects that the keys' ID segments name.\<close>

definition owners :: "('d, 'f) service \<Rightarrow> string list \<Rightarrow> ('d, 'f, (int \<times> obj) list result) oper" where
  "owners S keys =
     (let ids = List.map_filter owner_id keys in
      if ids = [] then State_Monad.return (Inr [])
      else on_reg (reg_list_by_ids (sv_registry S) ids))"

definition owned_key :: "(int \<times> obj) list \<Rightarrow> int \<Rightarrow> string \<Rightarrow> bool" where
  "owned_key own i k = (case map_of own i of Some b \<Rightarrow> obj_key b = k | None \<Rightarrow> False)"

definition owned_upload :: "(int \<times> obj) list \<Rightarrow> multipart_upload \<Rightarrow> bool" where
  "owned_upload own u =
     (case owner_id (mu_key u) of
        None \<Rightarrow> False
      | Some i \<Rightarrow> (case map_of own i of Some b \<Rightarrow> ob_upload b = Some (mu_id u) | None \<Rightarrow> False))"

definition sweep_keys :: "('d, 'f) service \<Rightarrow> string list \<Rightarrow> ('d, 'f, unit) oper" where
  "sweep_keys S batch = do {
     own \<leftarrow> owners S batch;
     case own of
       Inl e \<Rightarrow> State_Monad.return ()
     | Inr own \<Rightarrow>
         for_each (\<lambda>k.
           case owner_id k of
             None \<Rightarrow> State_Monad.return ()
           | Some i \<Rightarrow>
               if owned_key own i k then State_Monad.return ()
               else do { on_be (be_delete (sv_backend S) k); State_Monad.return () }) batch }"

definition sweep_uploads :: "('d, 'f) service \<Rightarrow> 'f multipart \<Rightarrow> multipart_upload list \<Rightarrow> ('d, 'f, unit) oper" where
  "sweep_uploads S m batch = do {
     own \<leftarrow> owners S (map mu_key batch);
     case own of
       Inl e \<Rightarrow> State_Monad.return ()
     | Inr own \<Rightarrow>
         for_each (\<lambda>u.
           if owned_upload own u then State_Monad.return ()
           else do { on_be (mp_abort m (mu_key u) (mu_id u)); State_Monad.return () }) batch }"

definition sweep_orphans :: "('d, 'f) service \<Rightarrow> int \<Rightarrow> ('d, 'f, unit) oper" where
  "sweep_orphans S before = do {
     l \<leftarrow> on_be (be_expired_objects (sv_backend S) before);
     for_each (sweep_keys S) (chunk (nat cleanup_batch) (fst l));
     case be_multipart (sv_backend S) of
       None \<Rightarrow> State_Monad.return ()
     | Some m \<Rightarrow> do {
         u \<leftarrow> on_be (mp_expired_uploads m before);
         for_each (sweep_uploads S m)
           (chunk (nat cleanup_batch) (case u of Inl _ \<Rightarrow> [] | Inr us \<Rightarrow> us)) } }"

definition sweep_unreferenced :: "('d, 'f) service \<Rightarrow> int \<Rightarrow> ('d, 'f, unit) oper" where
  "sweep_unreferenced S before =
     (if sv_prefixes S = [] then State_Monad.return ()
      else do {
        l \<leftarrow> on_reg (reg_list_unreferenced (sv_registry S) (sv_prefixes S) before cleanup_batch);
        delete_unreferenced S (case l of Inl _ \<Rightarrow> [] | Inr bs \<Rightarrow> map ob_id bs) })"

definition sweep_expired_uploads :: "('d, 'f) service \<Rightarrow> int \<Rightarrow> ('d, 'f, unit) oper" where
  "sweep_expired_uploads S now =
     (let before = now - pending_upload_max_age (sv_ttl S) in do {
        l \<leftarrow> on_reg (reg_claim_expired (sv_registry S) before (now - hour) cleanup_batch);
        for_each (\<lambda>b. do {
            e \<leftarrow> remove_bytes S b;
            case e of
              None \<Rightarrow> do {
                on_reg (reg_delete_expired (sv_registry S) (ob_id b));
                State_Monad.return () }
            | Some _ \<Rightarrow> State_Monad.return () })
          (case l of Inl _ \<Rightarrow> [] | Inr bs \<Rightarrow> bs);
        sweep_unreferenced S before;
        sweep_orphans S before })"

text \<open>\<open>RunCleanup\<close> sweeps at once and at every tick until its context ends.\<close>

definition run_cleanup :: "('d, 'f) service \<Rightarrow> int list \<Rightarrow> ('d, 'f, unit) oper" where
  "run_cleanup S ticks = for_each (sweep_expired_uploads S) ticks"

subsection \<open>Reads\<close>

definition download_url :: "('d, 'f) service \<Rightarrow> obj \<Rightarrow> int \<Rightarrow> string \<Rightarrow> ('d, 'f, string result) oper" where
  "download_url S b ttl cache =
     (if \<not> available b then State_Monad.return (Inl (Sentinel ErrNotFound))
      else on_be (be_presign_get (sv_backend S) (obj_stored_key b) ttl \<lparr>go_ctype = ob_ctype b, go_cache = cache\<rparr>))"

definition open_object :: "('d, 'f) service \<Rightarrow> obj \<Rightarrow> ('d, 'f, reader result) oper" where
  "open_object S b =
     (if \<not> available b then State_Monad.return (Inl (Sentinel ErrNotFound))
      else on_be (be_open (sv_backend S) (obj_stored_key b)))"

definition service_origin :: "('d, 'f) service \<Rightarrow> string" where
  "service_origin S = be_transfer_origin (sv_backend S)"

end
