(* ===== verification/Rely.thy ===== *)
theory Rely
  imports Service
begin

text \<open>
  Reasoning about operations of the service while other requests run. A rely consists of an
  invariant \<open>I\<close> of the stores under a history, of a relation \<open>R\<close> between earlier and later
  stores, which is what other requests may do to them, and of a weaker one \<open>E\<close>, which is what may
  happen in all, one's own calls included. \<open>within I R E P m Q\<close> says of an operation \<open>m\<close>: started
  under \<open>P\<close>, with an environment whose steps stay in the rely, it stays in \<open>I\<close> and \<open>E\<close> and ends
  under \<open>Q\<close>. The history is a ghost: it appears in no definition of the program.
\<close>

subsection \<open>Operations within a rely\<close>

type_synonym ('h, 'd, 'f) assertion = "'d \<times> 'f \<Rightarrow> 'h \<Rightarrow> bool"

definition stores :: "('d, 'f) world \<Rightarrow> 'd \<times> 'f" where
  "stores w = (w_db w, w_be w)"

definition stays :: "('h \<Rightarrow> 'd \<times> 'f \<Rightarrow> bool) \<Rightarrow> ('h \<Rightarrow> 'd \<times> 'f \<Rightarrow> 'h \<Rightarrow> 'd \<times> 'f \<Rightarrow> bool) \<Rightarrow>
    ('d \<times> 'f \<Rightarrow> 'd \<times> 'f) \<Rightarrow> bool" where
  "stays I E g \<longleftrightarrow> (\<forall>h s. I h s \<longrightarrow> (\<exists>h'. I h' (g s) \<and> E h s h' (g s)))"

definition good :: "('h \<Rightarrow> 'd \<times> 'f \<Rightarrow> bool) \<Rightarrow> ('h \<Rightarrow> 'd \<times> 'f \<Rightarrow> 'h \<Rightarrow> 'd \<times> 'f \<Rightarrow> bool) \<Rightarrow>
    'h \<Rightarrow> ('d, 'f) world \<Rightarrow> bool" where
  "good I R h w \<longleftrightarrow> I h (stores w) \<and> list_all (stays I R) (w_env w)"

definition within ::
  "('h \<Rightarrow> 'd \<times> 'f \<Rightarrow> bool) \<Rightarrow> ('h \<Rightarrow> 'd \<times> 'f \<Rightarrow> 'h \<Rightarrow> 'd \<times> 'f \<Rightarrow> bool) \<Rightarrow>
     ('h \<Rightarrow> 'd \<times> 'f \<Rightarrow> 'h \<Rightarrow> 'd \<times> 'f \<Rightarrow> bool) \<Rightarrow> ('h, 'd, 'f) assertion \<Rightarrow> ('d, 'f, 'a) oper \<Rightarrow> ('a \<Rightarrow> ('h, 'd, 'f) assertion) \<Rightarrow> bool" where
  "within I R E P m Q \<longleftrightarrow>
     (\<forall>h w r w'. good I R h w \<and> P (stores w) h \<and> run_state m w = (r, w') \<longrightarrow>
        (\<exists>h'. good I R h' w' \<and> E h (stores w) h' (stores w') \<and> Q r (stores w') h'))"

definition stable ::
  "('h \<Rightarrow> 'd \<times> 'f \<Rightarrow> bool) \<Rightarrow> ('h \<Rightarrow> 'd \<times> 'f \<Rightarrow> 'h \<Rightarrow> 'd \<times> 'f \<Rightarrow> bool) \<Rightarrow> ('h, 'd, 'f) assertion \<Rightarrow> bool" where
  "stable I E P \<longleftrightarrow> (\<forall>h s h' s'. I h s \<and> I h' s' \<and> E h s h' s' \<and> P s h \<longrightarrow> P s' h')"

text \<open>One call of a store: what it must do to stay in the rely, given its precondition.\<close>

definition call_ok ::
  "('h \<Rightarrow> 's \<Rightarrow> bool) \<Rightarrow> ('h \<Rightarrow> 's \<Rightarrow> 'h \<Rightarrow> 's \<Rightarrow> bool) \<Rightarrow>
     ('s \<Rightarrow> 'h \<Rightarrow> bool) \<Rightarrow> ('s \<Rightarrow> 'a \<times> 's) \<Rightarrow> ('a \<Rightarrow> 's \<Rightarrow> 'h \<Rightarrow> bool) \<Rightarrow> bool" where
  "call_ok I E P g Q \<longleftrightarrow>
     (\<forall>h s r s'. I h s \<and> P s h \<and> g s = (r, s') \<longrightarrow> (\<exists>h'. I h' s' \<and> E h s h' s' \<and> Q r s' h'))"

definition lift_db :: "('d \<Rightarrow> 'a \<times> 'd) \<Rightarrow> 'd \<times> 'f \<Rightarrow> 'a \<times> ('d \<times> 'f)" where
  "lift_db g s = (let (r, d) = g (fst s) in (r, (d, snd s)))"

definition lift_be :: "('f \<Rightarrow> 'a \<times> 'f) \<Rightarrow> 'd \<times> 'f \<Rightarrow> 'a \<times> ('d \<times> 'f)" where
  "lift_be g s = (let (r, f) = g (snd s) in (r, (fst s, f)))"

lemma stable_conj [intro]: "stable I E P \<Longrightarrow> stable I E Q \<Longrightarrow> stable I E (\<lambda>s h. P s h \<and> Q s h)"
  unfolding stable_def by blast

lemma stable_const [intro]: "stable I E (\<lambda>s h. b)"
  by (simp add: stable_def)

lemma stable_all [intro]: "(\<And>x. x \<in> A \<Longrightarrow> stable I E (P x)) \<Longrightarrow> stable I E (\<lambda>s h. \<forall>x \<in> A. P x s h)"
  unfolding stable_def by blast

lemma stable_imp [intro]: "(b \<Longrightarrow> stable I E P) \<Longrightarrow> stable I E (\<lambda>s h. b \<longrightarrow> P s h)"
  unfolding stable_def by blast

lemma withinI:
  assumes "\<And>h w r w'. good I R h w \<Longrightarrow> P (stores w) h \<Longrightarrow> run_state m w = (r, w') \<Longrightarrow>
    \<exists>h'. good I R h' w' \<and> E h (stores w) h' (stores w') \<and> Q r (stores w') h'"
  shows "within I R E P m Q"
  using assms unfolding within_def by blast

lemma withinD:
  assumes "within I R E P m Q" "good I R h w" "P (stores w) h" "run_state m w = (r, w')"
  obtains h' where "good I R h' w'" "E h (stores w) h' (stores w')" "Q r (stores w') h'"
  using assms unfolding within_def by blast

lemma within_conseq:
  assumes "within I R E P m Q" and "\<And>s h. P' s h \<Longrightarrow> P s h" and "\<And>r s h. Q r s h \<Longrightarrow> Q' r s h"
  shows "within I R E P' m Q'"
  using assms unfolding within_def by metis

text \<open>A precondition that does not speak of the stores is a fact of the proof.\<close>

lemma within_fact: "(b \<Longrightarrow> within I R E P m Q) \<Longrightarrow> within I R E (\<lambda>s h. b \<and> P s h) m Q"
  unfolding within_def by blast

locale rely =
  fixes I :: "'h \<Rightarrow> 'd \<times> 'f \<Rightarrow> bool"
    and R :: "'h \<Rightarrow> 'd \<times> 'f \<Rightarrow> 'h \<Rightarrow> 'd \<times> 'f \<Rightarrow> bool"
    and E :: "'h \<Rightarrow> 'd \<times> 'f \<Rightarrow> 'h \<Rightarrow> 'd \<times> 'f \<Rightarrow> bool"
  assumes R_E: "I h s \<Longrightarrow> I h' s' \<Longrightarrow> R h s h' s' \<Longrightarrow> E h s h' s'" and R_refl: "I h s \<Longrightarrow> R h s h s"
    and E_trans: "I h s \<Longrightarrow> I h1 s1 \<Longrightarrow> I h2 s2 \<Longrightarrow> E h s h1 s1 \<Longrightarrow> E h1 s1 h2 s2 \<Longrightarrow> E h s h2 s2"
begin

lemma E_refl: "I h s \<Longrightarrow> E h s h s"
  using R_E R_refl by blast

lemma stable_rely: "stable I E P \<Longrightarrow> stable I R P"
  using R_E unfolding stable_def by blast

lemma within_return: "(\<And>s h. P s h \<Longrightarrow> Q x s h) \<Longrightarrow> within I R E P (State_Monad.return x) Q"
  by (rule withinI) (use E_refl in \<open>unfold good_def, simp, blast\<close>)

lemma within_bind:
  assumes m: "within I R E P m Q" and f: "\<And>r. within I R E (Q r) (f r) Z"
  shows "within I R E P (State_Monad.bind m f) Z"
proof (rule withinI)
  fix h w r w2
  assume g: "good I R h w" and P: "P (stores w) h" and run: "run_state (State_Monad.bind m f) w = (r, w2)"
  obtain x w1 where x: "run_state m w = (x, w1)" by fastforce
  with run have r: "run_state (f x) w1 = (r, w2)" by simp
  from m g P x obtain h1 where h1: "good I R h1 w1" "E h (stores w) h1 (stores w1)" "Q x (stores w1) h1"
    by (rule withinD)
  from f h1(1,3) r obtain h2 where h2: "good I R h2 w2" "E h1 (stores w1) h2 (stores w2)" "Z r (stores w2) h2"
    by (rule withinD)
  have "E h (stores w) h2 (stores w2)"
    by (rule E_trans [OF _ _ _ h1(2) h2(2)]) (use g h1(1) h2(1) in \<open>auto simp: good_def\<close>)
  with h2 show "\<exists>h'. good I R h' w2 \<and> E h (stores w) h' (stores w2) \<and> Z r (stores w2) h'" by blast
qed

lemma within_frame:
  assumes m: "within I R E P m Q" and F: "stable I E F"
  shows "within I R E (\<lambda>s h. P s h \<and> F s h) m (\<lambda>r s h. Q r s h \<and> F s h)"
proof (rule withinI)
  fix h w r w'
  assume g: "good I R h w" and P: "P (stores w) h \<and> F (stores w) h" and run: "run_state m w = (r, w')"
  from m g P run obtain h' where h': "good I R h' w'" "E h (stores w) h' (stores w')" "Q r (stores w') h'"
    by (blast elim: withinD)
  moreover have "F (stores w') h'"
    using F P g h' unfolding stable_def good_def by blast
  ultimately show "\<exists>h'. good I R h' w' \<and> E h (stores w) h' (stores w') \<and> Q r (stores w') h' \<and> F (stores w') h'"
    by blast
qed

lemma within_attempt:
  assumes m: "within I R E P m Q" and err: "\<And>e s h. Q (Inl e) s h \<Longrightarrow> Z (Inl e) s h"
    and f: "\<And>x. within I R E (Q (Inr x)) (f x) Z"
  shows "within I R E P (attempt m f) Z"
  unfolding attempt_def
proof (rule within_bind [OF m])
  fix r
  show "within I R E (Q r) (case r of Inl e \<Rightarrow> State_Monad.return (Inl e) | Inr x \<Rightarrow> f x) Z"
    using f err by (cases r) (auto intro: within_return)
qed

lemma within_for_each:
  assumes "\<And>x. x \<in> set xs \<Longrightarrow> within I R E P (f x) (\<lambda>_. P)"
  shows "within I R E P (for_each f xs) (\<lambda>_. P)"
  using assms
proof (induction xs)
  case Nil
  show ?case by (auto intro: within_return)
next
  case (Cons x xs)
  then show ?case by (auto intro!: within_bind [where Q = "\<lambda>_. P"])
qed

text \<open>Before a call the environment takes a step, which a stable precondition survives.\<close>

lemma disturbed:
  assumes "good I R h w"
  obtains h1 where "good I R h1 (disturb w)" "R h (stores w) h1 (stores (disturb w))"
proof (cases "w_env w")
  case Nil
  with assms that [of h] R_refl show ?thesis by (simp add: disturb_def good_def)
next
  case (Cons g gs)
  have I: "I h (stores w)" and g: "stays I R g" and gs: "list_all (stays I R) gs"
    using assms Cons by (simp_all add: good_def)
  from g I obtain h1 where "I h1 (g (stores w))" "R h (stores w) h1 (g (stores w))"
    unfolding stays_def by blast
  moreover have "stores (disturb w) = g (stores w)" "w_env (disturb w) = gs"
    using Cons by (auto simp: disturb_def stores_def split: prod.splits)
  ultimately show ?thesis using that [of h1] gs by (simp add: good_def)
qed

lemma within_call:
  assumes P: "stable I R P" and c: "call_ok I E P g Q"
    and m: "\<And>w r w'. run_state m w = (r, w') \<Longrightarrow>
        g (stores (disturb w)) = (r, stores w') \<and> w_env w' = w_env (disturb w)"
  shows "within I R E P m Q"
proof (rule withinI)
  fix h w r w'
  assume gd: "good I R h w" and p: "P (stores w) h" and run: "run_state m w = (r, w')"
  from gd obtain h1 where h1: "good I R h1 (disturb w)" "R h (stores w) h1 (stores (disturb w))"
    by (rule disturbed)
  have I: "I h (stores w)" "I h1 (stores (disturb w))" using gd h1(1) by (simp_all add: good_def)
  have E1: "E h (stores w) h1 (stores (disturb w))" by (rule R_E [OF I h1(2)])
  have "P (stores (disturb w)) h1" using P I h1(2) p unfolding stable_def by blast
  with c I(2) m [OF run] obtain h2 where h2: "I h2 (stores w')" "E h1 (stores (disturb w)) h2 (stores w')"
    "Q r (stores w') h2"
    unfolding call_ok_def by blast
  moreover have "good I R h2 w'" using h2(1) h1(1) m [OF run] by (simp add: good_def)
  ultimately show "\<exists>h'. good I R h' w' \<and> E h (stores w) h' (stores w') \<and> Q r (stores w') h'"
    using E_trans [OF I h2(1) E1 h2(2)] by blast
qed

lemma within_reg: "stable I R P \<Longrightarrow> call_ok I E P (lift_db g) Q \<Longrightarrow> within I R E P (on_reg g) Q"
  by (erule within_call) (auto simp: on_reg_def lift_db_def stores_def Let_def split: prod.splits)

lemma within_be: "stable I R P \<Longrightarrow> call_ok I E P (lift_be g) Q \<Longrightarrow> within I R E P (on_be g) Q"
  by (erule within_call) (auto simp: on_be_def lift_be_def stores_def Let_def split: prod.splits)

end

end
