(* ===== verification/Safety.thy ===== *)
theory Safety
  imports Rely
begin

text \<open>
  The safety of the service over any registry and any backend that keep their contracts, with
  single-request and with multipart uploads: what the two stores satisfy together at all times
  (\<open>store_inv\<close>), what any request may do to them (\<open>evolves\<close>), and that every operation of the
  service does no more, whatever happens between its calls.

  The ghost history records of every ID that was ever handed out the file name and the content
  it was declared with, and how its bytes arrive (\<open>slot\<close>); the stores may forget an object, the
  history does not.
\<close>

subsection \<open>Invariant and evolution\<close>

text \<open>
  The bytes of an object arrive in one piece, checked by the backend (\<open>Direct\<close>), or by the multipart
  upload of an ID (\<open>Multi\<close>). Between its reservation and the creation of its multipart upload the
  object belongs to the request that reserved it, which a number tells from all others (\<open>Fresh\<close>).
\<close>

datatype slot = Direct | Fresh nat | Multi string

type_synonym history = "int \<rightharpoonup> string \<times> content \<times> slot"

definition slot_le :: "slot \<Rightarrow> slot \<Rightarrow> bool" where
  "slot_le s s' \<longleftrightarrow> s' = s \<or> (\<exists>t u. s = Fresh t \<and> s' = Multi u)"

definition history_le :: "history \<Rightarrow> history \<Rightarrow> bool" where
  "history_le h h' \<longleftrightarrow>
     (\<forall>i fn c sl. h i = Some (fn, c, sl) \<longrightarrow> (\<exists>sl'. h' i = Some (fn, c, sl') \<and> slot_le sl sl'))"

text \<open>The reservations of the requests with numbers in \<open>K\<close> are left alone.\<close>

definition keeps :: "nat set \<Rightarrow> history \<Rightarrow> history \<Rightarrow> bool" where
  "keeps K h h' \<longleftrightarrow> (\<forall>i fn c t. t \<in> K \<longrightarrow> h i = Some (fn, c, Fresh t) \<longrightarrow> h' i = h i)"

definition obj_ok :: "('a) obj_scheme \<Rightarrow> bool" where
  "obj_ok r \<longleftrightarrow> in_int64 (ob_id r) \<and> safe_filename (ob_filename r) \<and> \<not> temp_name (ob_filename r)
     \<and> obj_key r = key_for (ob_id r) (ob_filename r)
     \<and> (available r \<longrightarrow> ob_storage_key r \<noteq> None \<and> ob_upload r = None)"

definition recorded :: "history \<Rightarrow> ('a) obj_scheme \<Rightarrow> bool" where
  "recorded h r \<longleftrightarrow> (\<exists>c sl. obj_content r = Inr c \<and> h (ob_id r) = Some (ob_filename r, c, sl)
     \<and> (\<forall>u. ob_upload r = Some u \<longrightarrow> sl = Multi u))"

text \<open>
  Bytes that the history allows at a key: those that fit what was declared for the key's object,
  and whatever a multipart upload that is closed has left.
\<close>

fun allowed :: "(content \<Rightarrow> string \<Rightarrow> bool) \<Rightarrow> string set \<Rightarrow> content \<Rightarrow> slot \<Rightarrow> string \<Rightarrow> bool" where
  "allowed fits us c Direct b = fits c b"
| "allowed fits us c (Fresh t) b = False"
| "allowed fits us c (Multi u) b = (u \<notin> us)"

definition holds :: "(content \<Rightarrow> string \<Rightarrow> bool) \<Rightarrow> string set \<Rightarrow> history \<Rightarrow> string \<Rightarrow> string \<Rightarrow> bool" where
  "holds fits us h k b \<longleftrightarrow>
     (\<exists>i fn c sl. k = key_for i fn \<and> h i = Some (fn, c, sl) \<and> allowed fits us c sl b)"

definition has_fit ::
  "(content \<Rightarrow> string \<Rightarrow> bool) \<Rightarrow> ('f \<Rightarrow> string \<rightharpoonup> string) \<Rightarrow> 'f \<Rightarrow> ('a) obj_scheme \<Rightarrow> bool" where
  "has_fit fits stored f r \<longleftrightarrow> (\<exists>c b. obj_content r = Inr c \<and> stored f (obj_key r) = Some b \<and> fits c b)"

definition entry_ok :: "(content \<Rightarrow> bool) \<Rightarrow> string set \<Rightarrow> int \<Rightarrow> string \<Rightarrow> content \<Rightarrow> slot \<Rightarrow> bool" where
  "entry_ok multi us i fn c sl \<longleftrightarrow> object_key (key_for i fn) \<and> validate_content c = None
     \<and> (sl \<noteq> Direct \<longrightarrow> multi c) \<and> (\<forall>u. sl = Multi u \<longrightarrow> u \<in> us)"

text \<open>
  The history has promised a key for a content: it is the key of an object whose bytes arrive in one
  piece, with the size and the SHA-256 that were declared for it.
\<close>

definition declared :: "history \<Rightarrow> string \<Rightarrow> content \<Rightarrow> bool" where
  "declared h k c \<longleftrightarrow> object_key k \<and> (\<exists>i fn c0. k = key_for i fn \<and> h i = Some (fn, c0, Direct)
     \<and> c_size c0 = c_size c \<and> c_sha256 c0 = c_sha256 c)"

definition promised :: "(string \<times> content) set \<Rightarrow> history \<Rightarrow> bool" where
  "promised G h \<longleftrightarrow> (\<forall>(k, c) \<in> G. declared h k c)"

text \<open>The invariant of the two stores and the history, with the promises \<open>G\<close> that were made.\<close>

fun store_inv ::
  "('d \<Rightarrow> int \<rightharpoonup> row) \<Rightarrow> ('d \<Rightarrow> int) \<Rightarrow> ('d \<Rightarrow> bool) \<Rightarrow> ('f \<Rightarrow> string \<rightharpoonup> string) \<Rightarrow> ('f \<Rightarrow> bool) \<Rightarrow>
     (content \<Rightarrow> string \<Rightarrow> bool) \<Rightarrow> ('f \<Rightarrow> string \<Rightarrow> string set) \<Rightarrow> ('f \<Rightarrow> string set) \<Rightarrow> (content \<Rightarrow> bool) \<Rightarrow>
     (string \<times> content) set \<Rightarrow> history \<Rightarrow> 'd \<times> 'f \<Rightarrow> bool" where
  "store_inv V nx ok stored okb fits opn iss multi G h (d, f) \<longleftrightarrow>
     ok d \<and> okb f \<and> (\<forall>i \<in> dom h. i < nx d)
     \<and> (\<forall>i fn c sl. h i = Some (fn, c, sl) \<longrightarrow> entry_ok multi (iss f) i fn c sl)
     \<and> (\<forall>i r. V d i = Some r \<longrightarrow> obj_ok r \<and> recorded h r \<and> (available r \<longrightarrow> live r))
     \<and> (\<forall>k b. object_key k \<longrightarrow> stored f k = Some b \<longrightarrow> holds fits (opn f k) h k b)
     \<and> (\<forall>i r. V d i = Some r \<longrightarrow> available r \<longrightarrow> has_fit fits stored f r)
     \<and> promised G h"

text \<open>
  A row keeps its identity; once expired it stays so, once published it is unchanged; and while
  it is not expired, fitting bytes that have arrived for it stay. What a closed multipart upload
  has left stays or is removed.
\<close>

definition row_step ::
  "(content \<Rightarrow> string \<Rightarrow> bool) \<Rightarrow> ('f \<Rightarrow> string \<rightharpoonup> string) \<Rightarrow> 'f \<Rightarrow> 'f \<Rightarrow> row \<Rightarrow> row \<Rightarrow> bool" where
  "row_step fits stored f f' r r' \<longleftrightarrow>
     ob_prefix r' = ob_prefix r \<and> ob_filename r' = ob_filename r \<and> obj_content r' = obj_content r
     \<and> (\<not> live r \<longrightarrow> \<not> live r') \<and> (available r \<longrightarrow> r' = r)
     \<and> (live r' \<longrightarrow> has_fit fits stored f r \<longrightarrow> has_fit fits stored f' r)"

definition closed_stay ::
  "('f \<Rightarrow> string \<rightharpoonup> string) \<Rightarrow> ('f \<Rightarrow> string \<Rightarrow> string set) \<Rightarrow> history \<Rightarrow> 'f \<Rightarrow> 'f \<Rightarrow> bool" where
  "closed_stay stored opn h f f' \<longleftrightarrow>
     (\<forall>i fn c u. h i = Some (fn, c, Multi u) \<longrightarrow> u \<notin> opn f (key_for i fn) \<longrightarrow>
        stored f' (key_for i fn) = stored f (key_for i fn) \<or> stored f' (key_for i fn) = None)"

fun evolves ::
  "('d \<Rightarrow> int \<rightharpoonup> row) \<Rightarrow> ('f \<Rightarrow> string \<rightharpoonup> string) \<Rightarrow> (content \<Rightarrow> string \<Rightarrow> bool) \<Rightarrow>
     ('f \<Rightarrow> string \<Rightarrow> string set) \<Rightarrow> ('f \<Rightarrow> string set) \<Rightarrow> nat set \<Rightarrow>
     history \<Rightarrow> 'd \<times> 'f \<Rightarrow> history \<Rightarrow> 'd \<times> 'f \<Rightarrow> bool" where
  "evolves V stored fits opn iss K h (d, f) h' (d', f') \<longleftrightarrow>
     history_le h h' \<and> keeps K h h' \<and> uploads_step opn iss f f' \<and> closed_stay stored opn h f f'
     \<and> (\<forall>i \<in> dom h. V d i = None \<longrightarrow> V d' i = None)
     \<and> (\<forall>i r r'. V d i = Some r \<longrightarrow> V d' i = Some r' \<longrightarrow> row_step fits stored f f' r r')"

lemma slot_le_simps [simp]:
  "slot_le s s" "slot_le Direct s \<longleftrightarrow> s = Direct" "slot_le (Multi u) s \<longleftrightarrow> s = Multi u"
  by (auto simp: slot_le_def)

lemma history_le_refl [simp]: "history_le h h"
  by (simp add: history_le_def)

lemma history_le_trans: "history_le h g \<Longrightarrow> history_le g e \<Longrightarrow> history_le h e"
  unfolding history_le_def slot_le_def by (metis slot.distinct(5))

lemma history_leD:
  assumes "history_le h h'" "h i = Some (fn, c, sl)"
  obtains sl' where "h' i = Some (fn, c, sl')" "slot_le sl sl'"
  using assms unfolding history_le_def by blast

lemma history_le_Multi: "history_le h h' \<Longrightarrow> h i = Some (fn, c, Multi u) \<Longrightarrow> h' i = Some (fn, c, Multi u)"
  unfolding history_le_def by fastforce

lemma history_le_Direct: "history_le h h' \<Longrightarrow> h i = Some (fn, c, Direct) \<Longrightarrow> h' i = Some (fn, c, Direct)"
  unfolding history_le_def by fastforce

lemma promised_mono: "history_le h h' \<Longrightarrow> promised G h \<Longrightarrow> promised G h'"
  unfolding promised_def declared_def using history_le_Direct by fast

lemma promised_empty [simp]: "promised {} h"
  by (simp add: promised_def)

lemma promised_Un [simp]: "promised (G \<union> G') h \<longleftrightarrow> promised G h \<and> promised G' h"
  by (auto simp: promised_def)

lemma history_le_dom: "history_le h h' \<Longrightarrow> dom h \<subseteq> dom h'"
  unfolding history_le_def dom_def by fastforce

lemma keeps_refl [simp]: "keeps K h h"
  by (simp add: keeps_def)

lemma keeps_trans: "keeps K h g \<Longrightarrow> keeps K g e \<Longrightarrow> keeps K h e"
  unfolding keeps_def by metis

lemma closed_stay_refl [simp]: "closed_stay stored opn h f f"
  by (simp add: closed_stay_def)

lemma obj_ok_row_obj [simp]: "obj_ok (row_obj r) = obj_ok r"
  by (simp add: obj_ok_def)

lemma recorded_row_obj [simp]: "recorded h (row_obj r) = recorded h r"
  by (simp add: recorded_def)

lemma has_fit_row_obj [simp]: "has_fit fits stored f (row_obj r) = has_fit fits stored f r"
  by (simp add: has_fit_def)

lemma has_fit_cong:
  "obj_key q = obj_key r \<Longrightarrow> obj_content q = obj_content r \<Longrightarrow> has_fit fits stored f q = has_fit fits stored f r"
  by (simp add: has_fit_def)

lemma obj_ok_key: "obj_ok r \<Longrightarrow> object_key (obj_key r)"
  by (auto simp: obj_ok_def intro: object_keyI)

lemma obj_ok_key_for: "obj_ok r \<Longrightarrow> obj_key r = key_for (ob_id r) (ob_filename r)"
  by (simp add: obj_ok_def)

lemma recorded_mono: "history_le h h' \<Longrightarrow> recorded h r \<Longrightarrow> recorded h' r"
  unfolding recorded_def by (metis history_leD slot_le_simps(3))

lemma recorded_dom: "recorded h r \<Longrightarrow> ob_id r \<in> dom h"
  by (auto simp: recorded_def)

lemma recordedE:
  assumes "recorded h r"
  obtains c sl where "obj_content r = Inr c" "h (ob_id r) = Some (ob_filename r, c, sl)"
    "\<And>u. ob_upload r = Some u \<Longrightarrow> sl = Multi u"
  using assms by (auto simp: recorded_def)

text \<open>What the history allows at the key of one of its entries.\<close>

lemma holds_entry: "h i = Some (fn, c, sl) \<Longrightarrow> holds fits us h (key_for i fn) b \<longleftrightarrow> allowed fits us c sl b"
  unfolding holds_def using key_for_inj by (metis (no_types, lifting) Pair_inject option.inject)

lemma holds_recorded:
  assumes "obj_ok r" "obj_content r = Inr c" "h (ob_id r) = Some (ob_filename r, c, sl)"
  shows "holds fits us h (obj_key r) b \<longleftrightarrow> allowed fits us c sl b"
  using holds_entry [of h "ob_id r", OF assms(3)] obj_ok_key_for [OF assms(1)] by simp

subsection \<open>The service over two stores\<close>

text \<open>
  The request that runs has the number \<open>tk\<close>; the others leave its reservations alone (\<open>K'\<close>), as it
  leaves alone those of the numbers in \<open>K\<close>.
\<close>

locale bloby_stores =
  registry_fresh "sv_registry S" V ok nx +
  multipart_contract "sv_backend S" "sv_hashes S" stored okb fits opn iss multi
  for S :: "('d, 'f) service" and V :: "'d \<Rightarrow> int \<rightharpoonup> row" and ok :: "'d \<Rightarrow> bool" and nx :: "'d \<Rightarrow> int"
    and stored :: "'f \<Rightarrow> string \<rightharpoonup> string" and okb :: "'f \<Rightarrow> bool" and fits :: "content \<Rightarrow> string \<Rightarrow> bool"
    and opn :: "'f \<Rightarrow> string \<Rightarrow> string set" and iss :: "'f \<Rightarrow> string set" and multi :: "content \<Rightarrow> bool" +
  fixes G :: "(string \<times> content) set" and K K' :: "nat set" and tk :: nat
  assumes own: "tk \<notin> K" and kept: "K \<subseteq> K'" and guarded: "multi c \<Longrightarrow> tk \<in> K'"
begin

abbreviation "Inv \<equiv> store_inv V nx ok stored okb fits opn iss multi G"
abbreviation "Evs \<equiv> evolves V stored fits opn iss"
abbreviation "Rel \<equiv> Evs K'"
abbreviation "Evo \<equiv> Evs K"

lemma inv_row: "Inv h (d, f) \<Longrightarrow> V d i = Some r \<Longrightarrow> obj_ok r \<and> recorded h r \<and> ob_id r = i \<and> i \<in> dom h"
  using view_id recorded_dom by fastforce

lemma inv_entry: "Inv h (d, f) \<Longrightarrow> h i = Some (fn, c, sl) \<Longrightarrow> entry_ok multi (iss f) i fn c sl"
  by simp

lemma inv_holds: "Inv h (d, f) \<Longrightarrow> object_key k \<Longrightarrow> stored f k = Some b \<Longrightarrow> holds fits (opn f k) h k b"
  by simp

lemma row_step_refl: "row_step fits stored f f r r"
  by (simp add: row_step_def)

lemma row_step_trans:
  assumes "row_step fits stored f g r q" "row_step fits stored g e q p" "obj_key q = obj_key r"
  shows "row_step fits stored f e r p"
  using assms has_fit_cong [of q r] unfolding row_step_def by metis

lemma evo_refl: "Evs L h s h s"
  by (cases s) (simp add: row_step_refl)

lemma evo_key:
  assumes "Inv h (d, f)" "Inv h' (d', f')" "Evs L h (d, f) h' (d', f')" "V d i = Some r" "V d' i = Some r'"
  shows "obj_key r' = obj_key r"
proof -
  from assms(3-5) have "row_step fits stored f f' r r'" by simp
  with inv_row [OF assms(1,4)] inv_row [OF assms(2,5)] show ?thesis
    by (simp add: row_step_def obj_ok_def)
qed

lemma closed_step:
  assumes "uploads_step opn iss f f'" "Inv h (d, f)" "h i = Some (fn, c, Multi u)" "u \<notin> opn f k"
  shows "u \<notin> opn f' k"
  using assms inv_entry [OF assms(2,3)] unfolding uploads_step_def entry_ok_def by blast

lemma closed_stay_trans:
  assumes I: "Inv h (d, f)" and le: "history_le h h1" and up: "uploads_step opn iss f f1"
    and st: "closed_stay stored opn h f f1" "closed_stay stored opn h1 f1 f2"
  shows "closed_stay stored opn h f f2"
  unfolding closed_stay_def
proof (intro allI impI)
  fix i fn c u
  assume h: "h i = Some (fn, c, Multi u)" and cl: "u \<notin> opn f (key_for i fn)"
  have "u \<notin> opn f1 (key_for i fn)" by (rule closed_step [OF up I h cl])
  moreover have "h1 i = Some (fn, c, Multi u)" by (rule history_le_Multi [OF le h])
  ultimately show "stored f2 (key_for i fn) = stored f (key_for i fn) \<or> stored f2 (key_for i fn) = None"
    using h cl st unfolding closed_stay_def by metis
qed

lemma evo_trans:
  assumes I: "Inv h s" "Inv h1 s1" "Inv h2 s2" and E: "Evs L h s h1 s1" "Evs L h1 s1 h2 s2"
  shows "Evs L h s h2 s2"
proof -
  obtain d f d1 f1 d2 f2 where s: "s = (d, f)" "s1 = (d1, f1)" "s2 = (d2, f2)"
    by (metis surj_pair)
  have le: "history_le h h1" "history_le h1 h2" using E s by simp_all
  note dom = history_le_dom [OF le(1)]
  have gone: "V d2 i = None" if "i \<in> dom h" "V d1 i = None" for i
    using that dom E(2) s by auto
  have "V d2 i = None" if "i \<in> dom h" "V d i = None" for i
    using that E(1) s gone by simp
  moreover have "row_step fits stored f f2 r p" if r: "V d i = Some r" and p: "V d2 i = Some p" for i r p
  proof -
    have "i \<in> dom h" using inv_row [OF I(1) [unfolded s] r] by blast
    with gone p obtain q where q: "V d1 i = Some q" by (cases "V d1 i") auto
    from E s r q p have "row_step fits stored f f1 r q" "row_step fits stored f1 f2 q p" by simp_all
    moreover have "obj_key q = obj_key r" using evo_key [OF I(1,2) [unfolded s] E(1) [unfolded s] r q] .
    ultimately show ?thesis by (rule row_step_trans)
  qed
  moreover have "closed_stay stored opn h f f2"
    by (rule closed_stay_trans [where ?f1.0 = f1, OF I(1) [unfolded s(1)] le(1)]) (use E s in simp_all)
  moreover have "keeps L h h2" "uploads_step opn iss f f2"
    using E s keeps_trans uploads_trans by auto
  ultimately show ?thesis using history_le_trans [OF le] by (simp add: s)
qed

lemma evo_fewer: "L \<subseteq> L' \<Longrightarrow> Evs L' h s h' s' \<Longrightarrow> Evs L h s h' s'"
  by (cases s; cases s') (auto simp: keeps_def)

end

sublocale bloby_stores \<subseteq> rely "store_inv V nx ok stored okb fits opn iss multi G"
    "evolves V stored fits opn iss K'" "evolves V stored fits opn iss K"
  by unfold_locales (auto intro: evo_refl evo_trans evo_fewer [OF kept] simp del: store_inv.simps evolves.simps)

subsection \<open>Changes of one store\<close>

definition row_change ::
  "(content \<Rightarrow> string \<Rightarrow> bool) \<Rightarrow> ('f \<Rightarrow> string \<rightharpoonup> string) \<Rightarrow> 'f \<Rightarrow> row \<Rightarrow> row \<Rightarrow> bool" where
  "row_change fits stored f r r' \<longleftrightarrow>
     r' = r \<or>
     (\<not> available r \<and> ob_id r' = ob_id r \<and> ob_prefix r' = ob_prefix r \<and> ob_filename r' = ob_filename r
      \<and> obj_content r' = obj_content r \<and> obj_key r' = obj_key r \<and> (\<not> live r \<longrightarrow> \<not> live r')
      \<and> (ob_upload r' = ob_upload r \<or> ob_upload r' = None)
      \<and> (available r' \<longrightarrow> live r' \<and> ob_storage_key r' \<noteq> None \<and> ob_upload r' = None \<and> has_fit fits stored f r))"

text \<open>No object that can still be published or read owns the key, nor ever will.\<close>

definition unowned :: "('d \<Rightarrow> int \<rightharpoonup> row) \<Rightarrow> string \<Rightarrow> (history, 'd, 'f) assertion" where
  "unowned V k s h \<longleftrightarrow>
     (object_key k \<longrightarrow> (\<exists>i fn fn' c sl. k = key_for i fn \<and> h i = Some (fn', c, sl)
        \<and> (fn' \<noteq> fn \<or> (\<forall>r. V (fst s) i = Some r \<longrightarrow> \<not> live r))))"

definition knows :: "obj \<Rightarrow> (history, 'd, 'f) assertion" where
  "knows b s h \<longleftrightarrow> obj_ok b \<and> recorded h b"

definition slotted :: "obj \<Rightarrow> slot \<Rightarrow> (history, 'd, 'f) assertion" where
  "slotted b sl s h \<longleftrightarrow> (\<exists>c. h (ob_id b) = Some (ob_filename b, c, sl))"

definition arrived ::
  "('d \<Rightarrow> int \<rightharpoonup> row) \<Rightarrow> (content \<Rightarrow> string \<Rightarrow> bool) \<Rightarrow> ('f \<Rightarrow> string \<rightharpoonup> string) \<Rightarrow> obj \<Rightarrow>
     (history, 'd, 'f) assertion" where
  "arrived V fits stored b s h \<longleftrightarrow>
     (\<forall>r. V (fst s) (ob_id b) = Some r \<longrightarrow> live r \<longrightarrow> has_fit fits stored (snd s) b)"

text \<open>At the key of the object there are bytes that fit, or none any more.\<close>

definition settled ::
  "(content \<Rightarrow> string \<Rightarrow> bool) \<Rightarrow> ('f \<Rightarrow> string \<rightharpoonup> string) \<Rightarrow> ('f \<Rightarrow> string \<Rightarrow> string set) \<Rightarrow> obj \<Rightarrow>
     (history, 'd, 'f) assertion" where
  "settled fits stored opn b s h \<longleftrightarrow>
     (\<exists>c sl. obj_content b = Inr c \<and> h (ob_id b) = Some (ob_filename b, c, sl)
        \<and> (sl = Direct \<or> (\<exists>u. sl = Multi u \<and> u \<notin> opn (snd s) (obj_key b)
             \<and> (\<forall>x. stored (snd s) (obj_key b) = Some x \<longrightarrow> fits c x))))"

context bloby_stores
begin

lemma inv_bound:
  assumes "Inv h (d, f)" "nx d \<le> nx d'"
  shows "\<forall>i \<in> dom h. i < nx d'"
proof -
  have "\<forall>i \<in> dom h. i < nx d" using assms(1) by simp
  with assms(2) show ?thesis by (metis order_less_le_trans)
qed

lemma row_change_ok:
  assumes "row_change fits stored f r r'" "obj_ok r" "recorded h r" "available r \<longrightarrow> live r \<and> has_fit fits stored f r"
  shows "obj_ok r'" "recorded h r'" "available r' \<longrightarrow> live r'" "available r' \<longrightarrow> has_fit fits stored f r'"
proof -
  show "available r' \<longrightarrow> live r'" using assms(1,4) by (auto simp: row_change_def)
  show "obj_ok r'" using assms(1,2) unfolding row_change_def obj_ok_def by metis
  show "recorded h r'" using assms(1,3) unfolding row_change_def recorded_def by (metis option.distinct(1))
  show "available r' \<longrightarrow> has_fit fits stored f r'"
    using assms(1,4) has_fit_cong [of r' r] unfolding row_change_def by metis
qed

lemma row_change_step:
  assumes "row_change fits stored f r r'"
  shows "row_step fits stored f f r r'"
  using assms has_fit_cong [of r' r] by (auto simp: row_change_def row_step_def)

lemma db_change:
  assumes I: "Inv h (d, f)" and d': "ok d'" "nx d \<le> nx d'"
    and rows: "\<And>i r'. V d' i = Some r' \<Longrightarrow> \<exists>r. V d i = Some r \<and> row_change fits stored f r r'"
  shows "Inv h (d', f) \<and> Evs L h (d, f) h (d', f)"
proof -
  have row: "obj_ok r' \<and> recorded h r' \<and> (available r' \<longrightarrow> live r') \<and> (available r' \<longrightarrow> has_fit fits stored f r')"
    if r': "V d' i = Some r'" for i r'
  proof -
    from rows [OF r'] obtain r where r: "V d i = Some r" and c: "row_change fits stored f r r'" by blast
    from I r have "obj_ok r" "recorded h r" "available r \<longrightarrow> live r \<and> has_fit fits stored f r" by simp_all
    from row_change_ok [OF c this] show ?thesis by blast
  qed
  have "row_step fits stored f f r r'" if "V d i = Some r" "V d' i = Some r'" for i r r'
    using rows [OF that(2)] that(1) row_change_step by fastforce
  moreover have "V d' i = None" if "V d i = None" for i
    using rows [of i] that by (cases "V d' i") auto
  ultimately show ?thesis using I d'(1) row inv_bound [OF I d'(2)] by simp
qed

lemma db_same: "Inv h (d, f) \<Longrightarrow> ok d' \<Longrightarrow> nx d \<le> nx d' \<Longrightarrow> V d' = V d \<Longrightarrow> Inv h (d', f) \<and> Evs L h (d, f) h (d', f)"
  by (rule db_change) (auto simp: row_change_def)

lemma db_create:
  assumes I: "Inv h (d, f)" and d': "ok d'" "nx d \<le> nx d'"
    and cr: "v_created p fn c (V d) r (V d')" and new: "nx d \<le> ob_id r"
    and fn: "safe_filename fn" "\<not> temp_name fn" and c: "validate_content c = None"
    and sl: "sl = Direct \<or> sl = Fresh tk \<and> multi c" and h': "h' = h(ob_id r \<mapsto> (fn, c, sl))"
  shows "Inv h' (d', f) \<and> Evs L h (d, f) h' (d', f)"
    and "obj_ok r \<and> recorded h' r \<and> obj_content r = Inr c"
proof -
  have cont: "obj_content r = Inr c" using cr by (simp add: v_created_def obj_content_def)
  have pend: "pending r" "\<not> available r" and V': "V d' = (V d)(ob_id r \<mapsto> r)"
    using cr pending_not_available by (auto simp: v_created_def)
  have r: "obj_ok r \<and> recorded h' r"
    using cr cont fn pend by (simp add: v_created_def obj_ok_def recorded_def obj_key_pending h')
  have old: "\<forall>i \<in> dom h. i < nx d" using I by simp
  with new have fresh: "ob_id r \<notin> dom h" by (metis linorder_not_less)
  then have le: "history_le h h'" by (auto simp: history_le_def h')
  have keep: "h i = Some e \<Longrightarrow> h' i = Some e" for i e using fresh by (auto simp: h')
  have bound: "i < nx d'" if "i \<in> dom h'" for i
  proof (cases "i = ob_id r")
    case True
    with view_bound [OF d'(1), of i r] V' show ?thesis by simp
  next
    case False
    with that have "i \<in> dom h" by (simp add: h')
    with inv_bound [OF I d'(2)] show ?thesis by blast
  qed
  have rows: "obj_ok q \<and> recorded h' q \<and> (available q \<longrightarrow> live q) \<and> (available q \<longrightarrow> has_fit fits stored f q)"
    if "V d' i = Some q" for i q
  proof (cases "i = ob_id r")
    case True
    with that V' r pend show ?thesis by simp
  next
    case False
    with that V' have "V d i = Some q" by simp
    with I recorded_mono [OF le, of q] show ?thesis by simp
  qed
  have entry: "entry_ok multi (iss f) i gn e s" if "h' i = Some (gn, e, s)" for i gn e s
  proof (cases "i = ob_id r")
    case True
    with that r c sl cr show ?thesis
      using obj_ok_key [of r] by (auto simp: h' entry_ok_def obj_ok_def v_created_def)
  next
    case False
    with that I show ?thesis by (simp add: h')
  qed
  have "holds fits (opn f k) h' k b" if "object_key k" "stored f k = Some b" for k b
    using inv_holds [OF I that] keep unfolding holds_def by blast
  moreover have "promised G h'" using promised_mono [OF le] I by simp
  ultimately have "Inv h' (d', f)" using I d' bound rows entry by simp
  moreover have "row_step fits stored f f q q'" if "V d i = Some q" "V d' i = Some q'" for i q q'
    using that V' cr row_step_refl [of f] by (auto simp: v_created_def split: if_splits)
  moreover have "V d' i = None" if "i \<in> dom h" "V d i = None" for i
    using that V' fresh by auto
  moreover have "keeps L h h'" using fresh by (auto simp: keeps_def h')
  ultimately show "Inv h' (d', f) \<and> Evs L h (d, f) h' (d', f)" using le by simp
  show "obj_ok r \<and> recorded h' r \<and> obj_content r = Inr c" using r cont by blast
qed

text \<open>Nothing is stored for an object that waits for its multipart upload.\<close>

lemma fresh_missing:
  assumes I: "Inv h (d, f)" and h: "h i = Some (fn, c, Fresh n)"
  shows "stored f (key_for i fn) = None"
proof (rule ccontr)
  assume "stored f (key_for i fn) \<noteq> None"
  then obtain b where b: "stored f (key_for i fn) = Some b" by blast
  have "object_key (key_for i fn)" using inv_entry [OF I h] by (simp add: entry_ok_def)
  from inv_holds [OF I this b] holds_entry [of h i, OF h] show False by simp
qed

lemma fresh_pending:
  assumes I: "Inv h (d, f)" and h: "h i = Some (fn, c, Fresh n)" and q: "V d i = Some q"
  shows "\<not> available q" "ob_upload q = None" "obj_key q = key_for i fn"
proof -
  have r: "obj_ok q" "recorded h q" "ob_id q = i" using inv_row [OF I q] by auto
  show key: "obj_key q = key_for i fn" using r h by (auto simp: recorded_def obj_ok_def)
  show "ob_upload q = None" using r h by (cases "ob_upload q") (auto simp: recorded_def)
  show "\<not> available q"
  proof
    assume "available q"
    with I q have "has_fit fits stored f q" by simp
    with fresh_missing [OF I h] show False by (simp add: has_fit_def key)
  qed
qed

text \<open>An upload is recorded for a reserved object, in the history whether or not the row shows it.\<close>

lemma db_record:
  assumes I: "Inv h (d, f)" and d': "ok d'" "nx d \<le> nx d'"
    and h: "h i = Some (fn, c, Fresh tk)" and u: "u \<in> iss f" and L: "tk \<notin> L"
    and row: "V d' = V d \<or> v_upload i (\<lambda>a b. a = None \<and> b = Some u) (V d) (V d')"
  shows "Inv (h(i \<mapsto> (fn, c, Multi u))) (d', f) \<and> Evs L h (d, f) (h(i \<mapsto> (fn, c, Multi u))) (d', f)"
proof -
  let ?h = "h(i \<mapsto> (fn, c, Multi u))"
  have le: "history_le h ?h" using h by (auto simp: history_le_def slot_le_def)
  have entry: "entry_ok multi (iss f) j gn e s" if "?h j = Some (gn, e, s)" for j gn e s
    using that inv_entry [OF I h] inv_entry [OF I, of j] u by (auto simp: entry_ok_def split: if_splits)
  have hold: "holds fits (opn f k) ?h k b" if k: "object_key k" "stored f k = Some b" for k b
  proof -
    from inv_holds [OF I k] obtain j gn e s where j: "k = key_for j gn" "h j = Some (gn, e, s)"
      "allowed fits (opn f k) e s b"
      by (auto simp: holds_def)
    have "j \<noteq> i" using j h by (auto split: slot.splits)
    then have "?h j = Some (gn, e, s)" using j(2) by simp
    from holds_entry [of ?h j, OF this] j show ?thesis by simp
  qed
  have rows: "\<exists>r. V d j = Some r \<and> row_step fits stored f f r r' \<and> obj_ok r' \<and> recorded ?h r'
      \<and> (available r' \<longrightarrow> live r') \<and> (available r' \<longrightarrow> has_fit fits stored f r')"
    if r': "V d' j = Some r'" for j r'
  proof (cases "V d j = Some r'")
    case True
    with I recorded_mono [OF le, of r'] row_step_refl show ?thesis by simp
  next
    case False
    with row r' obtain q n where q: "V d i = Some q" "live q" "j = i" "r' = q\<lparr>ob_upload := Some u, ob_updated := n\<rparr>"
      by (auto simp: v_upload_def split: if_splits)
    note p = fresh_pending [OF I h q(1)]
    have s: "obj_key r' = obj_key q" "obj_content r' = obj_content q" "live r'" "\<not> available r'"
      using q p(1) by (simp_all add: obj_key_def obj_content_def live_def available_def split: option.split)
    have o: "obj_ok q" "recorded h q" "ob_id q = i" using inv_row [OF I q(1)] by auto
    have "obj_ok r'" using o(1) s p(1) q(4) by (simp add: obj_ok_def)
    moreover have "recorded ?h r'" using o s(2) h q(4) by (auto simp: recorded_def)
    moreover have "row_step fits stored f f q r'"
      using s p(1) q(2,4) has_fit_cong [of r' q] by (simp add: row_step_def)
    ultimately show ?thesis using q(1,3) s by blast
  qed
  have "V d' j = None" if "V d j = None" for j using rows [of j] that by (cases "V d' j") auto
  moreover have "row_step fits stored f f r r'" if "V d j = Some r" "V d' j = Some r'" for j r r'
    using rows [OF that(2)] that(1) by auto
  moreover have "keeps L h ?h" using h L by (auto simp: keeps_def)
  moreover have "Inv ?h (d', f)"
  proof -
    have "\<forall>j \<in> dom ?h. j < nx d'" using inv_bound [OF I d'(2)] h by (auto simp: dom_def)
    moreover have "promised G ?h" using promised_mono [OF le] I by simp
    ultimately show ?thesis using I d'(1) entry hold rows by (simp del: fun_upd_apply) (metis (no_types))
  qed
  ultimately show ?thesis using le by simp
qed

lemma unowned_row:
  assumes "unowned V k (d, f) h" "V d i = Some r" "obj_ok r" "recorded h r" "obj_key r = k" "ob_id r = i"
  shows "\<not> live r"
proof -
  have "object_key k" using assms obj_ok_key by metis
  with assms(1) obtain j fn fn' c sl where k: "k = key_for j fn" "h j = Some (fn', c, sl)"
    "fn' \<noteq> fn \<or> (\<forall>r. V d j = Some r \<longrightarrow> \<not> live r)"
    by (auto simp: unowned_def)
  have "key_for (ob_id r) (ob_filename r) = key_for j fn" using assms(3,5) k(1) by (simp add: obj_ok_def)
  from key_for_inj [OF this] assms(2,4,6) k(2,3) show ?thesis by (auto simp: recorded_def)
qed

text \<open>
  What may happen at a key: nothing, fitting bytes for an object whose bytes arrive in one piece,
  the completion of an open upload, or the removal of what nobody owns.
\<close>

definition key_step :: "'d \<Rightarrow> history \<Rightarrow> 'f \<Rightarrow> 'f \<Rightarrow> string \<Rightarrow> bool" where
  "key_step d h f f' k \<longleftrightarrow> stored f' k = stored f k
     \<or> (\<exists>i fn c b. k = key_for i fn \<and> h i = Some (fn, c, Direct) \<and> stored f' k = Some b \<and> fits c b)
     \<or> (\<exists>i fn c u. k = key_for i fn \<and> h i = Some (fn, c, Multi u) \<and> u \<in> opn f k \<and> u \<notin> opn f' k)
     \<or> stored f' k = None \<and> unowned V k (d, f) h"

lemma key_step_holds:
  assumes I: "Inv h (d, f)" and up: "uploads_step opn iss f f'" and s: "key_step d h f f' k"
    and k: "object_key k" "stored f' k = Some b"
  shows "holds fits (opn f' k) h k b"
proof -
  consider "stored f' k = stored f k"
    | i fn c where "k = key_for i fn" "h i = Some (fn, c, Direct)" "fits c b"
    | i fn c u where "k = key_for i fn" "h i = Some (fn, c, Multi u)" "u \<notin> opn f' k"
    using s k(2) unfolding key_step_def by auto
  then show ?thesis
  proof cases
    case 1
    with k have "holds fits (opn f k) h k b" using inv_holds [OF I] by simp
    then obtain i fn c sl where e: "k = key_for i fn" "h i = Some (fn, c, sl)"
      "allowed fits (opn f k) c sl b" unfolding holds_def by blast
    then have "allowed fits (opn f' k) c sl b" using closed_step [OF up I] by (cases sl) auto
    with e show ?thesis unfolding holds_def by blast
  next
    case (2 i fn c)
    then show ?thesis by (simp add: holds_entry)
  next
    case (3 i fn c u)
    then show ?thesis by (simp add: holds_entry)
  qed
qed

lemma key_step_fit:
  assumes I: "Inv h (d, f)" and s: "key_step d h f f' (obj_key r)"
    and r: "V d i = Some r" "live r" "has_fit fits stored f r"
  shows "has_fit fits stored f' r"
proof -
  have o: "obj_ok r" "recorded h r" "ob_id r = i" using inv_row [OF I r(1)] by auto
  from o(2) obtain c sl where c: "obj_content r = Inr c" "h i = Some (ob_filename r, c, sl)"
    using o(3) by (auto simp: recorded_def)
  have key: "obj_key r = key_for i (ob_filename r)" using obj_ok_key_for [OF o(1)] o(3) by simp
  from r(3) c obtain b where b: "stored f (obj_key r) = Some b" "fits c b" by (auto simp: has_fit_def)
  have al: "allowed fits (opn f (obj_key r)) c sl b"
    using inv_holds [OF I obj_ok_key [OF o(1)] b(1)] holds_entry [of h i, OF c(2)] key by simp
  have entry: "j = i \<and> e = c \<and> s = sl" if "obj_key r = key_for j gn" "h j = Some (gn, e, s)" for j gn e s
  proof -
    have "key_for j gn = key_for i (ob_filename r)" by (rule trans [OF that(1) [symmetric] key])
    from key_for_inj [OF this] have "j = i" by blast
    with that(2) c(2) show ?thesis by simp
  qed
  have "\<not> unowned V (obj_key r) (d, f) h"
  proof
    assume "unowned V (obj_key r) (d, f) h"
    from unowned_row [OF this r(1) o(1,2) refl o(3)] r(2) show False by simp
  qed
  with s have "stored f' (obj_key r) = stored f (obj_key r)
      \<or> (\<exists>j gn e x. obj_key r = key_for j gn \<and> h j = Some (gn, e, Direct) \<and> stored f' (obj_key r) = Some x \<and> fits e x)
      \<or> (\<exists>j gn e u. obj_key r = key_for j gn \<and> h j = Some (gn, e, Multi u) \<and> u \<in> opn f (obj_key r))"
    unfolding key_step_def by blast
  then show ?thesis
  proof (elim disjE exE conjE)
    assume "stored f' (obj_key r) = stored f (obj_key r)"
    with b c show ?thesis by (simp add: has_fit_def)
  next
    fix j gn e x
    assume x: "obj_key r = key_for j gn" "h j = Some (gn, e, Direct)" "stored f' (obj_key r) = Some x" "fits e x"
    have "e = c" using entry [OF x(1,2)] by blast
    with x c show ?thesis by (simp add: has_fit_def)
  next
    fix j gn e u
    assume x: "obj_key r = key_for j gn" "h j = Some (gn, e, Multi u)" "u \<in> opn f (obj_key r)"
    have "sl = Multi u" using entry [OF x(1,2)] by blast
    with al x(3) show ?thesis by simp
  qed
qed

lemma be_change:
  assumes I: "Inv h (d, f)" and f': "okb f'" and up: "uploads_step opn iss f f'"
    and keys: "\<And>k. object_key k \<Longrightarrow> key_step d h f f' k"
  shows "Inv h (d, f') \<and> Evs L h (d, f) h (d, f')"
proof -
  have stay: "has_fit fits stored f' r" if "V d i = Some r" "live r" "has_fit fits stored f r" for i r
    using key_step_fit [OF I keys [OF obj_ok_key] that] inv_row [OF I that(1)] by blast
  have "row_step fits stored f f' r r" if "V d i = Some r" for i r
    using stay [OF that] by (simp add: row_step_def)
  moreover have "\<forall>k b. object_key k \<longrightarrow> stored f' k = Some b \<longrightarrow> holds fits (opn f' k) h k b"
    using key_step_holds [OF I up keys] by blast
  moreover have "closed_stay stored opn h f f'"
    unfolding closed_stay_def
  proof (intro allI impI)
    fix i fn c u
    assume h: "h i = Some (fn, c, Multi u)" and cl: "u \<notin> opn f (key_for i fn)"
    have "object_key (key_for i fn)" using inv_entry [OF I h] by (simp add: entry_ok_def)
    from keys [OF this] show "stored f' (key_for i fn) = stored f (key_for i fn) \<or> stored f' (key_for i fn) = None"
      unfolding key_step_def using h cl key_for_inj [of _ _ i fn] by fastforce
  qed
  moreover have "entry_ok multi (iss f') i fn c sl" if "h i = Some (fn, c, sl)" for i fn c sl
    using inv_entry [OF I that] up by (auto simp: entry_ok_def uploads_step_def)
  ultimately show ?thesis using I f' stay up by simp
qed

lemma be_same:
  "Inv h (d, f) \<Longrightarrow> okb f' \<Longrightarrow> uploads_step opn iss f f' \<Longrightarrow> stored f' = stored f \<Longrightarrow>
     Inv h (d, f') \<and> Evs L h (d, f) h (d, f')"
  by (rule be_change) (auto simp: key_step_def)

subsection \<open>Stable facts\<close>

lemma stableI:
  assumes "\<And>h d f h' d' f'. Inv h (d, f) \<Longrightarrow> Inv h' (d', f') \<Longrightarrow> Evs L h (d, f) h' (d', f') \<Longrightarrow> P (d, f) h \<Longrightarrow> P (d', f') h'"
  shows "stable Inv (Evs L) P"
  unfolding stable_def
proof (intro allI impI)
  fix h h' and s s' :: "'d \<times> 'f"
  obtain d f d' f' where s: "s = (d, f)" "s' = (d', f')" by (metis surj_pair)
  assume "Inv h s \<and> Inv h' s' \<and> Evs L h s h' s' \<and> P s h"
  then show "P s' h'" using assms unfolding s by blast
qed

lemma evo_history: "Evs L h (d, f) h' (d', f') \<Longrightarrow> history_le h h'"
  by simp

lemma stable_knows: "stable Inv (Evs L) (knows b)"
  by (rule stableI) (auto simp: knows_def intro: recorded_mono)

lemma stable_direct: "stable Inv (Evs L) (slotted b Direct)"
  by (rule stableI) (auto simp: slotted_def dest: history_le_Direct)

lemma stable_reserved: "stable Inv Rel (slotted b (Fresh tk))"
proof (rule stableI)
  fix h h' d f d' f'
  assume I: "Inv h (d, f)" and E: "Rel h (d, f) h' (d', f')" and s: "slotted b (Fresh tk) (d, f) h"
  then obtain c where c: "h (ob_id b) = Some (ob_filename b, c, Fresh tk)" by (auto simp: slotted_def)
  have "multi c" using inv_entry [OF I c] by (simp add: entry_ok_def)
  then have "tk \<in> K'" by (rule guarded)
  moreover have "keeps K' h h'" using E by simp
  ultimately show "slotted b (Fresh tk) (d', f') h'" using c by (auto simp: keeps_def slotted_def)
qed

lemma stable_issued: "stable Inv (Evs L) (\<lambda>s h. u \<in> iss (snd s))"
  by (rule stableI) (auto simp: uploads_step_def)

text \<open>What remains of a row in later stores.\<close>

lemma evo_row:
  assumes "Inv h (d, f)" "Inv h' (d', f')" "Evs L h (d, f) h' (d', f')" "i \<in> dom h" "V d' i = Some r'"
  obtains r where "V d i = Some r" "row_step fits stored f f' r r'" "obj_key r' = obj_key r"
proof -
  from assms(3-5) obtain r where r: "V d i = Some r" by (cases "V d i") auto
  with assms(3,5) have "row_step fits stored f f' r r'" by simp
  with r evo_key [OF assms(1-3) r assms(5)] that show thesis by blast
qed

lemma stable_unowned: "stable Inv (Evs L) (unowned V k)"
proof (rule stableI)
  fix h h' d f d' f'
  assume I: "Inv h (d, f)" "Inv h' (d', f')" "Evs L h (d, f) h' (d', f')" and un: "unowned V k (d, f) h"
  note le = evo_history [OF I(3)]
  show "unowned V k (d', f') h'"
    unfolding unowned_def
  proof
    assume "object_key k"
    with un obtain i fn fn' c sl where k: "k = key_for i fn" "h i = Some (fn', c, sl)"
      "fn' \<noteq> fn \<or> (\<forall>r. V d i = Some r \<longrightarrow> \<not> live r)"
      by (auto simp: unowned_def)
    obtain sl' where "h' i = Some (fn', c, sl')" "slot_le sl sl'" by (rule history_leD [of h h' i, OF le k(2)])
    moreover have "\<not> live r'" if dead: "\<forall>r. V d i = Some r \<longrightarrow> \<not> live r" and r': "V d' i = Some r'" for r'
    proof -
      have i: "i \<in> dom h" using k(2) by blast
      obtain r where "V d i = Some r" "row_step fits stored f f' r r'" "obj_key r' = obj_key r"
        using evo_row [OF I i r'] .
      with dead show ?thesis by (auto simp: row_step_def)
    qed
    ultimately have "k = key_for i fn \<and> h' i = Some (fn', c, sl') \<and>
        (fn' \<noteq> fn \<or> (\<forall>r. V (fst (d', f')) i = Some r \<longrightarrow> \<not> live r))"
      using k(1,3) by (metis fst_conv)
    then show "\<exists>i fn fn' c sl. k = key_for i fn \<and> h' i = Some (fn', c, sl) \<and>
        (fn' \<noteq> fn \<or> (\<forall>r. V (fst (d', f')) i = Some r \<longrightarrow> \<not> live r))" by blast
  qed
qed

lemma stable_arrived: "stable Inv (Evs L) (\<lambda>s h. knows b s h \<and> arrived V fits stored b s h)"
proof (rule stableI)
  fix h h' d f d' f'
  assume I: "Inv h (d, f)" "Inv h' (d', f')" "Evs L h (d, f) h' (d', f')"
    and a: "knows b (d, f) h \<and> arrived V fits stored b (d, f) h"
  then have b: "obj_ok b" "recorded h b" by (simp_all add: knows_def)
  have "has_fit fits stored f' b" if r': "V d' (ob_id b) = Some r'" "live r'" for r'
  proof -
    obtain r where r: "V d (ob_id b) = Some r" "row_step fits stored f f' r r'" "obj_key r' = obj_key r"
      using evo_row [OF I recorded_dom [OF b(2)] r'(1)] .
    have ok: "obj_ok r" "recorded h r" "ob_id r = ob_id b" using inv_row [OF I(1) r(1)] by auto
    then have "ob_filename r = ob_filename b" "obj_content r = obj_content b" using b(2) by (auto simp: recorded_def)
    with ok b(1) have cong: "obj_key r = obj_key b" "obj_content r = obj_content b" by (simp_all add: obj_ok_def)
    have "live r" using r(2) r'(2) by (auto simp: row_step_def)
    with a r(1) have "has_fit fits stored f r"
      using has_fit_cong [OF cong, of fits stored f] by (simp add: arrived_def)
    with r(2) r'(2) have "has_fit fits stored f' r" by (simp add: row_step_def)
    then show ?thesis using has_fit_cong [OF cong, of fits stored f'] by simp
  qed
  moreover have "knows b (d', f') h'" using stable_knows [of L b] I a unfolding stable_def by blast
  ultimately show "knows b (d', f') h' \<and> arrived V fits stored b (d', f') h'" by (simp add: arrived_def)
qed

lemma stable_settled: "stable Inv (Evs L) (\<lambda>s h. knows b s h \<and> settled fits stored opn b s h)"
proof (rule stableI)
  fix h h' d f d' f'
  assume I: "Inv h (d, f)" "Inv h' (d', f')" "Evs L h (d, f) h' (d', f')"
    and a: "knows b (d, f) h \<and> settled fits stored opn b (d, f) h"
  note le = evo_history [OF I(3)]
  have up: "uploads_step opn iss f f'" "closed_stay stored opn h f f'" using I(3) by simp_all
  have key: "obj_key b = key_for (ob_id b) (ob_filename b)" using a by (simp add: knows_def obj_ok_def)
  from a consider (one) c where "obj_content b = Inr c" "h (ob_id b) = Some (ob_filename b, c, Direct)"
    | (many) c u where "obj_content b = Inr c" "h (ob_id b) = Some (ob_filename b, c, Multi u)"
        "u \<notin> opn f (obj_key b)" "\<forall>x. stored f (obj_key b) = Some x \<longrightarrow> fits c x"
    by (auto simp: settled_def)
  then have "settled fits stored opn b (d', f') h'"
  proof cases
    case one
    with history_le_Direct [OF le] show ?thesis unfolding settled_def by blast
  next
    case many
    have "u \<notin> opn f' (obj_key b)" by (rule closed_step [OF up(1) I(1) many(2,3)])
    moreover have "\<forall>x. stored f' (obj_key b) = Some x \<longrightarrow> fits c x"
      using up(2) many(2-4) unfolding closed_stay_def key by fastforce
    ultimately show ?thesis using many(1) history_le_Multi [OF le many(2)] by (auto simp: settled_def)
  qed
  moreover have "knows b (d', f') h'" using stable_knows [of L b] I a unfolding stable_def by blast
  ultimately show "knows b (d', f') h' \<and> settled fits stored opn b (d', f') h'" by simp
qed

end

text \<open>At the key of a settled object there are bytes that fit, or none.\<close>

lemma settled_bytes:
  assumes I: "store_inv V nx ok stored okb fits opn iss multi G h s" and b: "obj_ok b"
    and st: "settled fits stored opn b s h"
  shows "\<exists>c. obj_content b = Inr c \<and> (\<forall>x. stored (snd s) (obj_key b) = Some x \<longrightarrow> fits c x)"
proof -
  obtain d f where s: "s = (d, f)" by (cases s)
  from st obtain c sl where c: "obj_content b = Inr c" "h (ob_id b) = Some (ob_filename b, c, sl)"
    and sl: "sl = Direct \<or> (\<exists>u. sl = Multi u \<and> (\<forall>x. stored f (obj_key b) = Some x \<longrightarrow> fits c x))"
    by (auto simp: settled_def s)
  have "fits c x" if x: "stored f (obj_key b) = Some x" for x
  proof -
    have "holds fits (opn f (obj_key b)) h (obj_key b) x" using I x obj_ok_key [OF b] by (simp add: s)
    with holds_recorded [where h = h, OF b c] sl x show ?thesis by auto
  qed
  with c(1) show ?thesis by (auto simp: s)
qed

end
