(* ===== verification/Calls.thy ===== *)
theory Calls
  imports Safety
begin

text \<open>
  The calls that the service makes of its registry and of its backend, one by one: each stays
  within the rely, and what it says of the stores when it returns.
\<close>

subsection \<open>Calls of the registry\<close>

text \<open>A key of the form of objects' keys whose ID the history knows.\<close>

definition seen_key :: "string \<Rightarrow> (history, 'd, 'f) assertion" where
  "seen_key k s h \<longleftrightarrow> (object_key k \<longrightarrow> (\<exists>i fn c sl. k = key_for i fn \<and> h i = Some (fn, c, sl)))"

context bloby_stores
begin

lemma within_regI:
  assumes "stable Inv Rel P"
    and "\<And>h d f r d'. Inv h (d, f) \<Longrightarrow> P (d, f) h \<Longrightarrow> g d = (r, d') \<Longrightarrow>
      \<exists>h'. Inv h' (d', f) \<and> Evo h (d, f) h' (d', f) \<and> Q r (d', f) h'"
  shows "within Inv Rel Evo P (on_reg g) Q"
  using assms(1)
proof (rule within_reg)
  show "call_ok Inv Evo P (lift_db g) Q"
    unfolding call_ok_def lift_db_def
    using assms(2) by (auto simp del: store_inv.simps evolves.simps simp: Let_def split: prod.splits)
qed

lemma within_beI:
  assumes "stable Inv Rel P"
    and "\<And>h d f r f'. Inv h (d, f) \<Longrightarrow> P (d, f) h \<Longrightarrow> g f = (r, f') \<Longrightarrow>
      Inv h (d, f') \<and> Evo h (d, f) h (d, f') \<and> Q r (d, f') h"
  shows "within Inv Rel Evo P (on_be g) Q"
  using assms(1)
proof (rule within_be)
  show "call_ok Inv Evo P (lift_be g) Q"
    unfolding call_ok_def lift_be_def
    using assms(2) by (fastforce simp del: store_inv.simps evolves.simps simp: Let_def split: prod.splits)
qed

lemma create_cases:
  assumes "ok d" "reg_create_pending (sv_registry S) p fn c d = (r, d')"
  shows "V d' = V d \<and> (\<forall>b. r \<noteq> Inr b)
    \<or> (\<exists>q. v_created p fn c (V d) q (V d') \<and> (\<forall>b. r = Inr b \<longrightarrow> b = row_obj q))"
proof (cases r)
  case (Inl e)
  with create_err [OF assms(1)] assms(2) show ?thesis by blast
next
  case (Inr b)
  with create_ok [OF assms(1)] assms(2) show ?thesis by (metis sum.inject(2))
qed

lemma refresh_cases:
  assumes "ok d" "reg_refresh_pending (sv_registry S) i d = (r, d')"
  shows "V d' = V d \<and> (\<forall>b. r \<noteq> Inr b)
    \<or> (\<exists>q. v_refreshed i (V d) q (V d') \<and> (\<forall>b. r = Inr b \<longrightarrow> b = row_obj q))"
proof (cases r)
  case (Inl e)
  with refresh_err [OF assms(1)] assms(2) show ?thesis by blast
next
  case (Inr b)
  with refresh_ok [OF assms(1)] assms(2) show ?thesis by (metis sum.inject(2))
qed

lemma mark_cases:
  assumes "ok d" "reg_mark_available (sv_registry S) i ct k d = (r, d')"
  shows "V d' = V d \<and> (\<forall>b. r = Inr b \<longrightarrow> (\<exists>q. V d i = Some q \<and> available q \<and> b = row_obj q))
    \<or> (\<exists>q. v_published i ct k (V d) q (V d') \<and> (\<forall>b. r = Inr b \<longrightarrow> b = row_obj q))"
proof (cases r)
  case (Inl e)
  with mark_err [OF assms(1)] assms(2) show ?thesis by blast
next
  case (Inr b)
  with mark_ok [OF assms(1)] assms(2) show ?thesis by (metis sum.inject(2))
qed

lemma delete_cases:
  assumes "ok d" "reg_delete (sv_registry S) i d = (r, d')"
  shows "V d' = V d \<and> (\<forall>b. r \<noteq> Inr b)
    \<or> (\<exists>q. v_deleted i live (V d) q (V d') \<and> (\<forall>b. r = Inr b \<longrightarrow> b = row_obj q))"
proof (cases r)
  case (Inl e)
  with unlink_err [OF assms(1)] assms(2) show ?thesis by blast
next
  case (Inr b)
  with unlink_ok [OF assms(1)] assms(2) show ?thesis by (metis sum.inject(2))
qed

lemma inv_ok: "Inv h (d, f) \<Longrightarrow> ok d" and inv_okb: "Inv h (d, f) \<Longrightarrow> okb f"
  by simp_all

lemma known_row:
  assumes "Inv h (d, f)" "V d i = Some r"
  shows "knows (row_obj r) s h" "ob_id r = i" "obj_key r = key_for i (ob_filename r)" "object_key (obj_key r)"
  using inv_row [OF assms] obj_ok_key [of r] by (auto simp: knows_def recorded_def obj_ok_def)

text \<open>The update of one row.\<close>

lemma row_update:
  assumes I: "Inv h (d, f)" and d': "ok d'" "nx d \<le> nx d'"
    and r: "V d i = Some r" "row_change fits stored f r q" "V d' = (V d)(i \<mapsto> q)"
  shows "Inv h (d', f) \<and> Evo h (d, f) h (d', f) \<and> knows (row_obj q) (d', f) h"
proof -
  have I': "Inv h (d', f) \<and> Evo h (d, f) h (d', f)"
  proof (rule db_change [OF I d'])
    fix j r'
    assume "V d' j = Some r'"
    with r show "\<exists>r. V d j = Some r \<and> row_change fits stored f r r'"
      by (cases "j = i") (simp_all add: row_change_def [of _ _ _ r' r'])
  qed
  have "V d' i = Some q" by (simp add: r)
  from known_row(1) [OF conjunct1 [OF I'] this] I' show ?thesis by blast
qed

text \<open>A published row is settled.\<close>

lemma available_settled:
  assumes I: "Inv h (d, f)" and r: "V d i = Some r" "available r"
  shows "settled fits stored opn (row_obj r) (d, f) h"
proof -
  have o: "obj_ok r" "recorded h r" "ob_id r = i" and "has_fit fits stored f r"
    using inv_row [OF I r(1)] I r by simp_all
  then obtain c sl b where c: "obj_content r = Inr c" "h i = Some (ob_filename r, c, sl)"
    "stored f (obj_key r) = Some b" "fits c b"
    by (auto simp: recorded_def has_fit_def)
  have "allowed fits (opn f (obj_key r)) c sl b"
    using inv_holds [OF I obj_ok_key [OF o(1)] c(3)] holds_entry [of h i, OF c(2)] obj_ok_key_for [OF o(1)] o(3) by simp
  with c o(3) show ?thesis by (cases sl) (auto simp: settled_def)
qed

lemma w_get: "within Inv Rel Evo (\<lambda>s h. True) (on_reg (reg_get (sv_registry S) i)) (\<lambda>r s h. \<forall>b. r = Inr b \<longrightarrow> knows b s h \<and> (available b \<longrightarrow> settled fits stored opn b s h))"
proof (rule within_regI [OF stable_const])
  fix h d f r d'
  assume I: "Inv h (d, f)" and g: "reg_get (sv_registry S) i d = (r, d')"
  have "V d' = V d" "ok d'" using get_any [OF inv_ok [OF I] g] by auto
  moreover have "nx d \<le> nx d'" using nx_get [of d i] g by simp
  ultimately have "Inv h (d', f) \<and> Evo h (d, f) h (d', f)" by (intro db_same [OF I])
  moreover have "knows b (d', f) h \<and> (available b \<longrightarrow> settled fits stored opn b (d', f) h)" if b: "r = Inr b" for b
  proof -
    obtain q where q: "V d i = Some q" "b = row_obj q" using get_ok [OF inv_ok [OF I]] g b by blast
    show ?thesis using known_row(1) [OF I q(1)] available_settled [OF I q(1)] by (simp add: q(2) settled_def)
  qed
  ultimately show "\<exists>h'. Inv h' (d', f) \<and> Evo h (d, f) h' (d', f)
      \<and> (\<forall>b. r = Inr b \<longrightarrow> knows b (d', f) h' \<and> (available b \<longrightarrow> settled fits stored opn b (d', f) h'))"
    by blast
qed

lemma w_create:
  assumes fn: "safe_filename fn" "\<not> temp_name fn" and c: "validate_content c = None"
    and sl: "sl = Direct \<or> sl = Fresh tk \<and> multi c"
  shows "within Inv Rel Evo (\<lambda>s h. True) (on_reg (reg_create_pending (sv_registry S) p fn c))
    (\<lambda>r s h. \<forall>b. r = Inr b \<longrightarrow> knows b s h \<and> obj_content b = Inr c \<and> slotted b sl s h)"
proof (rule within_regI [OF stable_const])
  fix h d f r d'
  assume I: "Inv h (d, f)" and g: "reg_create_pending (sv_registry S) p fn c d = (r, d')"
  have d': "ok d'" "nx d \<le> nx d'" using ok_create [OF inv_ok [OF I], of p fn c] nx_create [of d p fn c] g by auto
  consider (same) "V d' = V d" "\<forall>b. r \<noteq> Inr b"
    | (new) q where "v_created p fn c (V d) q (V d')" "\<forall>b. r = Inr b \<longrightarrow> b = row_obj q"
    using create_cases [OF inv_ok [OF I] g] by blast
  then show "\<exists>h'. Inv h' (d', f) \<and> Evo h (d, f) h' (d', f) \<and>
      (\<forall>b. r = Inr b \<longrightarrow> knows b (d', f) h' \<and> obj_content b = Inr c \<and> slotted b sl (d', f) h')"
  proof cases
    case same
    from db_same [OF I d' same(1)] same(2) show ?thesis by blast
  next
    case (new q)
    have "V d' (ob_id q) \<noteq> V d (ob_id q)" using new(1) by (simp add: v_created_def)
    from create_bound [OF inv_ok [OF I] g this] have "nx d \<le> ob_id q" .
    note cr = db_create [OF I d' new(1) this fn c sl refl]
    have "knows b (d', f) (h(ob_id q \<mapsto> (fn, c, sl))) \<and> obj_content b = Inr c
        \<and> slotted b sl (d', f) (h(ob_id q \<mapsto> (fn, c, sl)))" if "r = Inr b" for b
      using cr(2) new that by (simp add: knows_def slotted_def v_created_def)
    with cr(1) show ?thesis by blast
  qed
qed

lemma w_refresh:
  "within Inv Rel Evo (\<lambda>s h. True) (on_reg (reg_refresh_pending (sv_registry S) i)) (\<lambda>r s h. \<forall>b. r = Inr b \<longrightarrow> knows b s h)"
proof (rule within_regI [OF stable_const])
  fix h d f r d'
  assume I: "Inv h (d, f)" and g: "reg_refresh_pending (sv_registry S) i d = (r, d')"
  have d': "ok d'" "nx d \<le> nx d'" using ok_refresh [OF inv_ok [OF I], of i] nx_refresh [of d i] g by auto
  consider (same) "V d' = V d" "\<forall>b. r \<noteq> Inr b"
    | (upd) q where "v_refreshed i (V d) q (V d')" "\<forall>b. r = Inr b \<longrightarrow> b = row_obj q"
    using refresh_cases [OF inv_ok [OF I] g] by blast
  then show "\<exists>h'. Inv h' (d', f) \<and> Evo h (d, f) h' (d', f) \<and> (\<forall>b. r = Inr b \<longrightarrow> knows b (d', f) h')"
  proof cases
    case same
    from db_same [OF I d' same(1)] same(2) show ?thesis by blast
  next
    case (upd q)
    then obtain r0 t where q: "V d i = Some r0" "pending r0" "q = r0\<lparr>ob_updated := t\<rparr>" "V d' = (V d)(i \<mapsto> q)"
      by (auto simp: v_refreshed_def)
    have "row_change fits stored f r0 q"
      using q by (simp add: row_change_def pending_def available_def live_def obj_content_def obj_key_def split: option.split)
    from row_update [OF I d' q(1) this q(4)] upd(2) show ?thesis by blast
  qed
qed

text \<open>Publishing needs bytes that have arrived.\<close>

lemma published_change:
  assumes I: "Inv h (d, f)" and b: "knows b (d, f) h" "arrived V fits stored b (d, f) h"
    and p: "v_published (ob_id b) ct (obj_key b) (V d) q V'"
  shows "\<exists>r0. V d (ob_id b) = Some r0 \<and> row_change fits stored f r0 q \<and> V' = (V d)(ob_id b \<mapsto> q) \<and> available q"
proof -
  from p obtain r0 t where r0: "V d (ob_id b) = Some r0" "pending r0" "V' = (V d)(ob_id b \<mapsto> q)"
    and q: "q = r0\<lparr>ob_ctype := ct, ob_storage_key := Some (obj_key b), ob_available_at := Some t, ob_updated := t\<rparr>"
    by (auto simp: v_published_def)
  have r: "obj_ok r0" "recorded h r0" "ob_id r0 = ob_id b" using inv_row [OF I r0(1)] by auto
  then have "ob_filename r0 = ob_filename b" using b(1) by (auto simp: knows_def recorded_def)
  with r(1,3) b(1) have key: "obj_key r0 = obj_key b" by (simp add: obj_ok_def knows_def)
  have "live r0" using r0(2) by (rule pending_live)
  then have "has_fit fits stored f b" using b(2) r0(1) by (simp add: arrived_def)
  moreover have "obj_content r0 = obj_content b" using r b(1) by (auto simp: knows_def recorded_def)
  ultimately have "has_fit fits stored f r0" using has_fit_cong [OF key, of fits stored f] by simp
  moreover have "ob_upload r0 = None" using p r0(1) by (auto simp: v_published_def)
  ultimately have "row_change fits stored f r0 q"
    using key pending_not_available [OF r0(2)] \<open>live r0\<close>
    by (simp add: row_change_def q obj_content_def live_def obj_key_def)
  with r0 show ?thesis by (simp add: q available_def)
qed

lemma same_id_content: "knows b s h \<Longrightarrow> knows b' s' h \<Longrightarrow> ob_id b' = ob_id b \<Longrightarrow> obj_content b' = obj_content b"
  by (auto simp: knows_def recorded_def)

lemma w_mark:
  "within Inv Rel Evo (\<lambda>s h. knows b s h \<and> arrived V fits stored b s h)
     (on_reg (reg_mark_available (sv_registry S) (ob_id b) ct (obj_key b)))
     (\<lambda>r s h. \<forall>b'. r = Inr b' \<longrightarrow>
        knows b' s h \<and> available b' \<and> ob_id b' = ob_id b \<and> obj_content b' = obj_content b
          \<and> settled fits stored opn b' s h)"
proof (rule within_regI [OF stable_rely [OF stable_arrived]])
  fix h d f r d'
  assume I: "Inv h (d, f)" and b: "knows b (d, f) h \<and> arrived V fits stored b (d, f) h"
    and g: "reg_mark_available (sv_registry S) (ob_id b) ct (obj_key b) d = (r, d')"
  have kb: "knows b (d, f) h" using b by blast
  have d': "ok d'" "nx d \<le> nx d'"
    using ok_mark [OF inv_ok [OF I], of "ob_id b" ct "obj_key b"] nx_mark [of d "ob_id b" ct "obj_key b"] g by auto
  consider (same) "V d' = V d" "\<forall>b'. r = Inr b' \<longrightarrow> (\<exists>q. V d (ob_id b) = Some q \<and> available q \<and> b' = row_obj q)"
    | (pub) q where "v_published (ob_id b) ct (obj_key b) (V d) q (V d')" "\<forall>b'. r = Inr b' \<longrightarrow> b' = row_obj q"
    using mark_cases [OF inv_ok [OF I] g] by blast
  then show "\<exists>h'. Inv h' (d', f) \<and> Evo h (d, f) h' (d', f) \<and> (\<forall>b'. r = Inr b' \<longrightarrow>
      knows b' (d', f) h' \<and> available b' \<and> ob_id b' = ob_id b \<and> obj_content b' = obj_content b
      \<and> settled fits stored opn b' (d', f) h')"
  proof cases
    case same
    have "knows b' (d', f) h \<and> available b' \<and> ob_id b' = ob_id b \<and> obj_content b' = obj_content b
        \<and> settled fits stored opn b' (d', f) h"
      if "r = Inr b'" for b'
    proof -
      from same(2) that obtain q where q: "V d (ob_id b) = Some q" "available q" "b' = row_obj q" by blast
      note kr = known_row(1,2) [OF I q(1)]
      have "knows b' (d', f) h" "ob_id b' = ob_id b" "available b'" using kr(1) kr(2) q(2,3) by simp_all
      moreover have "settled fits stored opn b' (d', f) h"
        using available_settled [OF I q(1,2)] by (simp add: settled_def q(3))
      ultimately show ?thesis using same_id_content [OF kb] by blast
    qed
    with db_same [OF I d' same(1)] show ?thesis by blast
  next
    case (pub q)
    from published_change [OF I _ _ pub(1)] b obtain r0 where
      r0: "V d (ob_id b) = Some r0" "row_change fits stored f r0 q" "V d' = (V d)(ob_id b \<mapsto> q)" "available q" by blast
    have I': "Inv h (d', f) \<and> Evo h (d, f) h (d', f)"
      using row_update [OF I d' r0(1-3)] by blast
    have q: "V d' (ob_id b) = Some q" by (simp add: r0)
    note kr = known_row(1,2) [OF conjunct1 [OF I'] q]
    have "knows b' (d', f) h \<and> available b' \<and> ob_id b' = ob_id b \<and> obj_content b' = obj_content b
        \<and> settled fits stored opn b' (d', f) h"
      if "r = Inr b'" for b'
    proof -
      have "b' = row_obj q" using pub(2) that by simp
      then have "knows b' (d', f) h" "ob_id b' = ob_id b" "available b'" "settled fits stored opn b' (d', f) h"
        using kr(1) kr(2) r0(4) available_settled [OF conjunct1 [OF I'] q r0(4)] by simp_all
      with same_id_content [OF kb] show ?thesis by blast
    qed
    with I' show ?thesis by blast
  qed
qed

text \<open>Recording and clearing the ID of a multipart upload.\<close>

lemma w_record:
  "within Inv Rel Evo (\<lambda>s h. slotted b (Fresh tk) s h \<and> u \<in> iss (snd s))
     (on_reg (reg_record_upload (sv_registry S) (ob_id b) u)) (\<lambda>r s h. True)"
proof (rule within_regI [OF stable_conj [OF stable_reserved stable_issued]])
  fix h d f r d'
  assume I: "Inv h (d, f)" and b: "slotted b (Fresh tk) (d, f) h \<and> u \<in> iss (snd (d, f))"
    and g: "reg_record_upload (sv_registry S) (ob_id b) u d = (r, d')"
  have d': "ok d'" "nx d \<le> nx d'" using ok_record [OF inv_ok [OF I], of "ob_id b" u] nx_record [of d "ob_id b" u] g by auto
  from b obtain c where c: "h (ob_id b) = Some (ob_filename b, c, Fresh tk)" and u: "u \<in> iss f" by (auto simp: slotted_def)
  from db_record [OF I d' c u own record_any [OF inv_ok [OF I] g]]
  show "\<exists>h'. Inv h' (d', f) \<and> Evo h (d, f) h' (d', f) \<and> True" by blast
qed

lemma w_clear:
  "within Inv Rel Evo (\<lambda>s h. True) (on_reg (reg_clear_upload (sv_registry S) i u)) (\<lambda>r s h. True)"
proof (rule within_regI [OF stable_const])
  fix h d f r d'
  assume I: "Inv h (d, f)" and g: "reg_clear_upload (sv_registry S) i u d = (r, d')"
  have d': "ok d'" "nx d \<le> nx d'" using ok_clear [OF inv_ok [OF I], of i u] nx_clear [of d i u] g by auto
  consider "V d' = V d" | "v_upload i (\<lambda>a b. a = Some u \<and> b = None) (V d) (V d')"
    using clear_any [OF inv_ok [OF I] g] by blast
  then show "\<exists>h'. Inv h' (d', f) \<and> Evo h (d, f) h' (d', f) \<and> True"
  proof cases
    case 1
    from db_same [OF I d' 1] show ?thesis by blast
  next
    case 2
    then obtain q n where q: "V d i = Some q" "ob_upload q = Some u"
      "V d' = (V d)(i \<mapsto> q\<lparr>ob_upload := None, ob_updated := n\<rparr>)"
      by (auto simp: v_upload_def)
    have "\<not> available q" using inv_row [OF I q(1)] q(2) by (auto simp: obj_ok_def)
    then have "row_change fits stored f q (q\<lparr>ob_upload := None, ob_updated := n\<rparr>)"
      by (simp add: row_change_def live_def available_def obj_content_def obj_key_def split: option.split)
    from row_update [OF I d' q(1) this q(3)] show ?thesis by blast
  qed
qed

end

context bloby_stores
begin

lemma deleted_change:
  assumes I: "Inv h (d, f)" and d': "ok d'" "nx d \<le> nx d'" and q: "v_deleted i P (V d) q (V d')"
  shows "Inv h (d', f) \<and> Evo h (d, f) h (d', f)"
    and "knows (row_obj q) (d', f) h \<and> unowned V (obj_key q) (d', f) h"
proof -
  have r: "V d i = Some q" "V d' = (V d)(i := None)" using q by (auto simp: v_deleted_def)
  show "Inv h (d', f) \<and> Evo h (d, f) h (d', f)"
    by (rule db_change [OF I d']) (use r in \<open>auto simp: row_change_def split: if_splits\<close>)
  have k: "obj_key q = key_for i (ob_filename q)" using inv_row [OF I r(1)] by (simp add: obj_ok_def)
  obtain c sl where c: "h i = Some (ob_filename q, c, sl)" using inv_row [OF I r(1)] by (auto simp: recorded_def)
  have "\<forall>p. V (fst (d', f)) i = Some p \<longrightarrow> \<not> live p" by (simp add: r)
  with k c have "unowned V (obj_key q) (d', f) h" unfolding unowned_def by blast
  with known_row(1) [OF I r(1)] show "knows (row_obj q) (d', f) h \<and> unowned V (obj_key q) (d', f) h" by blast
qed

lemma w_delete:
  "within Inv Rel Evo (knows b0) (on_reg (reg_delete (sv_registry S) (ob_id b0)))
     (\<lambda>r s h. (\<forall>b. r = Inr b \<longrightarrow> knows b s h \<and> unowned V (obj_key b) s h)
        \<and> (\<forall>e. r = Inl e \<longrightarrow> errors_is e ErrNotFound \<longrightarrow> unowned V (obj_key b0) s h))"
proof (rule within_regI [OF stable_rely [OF stable_knows]])
  fix h d f r d'
  assume I: "Inv h (d, f)" and b0: "knows b0 (d, f) h"
    and g: "reg_delete (sv_registry S) (ob_id b0) d = (r, d')"
  have d': "ok d'" "nx d \<le> nx d'" using ok_unlink [OF inv_ok [OF I], of "ob_id b0"] nx_delete [of d "ob_id b0"] g by auto
  have missing: "unowned V (obj_key b0) (d', f) h" if e: "r = Inl e" "errors_is e ErrNotFound" for e
  proof -
    have n: "V d' = V d" "\<forall>q. V d (ob_id b0) = Some q \<longrightarrow> \<not> live q"
      using unlink_not_found [OF inv_ok [OF I] _ e(2)] g e(1) by blast+
    obtain c sl where "h (ob_id b0) = Some (ob_filename b0, c, sl)" "obj_key b0 = key_for (ob_id b0) (ob_filename b0)"
      using b0 by (auto simp: knows_def recorded_def obj_ok_def)
    with n show ?thesis unfolding unowned_def by fastforce
  qed
  consider (same) "V d' = V d" "\<forall>b. r \<noteq> Inr b"
    | (del) q where "v_deleted (ob_id b0) live (V d) q (V d')" "\<forall>b. r = Inr b \<longrightarrow> b = row_obj q"
    using delete_cases [OF inv_ok [OF I] g] by blast
  then show "\<exists>h'. Inv h' (d', f) \<and> Evo h (d, f) h' (d', f) \<and>
      (\<forall>b. r = Inr b \<longrightarrow> knows b (d', f) h' \<and> unowned V (obj_key b) (d', f) h') \<and>
      (\<forall>e. r = Inl e \<longrightarrow> errors_is e ErrNotFound \<longrightarrow> unowned V (obj_key b0) (d', f) h')"
  proof cases
    case same
    from db_same [OF I d' same(1)] same(2) missing show ?thesis by blast
  next
    case (del q)
    note dc = deleted_change [OF I d' del(1)]
    have "knows b (d', f) h \<and> unowned V (obj_key b) (d', f) h" if "r = Inr b" for b
      using dc(2) del(2) that by simp
    with dc(1) missing show ?thesis by blast
  qed
qed

lemma w_delete_id:
  "within Inv Rel Evo (\<lambda>s h. True) (on_reg (reg_delete (sv_registry S) i))
     (\<lambda>r s h. \<forall>b. r = Inr b \<longrightarrow> knows b s h \<and> unowned V (obj_key b) s h)"
proof (rule within_regI [OF stable_const])
  fix h d f r d'
  assume I: "Inv h (d, f)" and g: "reg_delete (sv_registry S) i d = (r, d')"
  have d': "ok d'" "nx d \<le> nx d'" using ok_unlink [OF inv_ok [OF I], of i] nx_delete [of d i] g by auto
  consider (same) "V d' = V d" "\<forall>b. r \<noteq> Inr b"
    | (del) q where "v_deleted i live (V d) q (V d')" "\<forall>b. r = Inr b \<longrightarrow> b = row_obj q"
    using delete_cases [OF inv_ok [OF I] g] by blast
  then show "\<exists>h'. Inv h' (d', f) \<and> Evo h (d, f) h' (d', f) \<and>
      (\<forall>b. r = Inr b \<longrightarrow> knows b (d', f) h' \<and> unowned V (obj_key b) (d', f) h')"
  proof cases
    case same
    from db_same [OF I d' same(1)] same(2) show ?thesis by blast
  next
    case (del q)
    note dc = deleted_change [OF I d' del(1)]
    have "knows b (d', f) h \<and> unowned V (obj_key b) (d', f) h" if "r = Inr b" for b
      using dc(2) del(2) that by simp
    with dc(1) show ?thesis by blast
  qed
qed

lemma claimed_change:
  assumes I: "Inv h (d, f)" and d': "ok d'" "nx d \<le> nx d'" and cl: "v_claimed (V d) A (V d')"
  shows "Inv h (d', f) \<and> Evo h (d, f) h (d', f)"
    and "V d i = Some q \<Longrightarrow> i \<in> A \<Longrightarrow> knows (row_obj q) (d', f) h \<and> unowned V (obj_key q) (d', f) h"
proof -
  from cl obtain t where A: "\<forall>i \<in> A. \<exists>q. V d i = Some q \<and> \<not> available q"
    and V': "V d' = (\<lambda>i. if i \<in> A then map_option (\<lambda>q. q\<lparr>ro_expired := Some t\<rparr>) (V d i) else V d i)"
    by (auto simp: v_claimed_def)
  have exp: "row_change fits stored f q (q\<lparr>ro_expired := Some t\<rparr>)" if "\<not> available q" for q
    using that by (simp add: row_change_def live_def available_def obj_content_def obj_key_def split: option.split)
  show "Inv h (d', f) \<and> Evo h (d, f) h (d', f)"
  proof (rule db_change [OF I d'])
    fix i r'
    assume r': "V d' i = Some r'"
    show "\<exists>r. V d i = Some r \<and> row_change fits stored f r r'"
    proof (cases "i \<in> A")
      case True
      with A obtain q where "V d i = Some q" "\<not> available q" by blast
      with r' True exp [of q] show ?thesis by (auto simp: V')
    next
      case False
      with r' show ?thesis by (auto simp: V' row_change_def)
    qed
  qed
  assume q: "V d i = Some q" "i \<in> A"
  have k: "obj_key q = key_for i (ob_filename q)" using inv_row [OF I q(1)] by (simp add: obj_ok_def)
  obtain c sl where c: "h i = Some (ob_filename q, c, sl)" using inv_row [OF I q(1)] by (auto simp: recorded_def)
  have "\<forall>p. V (fst (d', f)) i = Some p \<longrightarrow> \<not> live p" using q by (auto simp: V' live_def)
  with k c have "unowned V (obj_key q) (d', f) h" unfolding unowned_def by blast
  with known_row(1) [OF I q(1)] show "knows (row_obj q) (d', f) h \<and> unowned V (obj_key q) (d', f) h" by blast
qed

lemma w_claim:
  "within Inv Rel Evo (\<lambda>s h. True) (on_reg (reg_claim_expired (sv_registry S) t1 t2 n))
     (\<lambda>r s h. \<forall>bs. r = Inr bs \<longrightarrow> (\<forall>b \<in> set bs. knows b s h \<and> unowned V (obj_key b) s h))"
proof (rule within_regI [OF stable_const])
  fix h d f r d'
  assume I: "Inv h (d, f)" and g: "reg_claim_expired (sv_registry S) t1 t2 n d = (r, d')"
  have d': "ok d'" "nx d \<le> nx d'"
    using ok_claim [OF inv_ok [OF I], of t1 t2 n] nx_claim [of d t1 t2 n] g by auto
  show "\<exists>h'. Inv h' (d', f) \<and> Evo h (d, f) h' (d', f) \<and>
      (\<forall>bs. r = Inr bs \<longrightarrow> (\<forall>b \<in> set bs. knows b (d', f) h' \<and> unowned V (obj_key b) (d', f) h'))"
  proof (cases r)
    case (Inl e)
    with claim_err [OF inv_ok [OF I]] g obtain A where "v_claimed (V d) A (V d')" by blast
    from claimed_change(1) [OF I d' this] Inl show ?thesis by blast
  next
    case (Inr bs)
    have cl: "v_claimed (V d) (ob_id ` set bs) (V d')"
      and bs: "\<forall>b \<in> set bs. \<exists>q. V d (ob_id b) = Some q \<and> b = row_obj q"
      using claim_ok [OF inv_ok [OF I] g [unfolded Inr]] by blast+
    have "knows b (d', f) h \<and> unowned V (obj_key b) (d', f) h" if b: "b \<in> set bs" for b
    proof -
      from bs b obtain q where q: "V d (ob_id b) = Some q" "b = row_obj q" by blast
      from b have "ob_id b \<in> ob_id ` set bs" by (rule imageI)
      from claimed_change(2) [OF I d' cl q(1) this] show ?thesis by (simp add: q(2))
    qed
    with claimed_change(1) [OF I d' cl] Inr show ?thesis by blast
  qed
qed

lemma w_purge: "within Inv Rel Evo (\<lambda>s h. True) (on_reg (reg_delete_expired (sv_registry S) i)) (\<lambda>r s h. True)"
proof (rule within_regI [OF stable_const])
  fix h d f r d'
  assume I: "Inv h (d, f)" and g: "reg_delete_expired (sv_registry S) i d = (r, d')"
  have d': "ok d'" "nx d \<le> nx d'" using ok_purge [OF inv_ok [OF I], of i] nx_purge [of d i] g by auto
  consider "V d' = V d" | q where "v_deleted i (\<lambda>r. \<not> live r) (V d) q (V d')"
    using purge_any [OF inv_ok [OF I] g] by blast
  then show "\<exists>h'. Inv h' (d', f) \<and> Evo h (d, f) h' (d', f) \<and> True"
  proof cases
    case 1
    from db_same [OF I d' 1] show ?thesis by blast
  next
    case (2 q)
    from deleted_change(1) [OF I d' 2] show ?thesis by blast
  qed
qed

lemma w_unref: "within Inv Rel Evo (\<lambda>s h. True) (on_reg (reg_list_unreferenced (sv_registry S) ps t n)) (\<lambda>r s h. True)"
proof (rule within_regI [OF stable_const])
  fix h d f r d'
  assume I: "Inv h (d, f)" and g: "reg_list_unreferenced (sv_registry S) ps t n d = (r, d')"
  have "V d' = V d" "ok d'" "nx d \<le> nx d'"
    using unref_any [OF inv_ok [OF I] g] nx_unref [of d ps t n] g by auto
  with db_same [OF I] show "\<exists>h'. Inv h' (d', f) \<and> Evo h (d, f) h' (d', f) \<and> True" by blast
qed

lemma stable_seen: "stable Inv (Evs L) (seen_key k)"
proof (rule stableI)
  fix h h' d f d' f'
  assume E: "Evs L h (d, f) h' (d', f')" and s: "seen_key k (d, f) h"
  show "seen_key k (d', f') h'"
    unfolding seen_key_def
  proof
    assume "object_key k"
    with s obtain i fn c sl where k: "k = key_for i fn" "h i = Some (fn, c, sl)" by (auto simp: seen_key_def)
    obtain sl' where "h' i = Some (fn, c, sl')" by (rule history_leD [of h h' i, OF evo_history [OF E] k(2)])
    with k(1) show "\<exists>i fn c sl. k = key_for i fn \<and> h' i = Some (fn, c, sl)" by blast
  qed
qed

end

text \<open>The lookup of owners: a key that is not owned in its result is owned by nobody.\<close>

context bloby_stores
begin

lemma not_owned:
  assumes I: "Inv h (d, f)" and m: "\<And>i. map_of own i = (if i \<in> set ids then
      (case V d i of Some r \<Rightarrow> if live r then Some (row_obj r) else None | None \<Rightarrow> None) else None)"
    and i: "owner_id k = Some i" "i \<in> set ids" and seen: "seen_key k (d, f) h" and no: "\<not> owned_key own i k"
  shows "unowned V k (d, f) h"
  unfolding unowned_def
proof
  assume "object_key k"
  with seen obtain j fn c sl where k: "k = key_for j fn" "h j = Some (fn, c, sl)" by (auto simp: seen_key_def)
  from \<open>object_key k\<close> obtain j' fn' where k': "in_int64 j'" "k = key_for j' fn'" by (rule object_keyE)
  have "j' = j" using key_for_inj [of j' fn' j fn] k k' by simp
  with owner_id_key_for k' i(1) have j: "j = i" by simp
  have "\<not> live r" if r: "V d i = Some r" for r
  proof
    assume "live r"
    with m [of i] i(2) r no have "obj_key r \<noteq> k" by (simp add: owned_key_def)
    moreover have "obj_key r = key_for i (ob_filename r)" "recorded h r" "ob_id r = i"
      using inv_row [OF I r] by (auto simp: obj_ok_def)
    ultimately show False using k(1,2) j by (auto simp: recorded_def)
  qed
  with k j show "\<exists>i fn fn' c sl. k = key_for i fn \<and> h i = Some (fn', c, sl) \<and>
      (fn' \<noteq> fn \<or> (\<forall>r. V (fst (d, f)) i = Some r \<longrightarrow> \<not> live r))" by (metis fst_conv)
qed

lemma w_owners:
  "within Inv Rel Evo (\<lambda>s h. \<forall>k \<in> set batch. seen_key k s h) (owners S batch)
     (\<lambda>r s h. \<forall>own. r = Inr own \<longrightarrow>
        (\<forall>k \<in> set batch. \<forall>i. owner_id k = Some i \<longrightarrow> \<not> owned_key own i k \<longrightarrow> unowned V k s h))"
proof (cases "List.map_filter owner_id batch = []")
  case True
  then have "\<forall>k \<in> set batch. owner_id k = None"
    by (auto simp: List.map_filter_def filter_empty_conv)
  with True show ?thesis by (auto simp: owners_def intro!: within_return)
next
  case False
  let ?ids = "List.map_filter owner_id batch"
  have ids: "i \<in> set ?ids" if "k \<in> set batch" "owner_id k = Some i" for k i
    using that by (force simp: List.map_filter_def)
  have "within Inv Rel Evo (\<lambda>s h. \<forall>k \<in> set batch. seen_key k s h) (on_reg (reg_list_by_ids (sv_registry S) ?ids))
     (\<lambda>r s h. \<forall>own. r = Inr own \<longrightarrow>
        (\<forall>k \<in> set batch. \<forall>i. owner_id k = Some i \<longrightarrow> \<not> owned_key own i k \<longrightarrow> unowned V k s h))"
  proof (rule within_regI [OF stable_rely [OF stable_all [OF stable_seen]]])
    fix h d f r d'
    assume I: "Inv h (d, f)" and seen: "\<forall>k \<in> set batch. seen_key k (d, f) h"
      and g: "reg_list_by_ids (sv_registry S) ?ids d = (r, d')"
    have d': "V d' = V d" "ok d'" "nx d \<le> nx d'"
      using list_ids_any [OF inv_ok [OF I] g] nx_list_ids [of d ?ids] g by auto
    have I': "Inv h (d', f) \<and> Evo h (d, f) h (d', f)" by (rule db_same [OF I d'(2,3,1)])
    have "unowned V k (d', f) h" if "r = Inr own" "k \<in> set batch" "owner_id k = Some i" "\<not> owned_key own i k" for own k i
    proof -
      have "unowned V k (d, f) h"
        by (rule not_owned [OF I list_ids_ok [OF inv_ok [OF I] g [unfolded that(1)]] that(3) ids [OF that(2,3)] _ that(4)])
           (use seen that(2) in blast)
      then show ?thesis by (simp add: unowned_def d'(1))
    qed
    with I' show "\<exists>h'. Inv h' (d', f) \<and> Evo h (d, f) h' (d', f) \<and> (\<forall>own. r = Inr own \<longrightarrow>
        (\<forall>k \<in> set batch. \<forall>i. owner_id k = Some i \<longrightarrow> \<not> owned_key own i k \<longrightarrow> unowned V k (d', f) h'))"
      by blast
  qed
  with False show ?thesis by (simp add: owners_def)
qed

end

subsection \<open>Calls of the backend\<close>

definition listed :: "'f backend \<Rightarrow> ('f \<Rightarrow> bool) \<Rightarrow> string \<Rightarrow> bool" where
  "listed B okb k \<longleftrightarrow> (\<exists>f t ks err f'. okb f \<and> be_expired_objects B t f = ((ks, err), f') \<and> k \<in> set ks)"

text \<open>A reader over what the backend vouches for: all of it, or a part and an error.\<close>

definition reads_fit :: "(content \<Rightarrow> string \<Rightarrow> bool) \<Rightarrow> content \<Rightarrow> reader \<Rightarrow> bool" where
  "reads_fit fits c rd \<longleftrightarrow> (\<exists>x. fits c x \<and> prefix (rd_bytes rd) x \<and> (rd_err rd = None \<longrightarrow> rd_bytes rd = x))"

context bloby_stores
begin

lemma known_entry:
  assumes I: "Inv h (d, f)" and b: "knows b (d, f) h" "obj_content b = Inr c"
  obtains sl where "h (ob_id b) = Some (ob_filename b, c, sl)" "entry_ok multi (iss f) (ob_id b) (ob_filename b) c sl"
    "obj_key b = key_for (ob_id b) (ob_filename b)" "object_key (obj_key b)" "\<forall>u. ob_upload b = Some u \<longrightarrow> sl = Multi u"
proof -
  have o: "obj_ok b" "recorded h b" using b(1) by (simp_all add: knows_def)
  from o(2) b(2) obtain sl where "h (ob_id b) = Some (ob_filename b, c, sl)" "\<forall>u. ob_upload b = Some u \<longrightarrow> sl = Multi u"
    by (auto simp: recorded_def)
  with that inv_entry [OF I] obj_ok_key [OF o(1)] obj_ok_key_for [OF o(1)] show thesis by blast
qed

lemma w_put:
  assumes c: "obj_content b = Inr c" "matches (sv_hashes S) c (rd_bytes rd)"
  shows "within Inv Rel Evo (\<lambda>s h. knows b s h \<and> slotted b Direct s h)
    (on_be (be_put (sv_backend S) (obj_key b) rd c opts))
    (\<lambda>r s h. \<forall>x. r = Inr x \<longrightarrow> arrived V fits stored b s h)"
proof (rule within_beI [OF stable_rely [OF stable_conj [OF stable_knows stable_direct]]])
  fix h d f r f'
  assume I: "Inv h (d, f)" and b: "knows b (d, f) h \<and> slotted b Direct (d, f) h"
    and g: "be_put (sv_backend S) (obj_key b) rd c opts f = (r, f')"
  obtain sl where sl: "h (ob_id b) = Some (ob_filename b, c, sl)" "entry_ok multi (iss f) (ob_id b) (ob_filename b) c sl"
    and k: "obj_key b = key_for (ob_id b) (ob_filename b)" "object_key (obj_key b)"
    by (rule known_entry [OF I conjunct1 [OF b] c(1)])
  have dir: "sl = Direct" using b sl(1) by (simp add: slotted_def)
  have valid: "validate_content c = None" using sl(2) by (simp add: entry_ok_def)
  have f': "okb f'" using okb_put [OF inv_okb [OF I] k(2), of rd c opts] g by simp
  have "key_step d h f f' q" for q
    using put_any [OF inv_okb [OF I] k(2) valid c(2) g] sl(1) k(1) dir
    unfolding key_step_def by (metis fun_upd_apply)
  then have "Inv h (d, f') \<and> Evo h (d, f) h (d, f')"
    using be_change [OF I f' keeps_closedD [OF up_put inv_okb [OF I] g]] by blast
  moreover have "arrived V fits stored b (d, f') h" if "r = Inr x" for x
    using put_ok [OF inv_okb [OF I] k(2) valid c(2) g [unfolded that]] fits_matches [OF c(2)] c(1)
    by (simp add: arrived_def has_fit_def)
  ultimately show "Inv h (d, f') \<and> Evo h (d, f) h (d, f') \<and> (\<forall>x. r = Inr x \<longrightarrow> arrived V fits stored b (d, f') h)"
    by blast
qed

lemma w_be_delete:
  assumes k: "object_key k \<or> listed (sv_backend S) okb k"
  shows "within Inv Rel Evo (unowned V k) (on_be (be_delete (sv_backend S) k)) (\<lambda>r s h. True)"
proof (rule within_beI [OF stable_rely [OF stable_unowned]])
  fix h d f r f'
  assume I: "Inv h (d, f)" and u: "unowned V k (d, f) h" and g: "be_delete (sv_backend S) k f = (r, f')"
  have f': "okb f'" using okb_delete [OF inv_okb [OF I], of k] g by simp
  have "stored f' = stored f \<or> stored f' = (stored f)(k := None)"
    using k delete_any [OF inv_okb [OF I] _ g] delete_listed [OF _ _ _ inv_okb [OF I] g]
    unfolding listed_def by blast
  then have "key_step d h f f' q" for q
    using u by (cases "q = k") (auto simp: key_step_def)
  with be_change [OF I f' keeps_closedD [OF up_delete inv_okb [OF I] g]]
  show "Inv h (d, f') \<and> Evo h (d, f) h (d, f') \<and> True" by blast
qed

lemma w_verify:
  assumes c: "obj_content b = Inr c"
  shows "within Inv Rel Evo (knows b) (on_be (be_verify (sv_backend S) (obj_key b) c))
    (\<lambda>r s h. \<forall>x. r = Inr x \<longrightarrow> arrived V fits stored b s h)"
proof (rule within_beI [OF stable_rely [OF stable_knows]])
  fix h d f r f'
  assume I: "Inv h (d, f)" and b: "knows b (d, f) h" and g: "be_verify (sv_backend S) (obj_key b) c f = (r, f')"
  obtain sl where sl: "h (ob_id b) = Some (ob_filename b, c, sl)" "entry_ok multi (iss f) (ob_id b) (ob_filename b) c sl"
    and k: "obj_key b = key_for (ob_id b) (ob_filename b)" "object_key (obj_key b)"
    by (rule known_entry [OF I b c])
  have same: "stored f' = stored f" "okb f'" using verify_any [OF inv_okb [OF I] g] by auto
  have "has_fit fits stored f b" if x: "r = Inr x" for x
  proof -
    obtain y where y: "stored f (obj_key b) = Some y" using verify_ok [OF inv_okb [OF I] k(2) g [unfolded x]] by blast
    then have "allowed fits (opn f (obj_key b)) c sl y"
      using inv_holds [OF I k(2)] holds_entry [of h "ob_id b", OF sl(1)] k(1) by simp
    moreover have "\<exists>y. stored f (obj_key b) = Some y \<and> fits c y" if "sl \<noteq> Direct"
      using verify_multi [OF inv_okb [OF I] k(2) _ _ g [unfolded x]] sl(2) that by (simp add: entry_ok_def)
    ultimately show ?thesis using y c by (cases sl) (auto simp: has_fit_def)
  qed
  then have "arrived V fits stored b (d, f') h" if "r = Inr x" for x
    using that same(1) by (simp add: arrived_def has_fit_def)
  with be_same [OF I same(2) keeps_closedD [OF up_verify inv_okb [OF I] g] same(1)]
  show "Inv h (d, f') \<and> Evo h (d, f) h (d, f') \<and> (\<forall>x. r = Inr x \<longrightarrow> arrived V fits stored b (d, f') h)"
    by blast
qed

text \<open>Calls that leave the stored bytes alone, and what they keep of a fact of the history.\<close>

lemma w_same_keep:
  assumes st: "stable Inv Rel F" and F: "\<And>d f f' h. F (d, f) h \<Longrightarrow> F (d, f') h"
    and g: "\<And>f r f'. okb f \<Longrightarrow> g f = (r, f') \<Longrightarrow> stored f' = stored f \<and> okb f' \<and> Y r f'"
    and up: "keeps_closed okb opn iss g"
  shows "within Inv Rel Evo F (on_be g) (\<lambda>r s h. F s h \<and> Y r (snd s))"
proof (rule within_beI [OF st])
  fix h d f r f'
  assume I: "Inv h (d, f)" and P: "F (d, f) h" and run: "g f = (r, f')"
  have same: "stored f' = stored f" "okb f'" "Y r f'" using g [OF inv_okb [OF I] run] by auto
  from be_same [OF I same(2) keeps_closedD [OF up inv_okb [OF I] run] same(1)] F [OF P] same(3)
  show "Inv h (d, f') \<and> Evo h (d, f) h (d, f') \<and> F (d, f') h \<and> Y r (snd (d, f'))" by simp
qed

lemma w_same:
  assumes g: "\<And>f r f'. okb f \<Longrightarrow> g f = (r, f') \<Longrightarrow> stored f' = stored f \<and> okb f'"
    and up: "keeps_closed okb opn iss g"
  shows "within Inv Rel Evo (\<lambda>s h. True) (on_be g) (\<lambda>r s h. True)"
proof -
  have "within Inv Rel Evo (\<lambda>s h. True) (on_be g) (\<lambda>r s h. True \<and> True)"
    by (rule w_same_keep [where Y = "\<lambda>r f. True", OF stable_const _ _ up]) (use g in auto)
  then show ?thesis by simp
qed

lemmas w_head = w_same [OF head_any up_head]
lemmas w_presign_put = w_same [OF presign_put_any up_presign_put]
lemmas w_presign_get = w_same [OF presign_get_any up_presign_get]

lemma w_abort:
  "be_multipart (sv_backend S) = Some m \<Longrightarrow> within Inv Rel Evo (\<lambda>s h. True) (on_be (mp_abort m k u)) (\<lambda>r s h. True)"
  by (rule w_same) (erule (2) abort_any, erule up_abort)

lemma w_uploads:
  "be_multipart (sv_backend S) = Some m \<Longrightarrow> within Inv Rel Evo (\<lambda>s h. True) (on_be (mp_expired_uploads m t)) (\<lambda>r s h. True)"
  by (rule w_same) (erule (2) uploads_any, erule up_uploads)

lemma w_mp_presign:
  "be_multipart (sv_backend S) = Some m \<Longrightarrow>
     within Inv Rel Evo (\<lambda>s h. True) (on_be (mp_presign_part m k u n crc ttl)) (\<lambda>r s h. True)"
  by (rule w_same) (erule (2) presign_part_any, erule up_presign_part)

lemma w_begin:
  assumes "stable Inv Rel F" "\<And>d f f' h. F (d, f) h \<Longrightarrow> F (d, f') h"
  shows "within Inv Rel Evo F (on_be (be_begin_upload (sv_backend S) k c))
    (\<lambda>r s h. F s h \<and> (\<forall>a. r = Inr a \<longrightarrow> (ua_strategy a = StrategyMultipart) = multi c))"
proof (rule w_same_keep [where Y = "\<lambda>r f. \<forall>a. r = Inr a \<longrightarrow> (ua_strategy a = StrategyMultipart) = multi c"])
  show "stored f' = stored f \<and> okb f' \<and> (\<forall>a. r = Inr a \<longrightarrow> (ua_strategy a = StrategyMultipart) = multi c)"
    if "okb f" "be_begin_upload (sv_backend S) k c f = (r, f')" for f r f'
    using begin_any [OF that] begin_kind [OF that(1)] that(2) by blast
qed (use assms up_begin in blast)+

lemma w_mp_create:
  assumes m: "be_multipart (sv_backend S) = Some m" and "stable Inv Rel F" "\<And>d f f' h. F (d, f) h \<Longrightarrow> F (d, f') h"
  shows "within Inv Rel Evo F (on_be (mp_create m k)) (\<lambda>r s h. F s h \<and> (\<forall>u. r = Inr u \<longrightarrow> u \<in> iss (snd s)))"
proof (rule w_same_keep [where Y = "\<lambda>r f. \<forall>u. r = Inr u \<longrightarrow> u \<in> iss f"])
  show "stored f' = stored f \<and> okb f' \<and> (\<forall>u. r = Inr u \<longrightarrow> u \<in> iss f')"
    if "okb f" "mp_create m k f = (r, f')" for f r f'
    using create_any [OF m that] by blast
qed (use assms up_create [OF m] in blast)+

lemma w_complete:
  assumes m: "be_multipart (sv_backend S) = Some m" and u: "ob_upload b = Some u"
  shows "within Inv Rel Evo (knows b) (on_be (mp_complete m (obj_key b) u n)) (\<lambda>r s h. True)"
proof (rule within_beI [OF stable_rely [OF stable_knows]])
  fix h d f r f'
  assume I: "Inv h (d, f)" and b: "knows b (d, f) h" and g: "mp_complete m (obj_key b) u n f = (r, f')"
  obtain c where c: "obj_content b = Inr c" using b by (auto simp: knows_def recorded_def)
  obtain sl where sl: "h (ob_id b) = Some (ob_filename b, c, sl)" "entry_ok multi (iss f) (ob_id b) (ob_filename b) c sl"
      "\<forall>u. ob_upload b = Some u \<longrightarrow> sl = Multi u"
    and k: "obj_key b = key_for (ob_id b) (ob_filename b)"
    by (rule known_entry [OF I b c])
  have eff: "okb f'" "stored f' = stored f \<or> (\<exists>x. u \<in> opn f (obj_key b) \<and> u \<notin> opn f' (obj_key b)
      \<and> stored f' = (stored f)(obj_key b \<mapsto> x))"
    using complete_any [OF m inv_okb [OF I] _ g] sl(2,3) u by (auto simp: entry_ok_def)
  have "key_step d h f f' q" for q
    using eff(2) sl(1) sl(3) u k unfolding key_step_def by (metis fun_upd_apply)
  with be_change [OF I eff(1) keeps_closedD [OF up_complete [OF m] inv_okb [OF I] g]]
  show "Inv h (d, f') \<and> Evo h (d, f) h (d, f') \<and> True" by blast
qed

lemma w_open:
  assumes c: "obj_content b = Inr c"
  shows "within Inv Rel Evo (\<lambda>s h. knows b s h \<and> settled fits stored opn b s h)
    (on_be (be_open (sv_backend S) (obj_key b))) (\<lambda>r s h. \<forall>rd. r = Inr rd \<longrightarrow> reads_fit fits c rd)"
proof (rule within_beI [OF stable_rely [OF stable_settled]])
  fix h d f r f'
  assume I: "Inv h (d, f)" and b: "knows b (d, f) h \<and> settled fits stored opn b (d, f) h"
    and g: "be_open (sv_backend S) (obj_key b) f = (r, f')"
  obtain sl where sl: "h (ob_id b) = Some (ob_filename b, c, sl)"
    and k: "obj_key b = key_for (ob_id b) (ob_filename b)" "object_key (obj_key b)"
    by (rule known_entry [OF I conjunct1 [OF b] c])
  have "stored f' = stored f" "okb f'" using open_any [OF inv_okb [OF I] g] by auto
  then have "Inv h (d, f') \<and> Evo h (d, f) h (d, f')"
    using be_same [OF I _ keeps_closedD [OF up_open inv_okb [OF I] g]] by blast
  moreover have "reads_fit fits c rd" if rd: "r = Inr rd" for rd
  proof -
    obtain x where x: "stored f (obj_key b) = Some x \<and> prefix (rd_bytes rd) x
        \<and> (rd_err rd = None \<longrightarrow> rd_bytes rd = x)"
      using open_ok [OF inv_okb [OF I] k(2) g [unfolded rd]] by (rule exE)
    have "allowed fits (opn f (obj_key b)) c sl x"
      using inv_holds [OF I k(2)] x holds_entry [of h "ob_id b", OF sl] k(1) by simp
    then have "fits c x" using b sl c x by (auto simp: settled_def)
    with x show ?thesis by (auto simp: reads_fit_def)
  qed
  ultimately show "Inv h (d, f') \<and> Evo h (d, f) h (d, f') \<and> (\<forall>rd. r = Inr rd \<longrightarrow> reads_fit fits c rd)" by blast
qed

lemma w_list:
  "within Inv Rel Evo (\<lambda>s h. True) (on_be (be_expired_objects (sv_backend S) t))
     (\<lambda>r s h. \<forall>k \<in> set (fst r). listed (sv_backend S) okb k \<and> seen_key k s h)"
proof (rule within_beI [OF stable_const])
  fix h d f r f'
  assume I: "Inv h (d, f)" and g: "be_expired_objects (sv_backend S) t f = (r, f')"
  obtain ks err where r: "r = (ks, err)" by (cases r)
  have same: "stored f' = stored f" "okb f'" using list_any [OF inv_okb [OF I] g] by auto
  have "listed (sv_backend S) okb k \<and> seen_key k (d, f') h" if k: "k \<in> set ks" for k
  proof
    show "listed (sv_backend S) okb k" using inv_okb [OF I] g [unfolded r] k unfolding listed_def by blast
    show "seen_key k (d, f') h"
      unfolding seen_key_def
    proof
      assume o: "object_key k"
      from list_stored [OF inv_okb [OF I] g [unfolded r] k o] obtain x where "stored f k = Some x" by blast
      from inv_holds [OF I o this] show "\<exists>i fn c sl. k = key_for i fn \<and> h i = Some (fn, c, sl)"
        unfolding holds_def by blast
    qed
  qed
  with be_same [OF I same(2) keeps_closedD [OF up_list inv_okb [OF I] g] same(1)]
  show "Inv h (d, f') \<and> Evo h (d, f) h (d, f')
      \<and> (\<forall>k \<in> set (fst r). listed (sv_backend S) okb k \<and> seen_key k (d, f') h)"
    by (simp add: r del: store_inv.simps evolves.simps)
qed

end

end
