(* ===== verification/Requests.thy ===== *)
theory Requests
  imports Calls
begin

text \<open>
  Every operation of the service stays within the rely, whatever other requests do between its
  calls, and what it returns is what it promises: a published object whose content is the
  declared one, bytes that match it, and nothing removed that an object still owns.
\<close>

subsection \<open>What requests promise\<close>

text \<open>What a reservation returns.\<close>

definition reserved :: "content \<Rightarrow> slot \<Rightarrow> obj result \<Rightarrow> (history, 'd, 'f) assertion" where
  "reserved c sl r s h \<longleftrightarrow> (\<forall>b. r = Inr b \<longrightarrow> knows b s h \<and> obj_content b = Inr c \<and> slotted b sl s h)"

text \<open>What the beginning of an upload returns: a target for bytes in one piece only for an object that takes them.\<close>

definition began :: "content \<Rightarrow> (obj \<times> upload_action) result \<Rightarrow> (history, 'd, 'f) assertion" where
  "began c r s h \<longleftrightarrow> (\<forall>b a. r = Inr (b, a) \<longrightarrow> knows b s h \<and> obj_content b = Inr c
     \<and> (ua_strategy a \<noteq> StrategyMultipart \<longrightarrow> slotted b Direct s h))"

text \<open>A request that publishes returns the published object, with the content it declared.\<close>

definition published ::
  "(content \<Rightarrow> string \<Rightarrow> bool) \<Rightarrow> ('f \<Rightarrow> string \<rightharpoonup> string) \<Rightarrow> ('f \<Rightarrow> string \<Rightarrow> string set) \<Rightarrow>
     content \<Rightarrow> obj result \<Rightarrow> (history, 'd, 'f) assertion" where
  "published fits stored opn c r s h \<longleftrightarrow> (\<forall>b. r = Inr b \<longrightarrow>
     knows b s h \<and> available b \<and> obj_content b = Inr c \<and> settled fits stored opn b s h)"

definition finalized ::
  "(content \<Rightarrow> string \<Rightarrow> bool) \<Rightarrow> ('f \<Rightarrow> string \<rightharpoonup> string) \<Rightarrow> ('f \<Rightarrow> string \<Rightarrow> string set) \<Rightarrow>
     obj result \<Rightarrow> (history, 'd, 'f) assertion" where
  "finalized fits stored opn r s h \<longleftrightarrow> (\<forall>b. r = Inr b \<longrightarrow>
     knows b s h \<and> available b \<and> settled fits stored opn b s h)"

context bloby_stores
begin

text \<open>Consequence under the trivial precondition, and sequencing with a plain result.\<close>

lemma within_weaken: "within Inv Rel Evo P m Q \<Longrightarrow> within Inv Rel Evo P m (\<lambda>r s h. True)"
  by (erule within_conseq) auto

lemma within_pre: "within Inv Rel Evo (\<lambda>s h. True) m Q \<Longrightarrow> within Inv Rel Evo P m Q"
  by (erule within_conseq) auto

lemma within_then:
  "within Inv Rel Evo P m (\<lambda>r s h. True) \<Longrightarrow> (\<And>r. within Inv Rel Evo (\<lambda>s h. True) (f r) R) \<Longrightarrow>
     within Inv Rel Evo P (State_Monad.bind m f) R"
  by (rule within_bind)

lemma within_err: "(\<And>s h. Q (Inl e) s h) \<Longrightarrow> within Inv Rel Evo P (State_Monad.return (Inl e)) Q"
  by (rule within_return)

lemma within_facts: "(\<And>s h. P s h \<Longrightarrow> b) \<Longrightarrow> (b \<Longrightarrow> within Inv Rel Evo P m Q) \<Longrightarrow> within Inv Rel Evo P m Q"
  unfolding within_def by blast

lemma w_reg_same:
  assumes "\<And>d r d'. ok d \<Longrightarrow> g d = (r, d') \<Longrightarrow> V d' = V d \<and> ok d'" and "\<And>d. nx d \<le> nx (snd (g d))"
  shows "within Inv Rel Evo (\<lambda>s h. True) (on_reg g) (\<lambda>r s h. True)"
proof (rule within_regI [OF stable_const])
  fix h d f r d'
  assume I: "Inv h (d, f)" and g: "g d = (r, d')"
  have "V d' = V d" "ok d'" "nx d \<le> nx d'" using assms(1) [OF inv_ok [OF I] g] assms(2) [of d] g by auto
  with db_same [OF I] show "\<exists>h'. Inv h' (d', f) \<and> Evo h (d, f) h' (d', f) \<and> True" by blast
qed

subsection \<open>Deletion\<close>

lemma w_keep:
  assumes "within Inv Rel Evo (\<lambda>s h. True) m (\<lambda>r s h. True)" "stable Inv Evo F"
  shows "within Inv Rel Evo F m (\<lambda>r. F)"
  using within_frame [OF assms] by (rule within_conseq) auto

lemma w_remove_bytes:
  "within Inv Rel Evo (\<lambda>s h. knows b s h \<and> unowned V (obj_key b) s h) (remove_bytes S b) (\<lambda>r s h. True)"
proof (rule within_facts [where b = "obj_ok b"])
  let ?P = "\<lambda>(s :: 'd \<times> 'f) h. knows b s h \<and> unowned V (obj_key b) s h"
  assume "obj_ok b"
  then have k: "object_key (obj_key b) \<or> listed (sv_backend S) okb (obj_key b)" using obj_ok_key by blast
  have stab: "stable Inv Evo ?P" by (intro stable_conj stable_knows stable_unowned)
  have "within Inv Rel Evo ?P (on_be (be_delete (sv_backend S) (obj_key b))) (\<lambda>r s h. True)"
    by (rule within_conseq [OF w_be_delete [OF k]]) auto
  then have del: "within Inv Rel Evo ?P
      (do { r \<leftarrow> on_be (be_delete (sv_backend S) (obj_key b));
            State_Monad.return (errors_join e (err_of r)) }) (\<lambda>r s h. True)" for e
    by (rule within_then) (simp add: within_return)
  have keep: "within Inv Rel Evo ?P (State_Monad.return e) (\<lambda>r. ?P)" for e :: "goerr option"
    by (rule within_return)
  have abort: "within Inv Rel Evo ?P (case (ob_upload b, be_multipart (sv_backend S)) of
          (Some u, Some m) \<Rightarrow> do {
            r \<leftarrow> on_be (mp_abort m (obj_key b) u);
            State_Monad.return (case r of
              Inl e \<Rightarrow> if errors_is e ErrMultipartUploadNotFound then None else Some e
            | Inr _ \<Rightarrow> None) }
        | _ \<Rightarrow> State_Monad.return None) (\<lambda>r. ?P)"
  proof (cases "\<exists>u m. ob_upload b = Some u \<and> be_multipart (sv_backend S) = Some m")
    case True
    then obtain u m where m: "ob_upload b = Some u" "be_multipart (sv_backend S) = Some m" by blast
    from within_bind [OF w_keep [OF w_abort [OF m(2)] stab] keep] show ?thesis by (simp add: m)
  next
    case False
    then show ?thesis by (auto split: option.split intro: keep)
  qed
  show "within Inv Rel Evo ?P (remove_bytes S b) (\<lambda>r s h. True)"
    unfolding remove_bytes_def by (rule within_bind [OF abort del])
qed (simp add: knows_def)

lemma w_delete_bytes:
  "within Inv Rel Evo (\<lambda>s h. knows b s h \<and> unowned V (obj_key b) s h) (delete_bytes S b) (\<lambda>r s h. True)"
  unfolding delete_bytes_def by (rule within_then [OF w_remove_bytes]) (simp add: within_return)

lemma w_delete_unreferenced: "within Inv Rel Evo (\<lambda>s h. True) (delete_unreferenced S ids) (\<lambda>r s h. True)"
  unfolding delete_unreferenced_def
proof (rule within_for_each, rule within_bind [OF w_delete_id])
  fix r :: "obj result"
  show "within Inv Rel Evo (\<lambda>s h. \<forall>b. r = Inr b \<longrightarrow> knows b s h \<and> unowned V (obj_key b) s h)
      (case r of Inl e \<Rightarrow> State_Monad.return () | Inr b \<Rightarrow> delete_bytes S b) (\<lambda>r s h. True)"
    by (cases r) (auto intro: within_return within_conseq [OF w_delete_bytes])
qed


lemma w_get_known:
  "within Inv Rel Evo (\<lambda>s h. True) (on_reg (reg_get (sv_registry S) i)) (\<lambda>r s h. \<forall>b. r = Inr b \<longrightarrow> knows b s h)"
  by (rule within_conseq [OF w_get]) auto

lemma w_delete_object: "within Inv Rel Evo (\<lambda>s h. True) (delete_object S i p) (\<lambda>r s h. True)"
  unfolding delete_object_def
proof (rule within_attempt [OF w_get_known])
  fix b
  have del: "within Inv Rel Evo (knows b)
      (attempt (on_reg (reg_delete (sv_registry S) (ob_id b))) (\<lambda>b'. do {
         delete_bytes S b'; State_Monad.return (Inr ()) })) (\<lambda>r s h. True)"
  proof (rule within_attempt [OF w_delete])
    fix b'
    show "within Inv Rel Evo
        (\<lambda>s h. (\<forall>q. Inr b' = Inr q \<longrightarrow> knows q s h \<and> unowned V (obj_key q) s h)
           \<and> (\<forall>e. Inr b' = Inl e \<longrightarrow> errors_is e ErrNotFound \<longrightarrow> unowned V (obj_key b) s h))
        (do { delete_bytes S b'; State_Monad.return (Inr ()) }) (\<lambda>r s h. True)"
      by (rule within_then [OF within_conseq [OF w_delete_bytes]]) (auto intro: within_return)
  qed simp
  show "within Inv Rel Evo (\<lambda>s h. \<forall>q. Inr b = Inr q \<longrightarrow> knows q s h)
      (if ob_prefix b \<noteq> p then State_Monad.return (Inl (invalid_input ''object has the wrong storage prefix''))
       else attempt (on_reg (reg_delete (sv_registry S) (ob_id b))) (\<lambda>b'. do {
         delete_bytes S b'; State_Monad.return (Inr ()) })) (\<lambda>r s h. True)"
    using within_conseq [OF del, of "\<lambda>s h. \<forall>q. Inr b = Inr q \<longrightarrow> knows q s h"] by (auto intro: within_err)
qed simp

subsection \<open>Ingestion\<close>

lemma w_create_pending:
  assumes "\<not> temp_name (normalize_upload_filename fn)" and sl: "sl = Direct \<or> sl = Fresh tk \<and> multi c"
  shows "within Inv Rel Evo (\<lambda>s h. True) (create_pending S p fn c) (reserved c sl)"
proof (cases "prefix_pattern p \<and> validate_upload_filename (normalize_upload_filename fn) = None \<and> validate_content c = None")
  case True
  then have "safe_filename (normalize_upload_filename fn)" "validate_content c = None"
    using validated_filename_safe by auto
  from within_conseq [OF w_create [OF this(1) assms(1) this(2) sl], where Q' = "reserved c sl" and P' = "\<lambda>s h. True"]
  show ?thesis using True by (auto simp: create_pending_def Let_def reserved_def)
next
  case False
  then show ?thesis
    by (auto simp: create_pending_def Let_def reserved_def intro!: within_return split: option.split)
qed

text \<open>A failed reservation is removed and reported as an error.\<close>

lemma w_abandon: "within Inv Rel Evo (\<lambda>s h. True) (abandon S b p e) (\<lambda>r s h. \<exists>j. r = Inl j)"
  unfolding abandon_def by (rule within_then [OF w_delete_object]) (simp add: within_return)

lemma w_abandon_began: "within Inv Rel Evo P (abandon S b p e) (began c)"
  by (rule within_conseq [OF w_abandon]) (auto simp: began_def)

lemma reserved_Inr: "reserved c sl (Inr b) = (\<lambda>s h. knows b s h \<and> obj_content b = Inr c \<and> slotted b sl s h)"
  by (simp add: reserved_def fun_eq_iff)

lemma stable_slotted: "sl = Direct \<or> sl = Fresh tk \<Longrightarrow> stable Inv Rel (slotted b sl)"
  using stable_reserved stable_rely [OF stable_direct] by auto

lemma stable_reserved_Inr:
  assumes "sl = Direct \<or> sl = Fresh tk"
  shows "stable Inv Rel (reserved c sl (Inr b))"
  unfolding reserved_Inr
  by (intro stable_conj stable_const stable_slotted [OF assms] stable_rely [OF stable_knows])

lemma reserved_be: "reserved c sl (Inr b) (d, f) h \<Longrightarrow> reserved c sl (Inr b) (d, f') h"
  by (simp add: reserved_def knows_def slotted_def)

text \<open>The multipart upload of a reserved object.\<close>

lemma w_create_multipart: "within Inv Rel Evo (slotted b (Fresh tk)) (create_multipart S b) (\<lambda>r s h. True)"
proof (cases "be_multipart (sv_backend S)")
  case None
  then show ?thesis by (auto simp: create_multipart_def multipart_of_def intro: within_err)
next
  case (Some m)
  let ?P = "slotted b (Fresh tk)"
  let ?rest = "\<lambda>u. do {
            r \<leftarrow> on_reg (reg_record_upload (sv_registry S) (ob_id b) u);
            case r of
              Inr _ \<Rightarrow> State_Monad.return (Inr ())
            | Inl e \<Rightarrow> do {
                a \<leftarrow> on_be (mp_abort m (obj_key b) u);
                State_Monad.return (Inl (case errors_join (Some e) (err_of a) of Some j \<Rightarrow> j | None \<Rightarrow> e)) } }"
  have create: "within Inv Rel Evo ?P (on_be (mp_create m (obj_key b)))
      (\<lambda>r s h. ?P s h \<and> (\<forall>u. r = Inr u \<longrightarrow> u \<in> iss (snd s)))"
    by (rule w_mp_create [OF Some stable_reserved]) (simp add: slotted_def)
  have undo: "within Inv Rel Evo (\<lambda>s h. True)
      (case r of
              Inr _ \<Rightarrow> State_Monad.return (Inr ())
            | Inl e \<Rightarrow> do {
                a \<leftarrow> on_be (mp_abort m (obj_key b) u);
                State_Monad.return (Inl (case errors_join (Some e) (err_of a) of Some j \<Rightarrow> j | None \<Rightarrow> e)) })
      (\<lambda>r s h. True)" for r :: "unit result" and u
  proof (cases r)
    case (Inl e)
    have "within Inv Rel Evo (\<lambda>s h. True) (do {
                a \<leftarrow> on_be (mp_abort m (obj_key b) u);
                State_Monad.return (Inl (case errors_join (Some e) (err_of a) of Some j \<Rightarrow> j | None \<Rightarrow> e)) })
        (\<lambda>r s h. True)"
      by (rule within_then [OF w_abort [OF Some]]) (rule within_return, simp)
    with Inl show ?thesis by simp
  qed (simp add: within_return)
  have rest: "within Inv Rel Evo (\<lambda>s h. ?P s h \<and> u \<in> iss (snd s)) (?rest u) (\<lambda>r s h. True)" for u
    by (rule within_then [OF w_record undo])
  have "within Inv Rel Evo ?P (attempt (on_be (mp_create m (obj_key b))) ?rest) (\<lambda>r s h. True)"
    by (rule within_attempt [OF create]) (auto intro: within_conseq [OF rest])
  then show ?thesis by (simp add: create_multipart_def multipart_of_def Some)
qed

lemma w_begin_upload:
  assumes "\<not> temp_name (normalize_upload_filename fn)"
  shows "within Inv Rel Evo (\<lambda>s h. True) (begin_upload S p fn c) (began c)"
  unfolding begin_upload_def
proof (rule within_attempt)
  let ?sl = "if multi c then Fresh tk else Direct"
  show "within Inv Rel Evo (\<lambda>s h. True) (create_pending S p fn c) (reserved c ?sl)"
    by (rule w_create_pending [OF assms]) simp
  fix b
  let ?F = "reserved c ?sl (Inr b)"
  let ?next = "\<lambda>a. case a of
         Inl e \<Rightarrow> abandon S b p e
       | Inr action \<Rightarrow>
           if ua_strategy action = StrategyMultipart then do {
             m \<leftarrow> create_multipart S b;
             case m of
               Inl e \<Rightarrow> abandon S b p e
             | Inr _ \<Rightarrow> State_Monad.return (Inr (b, action)) }
           else State_Monad.return (Inr (b, action))"
  have begin': "within Inv Rel Evo ?F (on_be (be_begin_upload (sv_backend S) (obj_key b) c))
      (\<lambda>r s h. ?F s h \<and> (\<forall>a. r = Inr a \<longrightarrow> (ua_strategy a = StrategyMultipart) = multi c))"
    by (rule w_begin [OF stable_reserved_Inr reserved_be]) simp
  have many: "within Inv Rel Evo (reserved c (Fresh tk) (Inr b)) (do {
             m \<leftarrow> create_multipart S b;
             case m of
               Inl e \<Rightarrow> abandon S b p e
             | Inr _ \<Rightarrow> State_Monad.return (Inr (b, a)) }) (began c)" if "ua_strategy a = StrategyMultipart" for a
  proof (rule within_bind)
    show "within Inv Rel Evo (reserved c (Fresh tk) (Inr b)) (create_multipart S b)
        (\<lambda>r s h. knows b s h \<and> obj_content b = Inr c)"
      by (rule within_conseq [OF within_frame [OF w_create_multipart stable_conj [OF stable_knows stable_const]]])
         (auto simp: reserved_def)
    show "within Inv Rel Evo (\<lambda>s h. knows b s h \<and> obj_content b = Inr c)
        (case m of Inl e \<Rightarrow> abandon S b p e | Inr _ \<Rightarrow> State_Monad.return (Inr (b, a))) (began c)" for m :: "unit result"
      using that by (cases m) (auto simp: w_abandon_began began_def intro!: within_return)
  qed
  have one: "within Inv Rel Evo (reserved c Direct (Inr b)) (State_Monad.return (Inr (b, a))) (began c)" for a
    by (rule within_return) (auto simp: began_def reserved_def)
  show "within Inv Rel Evo ?F (do { a \<leftarrow> on_be (be_begin_upload (sv_backend S) (obj_key b) c); ?next a }) (began c)"
  proof (rule within_bind [OF begin'])
    fix r :: "upload_action result"
    show "within Inv Rel Evo (\<lambda>s h. ?F s h \<and> (\<forall>a. r = Inr a \<longrightarrow> (ua_strategy a = StrategyMultipart) = multi c))
        (?next r) (began c)"
    proof (cases r)
      case (Inl e)
      then show ?thesis by (simp add: w_abandon_began)
    next
      case (Inr a)
      show ?thesis
      proof (rule within_facts [where b = "(ua_strategy a = StrategyMultipart) = multi c"])
        assume k: "(ua_strategy a = StrategyMultipart) = multi c"
        show "within Inv Rel Evo (\<lambda>s h. ?F s h \<and> (\<forall>a. r = Inr a \<longrightarrow> (ua_strategy a = StrategyMultipart) = multi c))
            (?next r) (began c)"
          using k within_conseq [OF many] within_conseq [OF one] by (cases "multi c") (simp_all add: Inr)
      qed (simp add: Inr)
    qed
  qed
qed (simp add: began_def)

lemma stable_taken: "stable Inv Evo (reserved c Direct (Inr b))"
  unfolding reserved_Inr by (intro stable_conj stable_const stable_knows stable_direct)

lemma w_begin_direct:
  assumes "\<not> temp_name (normalize_upload_filename fn)"
  shows "within Inv Rel Evo (\<lambda>s h. True) (begin_direct S p fn c) (began c)"
  unfolding begin_direct_def
proof (rule within_attempt [OF w_create_pending [OF assms disjI1 [OF refl]]])
  fix b
  show "within Inv Rel Evo (reserved c Direct (Inr b)) (do {
       t \<leftarrow> on_be (be_presign_put (sv_backend S) (obj_key b) c 0);
       case t of
         Inl e \<Rightarrow> abandon S b p e
       | Inr target \<Rightarrow>
           State_Monad.return (Inr (b, \<lparr>ua_strategy = StrategyDirectPut, ua_target = Some target\<rparr>)) }) (began c)"
  proof (rule within_bind [OF w_keep [OF w_presign_put stable_taken]])
    fix r :: "upload_target result"
    show "within Inv Rel Evo (reserved c Direct (Inr b))
        (case r of Inl e \<Rightarrow> abandon S b p e
         | Inr target \<Rightarrow>
             State_Monad.return (Inr (b, \<lparr>ua_strategy = StrategyDirectPut, ua_target = Some target\<rparr>))) (began c)"
      by (cases r) (auto simp: w_abandon_began began_def reserved_def intro!: within_return)
  qed
qed (simp add: began_def)

end

context bloby_stores
begin

subsection \<open>Publication\<close>

lemma w_mark_available:
  assumes "obj_content b = Inr c"
  shows "within Inv Rel Evo (\<lambda>s h. knows b s h \<and> arrived V fits stored b s h) (mark_available S b ct) (published fits stored opn c)"
proof (cases "normalize_content_type (sv_mime S) ct")
  case (Inl e)
  then show ?thesis by (auto simp: mark_available_def published_def intro: within_err)
next
  case (Inr ct')
  have "within Inv Rel Evo (\<lambda>s h. knows b s h \<and> arrived V fits stored b s h)
      (on_reg (reg_mark_available (sv_registry S) (ob_id b) ct' (obj_key b))) (published fits stored opn c)"
    by (rule within_conseq [OF w_mark]) (simp_all add: published_def assms)
  with Inr show ?thesis by (simp add: mark_available_def)
qed

lemma w_write_undo: "within Inv Rel Evo (knows b) (write_undo S b e) (published fits stored opn c)"
proof -
  have "within Inv Rel Evo (knows b) (on_reg (reg_delete (sv_registry S) (ob_id b)))
      (\<lambda>r s h. ((\<forall>b. r = Inr b \<longrightarrow> knows b s h \<and> unowned V (obj_key b) s h)
          \<and> (\<forall>e. r = Inl e \<longrightarrow> errors_is e ErrNotFound \<longrightarrow> unowned V (obj_key b) s h)) \<and> knows b s h)"
    by (rule within_conseq [OF within_frame [OF w_delete stable_knows [where b = b]]]) auto
  then show ?thesis
    unfolding write_undo_def
  proof (rule within_bind)
    fix d :: "obj result"
    show "within Inv Rel Evo
        (\<lambda>s h. ((\<forall>b. d = Inr b \<longrightarrow> knows b s h \<and> unowned V (obj_key b) s h)
            \<and> (\<forall>e. d = Inl e \<longrightarrow> errors_is e ErrNotFound \<longrightarrow> unowned V (obj_key b) s h)) \<and> knows b s h)
        (do { (case d of
                Inr deleted \<Rightarrow> delete_bytes S deleted
              | Inl de \<Rightarrow> if errors_is de ErrNotFound then delete_bytes S b else State_Monad.return ());
             State_Monad.return (Inl e) }) (published fits stored opn c)"
    proof (rule within_then)
      show "within Inv Rel Evo
        (\<lambda>s h. ((\<forall>b. d = Inr b \<longrightarrow> knows b s h \<and> unowned V (obj_key b) s h)
            \<and> (\<forall>e. d = Inl e \<longrightarrow> errors_is e ErrNotFound \<longrightarrow> unowned V (obj_key b) s h)) \<and> knows b s h)
        (case d of Inr deleted \<Rightarrow> delete_bytes S deleted
          | Inl de \<Rightarrow> if errors_is de ErrNotFound then delete_bytes S b else State_Monad.return ()) (\<lambda>r s h. True)"
        by (cases d) (auto intro: within_return within_conseq [OF w_delete_bytes])
      show "within Inv Rel Evo (\<lambda>s h. True) (State_Monad.return (Inl e)) (published fits stored opn c)" for r :: unit
        by (rule within_err) (simp add: published_def)
    qed
  qed
qed

lemma w_write_publish:
  assumes "obj_content b = Inr c"
  shows "within Inv Rel Evo (\<lambda>s h. knows b s h \<and> arrived V fits stored b s h) (write_publish S b ct) (published fits stored opn c)"
proof -
  have "within Inv Rel Evo (\<lambda>s h. knows b s h \<and> arrived V fits stored b s h) (mark_available S b ct)
      (\<lambda>r s h. published fits stored opn c r s h \<and> knows b s h)"
    by (rule within_conseq [OF within_frame [OF w_mark_available [OF assms] stable_knows [where b = b]]]) auto
  then show ?thesis
    unfolding write_publish_def
  proof (rule within_bind)
    fix m
    show "within Inv Rel Evo (\<lambda>s h. published fits stored opn c m s h \<and> knows b s h)
        (case m of Inl e \<Rightarrow> write_undo S b e | Inr q \<Rightarrow> State_Monad.return (Inr q)) (published fits stored opn c)"
      by (cases m) (auto intro: within_return within_conseq [OF w_write_undo])
  qed
qed

lemma w_write_object:
  assumes "\<not> temp_name (normalize_upload_filename fn)" and c: "digest (sv_hashes S) (bytes_reader body) = Inr c"
  shows "within Inv Rel Evo (\<lambda>s h. True) (write_object S p fn ct body) (published fits stored opn c)"
proof (cases "normalize_content_type (sv_mime S) ct")
  case (Inl e)
  then show ?thesis by (auto simp: write_object_def published_def intro: within_err)
next
  case (Inr ct')
  show ?thesis
    unfolding write_object_def Inr c sum.case
  proof (rule within_attempt [OF w_create_pending [OF assms(1) disjI1 [OF refl]]])
    fix b :: obj
    let ?put = "on_be (be_put (sv_backend S) (obj_key b) (bytes_reader body) c \<lparr>po_ctype = ct'\<rparr>)"
    let ?rest = "\<lambda>w. case w of
           Inl e \<Rightarrow> do { delete_unreferenced S [ob_id b]; State_Monad.return (Inl e) }
         | Inr _ \<Rightarrow> write_publish S b ct'"
    show "within Inv Rel Evo (reserved c Direct (Inr b)) (do { w \<leftarrow> ?put; ?rest w }) (published fits stored opn c)"
    proof (rule within_facts [where b = "obj_content b = Inr c"])
      assume b: "obj_content b = Inr c"
      have m: "matches (sv_hashes S) c (rd_bytes (bytes_reader body))"
        using digest_matches [OF c] by (simp add: bytes_reader_def)
      have "within Inv Rel Evo (reserved c Direct (Inr b)) ?put
          (\<lambda>r s h. (\<forall>x. r = Inr x \<longrightarrow> arrived V fits stored b s h) \<and> knows b s h)"
        by (rule within_conseq [OF within_frame [OF w_put [OF b m] stable_knows [where b = b]]])
           (auto simp: reserved_def)
      then show ?thesis
      proof (rule within_bind)
        fix w :: "unit result"
        have "within Inv Rel Evo P (do { delete_unreferenced S [ob_id b]; State_Monad.return (Inl e) }) (published fits stored opn c)" for P e
          by (rule within_then [OF within_pre [OF w_delete_unreferenced]], rule within_err) (simp add: published_def)
        then show "within Inv Rel Evo (\<lambda>s h. (\<forall>x. w = Inr x \<longrightarrow> arrived V fits stored b s h) \<and> knows b s h) (?rest w) (published fits stored opn c)"
          by (cases w) (auto intro: within_conseq [OF w_write_publish [OF b]])
      qed
    qed (simp add: reserved_def)
  qed (simp add: published_def reserved_def)
qed

subsection \<open>Finalisation\<close>

lemma w_inspect:
  assumes "obj_content b = Inr c"
  shows "within Inv Rel Evo (knows b) (inspect S (obj_key b) c)
    (\<lambda>r s h. \<forall>x. r = Inr x \<longrightarrow> knows b s h \<and> arrived V fits stored b s h)"
proof -
  let ?A = "\<lambda>s h. knows b s h \<and> arrived V fits stored b s h"
  have "within Inv Rel Evo (knows b) (on_be (be_verify (sv_backend S) (obj_key b) c))
      (\<lambda>r s h. \<forall>x. r = Inr x \<longrightarrow> ?A s h)"
    by (rule within_conseq [OF within_frame [OF w_verify [OF assms] stable_knows [where b = b]]]) auto
  then show ?thesis
    unfolding inspect_def
  proof (rule within_attempt)
    fix u :: unit
    have "within Inv Rel Evo ?A (on_be (be_head (sv_backend S) (obj_key b) head_bytes)) (\<lambda>r. ?A)"
      by (rule w_keep [OF w_head stable_arrived])
    then have head: "within Inv Rel Evo ?A (on_be (be_head (sv_backend S) (obj_key b) head_bytes))
        (\<lambda>r s h. \<forall>x. r = Inr x \<longrightarrow> ?A s h)"
      by (rule within_conseq) auto
    show "within Inv Rel Evo (\<lambda>s h. \<forall>x. Inr u = Inr x \<longrightarrow> ?A s h)
        (if c_size c = 0 then State_Monad.return (Inr '''') else on_be (be_head (sv_backend S) (obj_key b) head_bytes))
        (\<lambda>r s h. \<forall>x. r = Inr x \<longrightarrow> ?A s h)"
      using within_conseq [OF head, of "\<lambda>s h. \<forall>x. Inr u = Inr x \<longrightarrow> ?A s h"] by (auto intro: within_return)
  qed simp
qed

lemma finalized_err [simp]: "finalized fits stored opn (Inl e) s h"
  by (simp add: finalized_def)

text \<open>The completion of the upload that the row names.\<close>

lemma w_complete_multipart:
  assumes u: "ob_upload b = Some u"
  shows "within Inv Rel Evo (knows b) (complete_multipart S b u c) (\<lambda>r. knows b)"
proof (cases "be_multipart (sv_backend S)")
  case None
  then show ?thesis by (auto simp: complete_multipart_def multipart_of_def intro: within_return)
next
  case (Some m)
  have clear: "within Inv Rel Evo (knows b) (on_reg (reg_clear_upload (sv_registry S) (ob_id b) u)) (\<lambda>r. knows b)"
    by (rule w_keep [OF w_clear stable_knows])
  have did: "within Inv Rel Evo (knows b) (on_be (mp_complete m (obj_key b) u (c_size c))) (\<lambda>r. knows b)"
    by (rule within_conseq [OF within_frame [OF w_complete [OF Some u] stable_knows [where b = b]]]) auto
  have "within Inv Rel Evo (knows b) (do {
          r \<leftarrow> on_be (mp_complete m (obj_key b) u (c_size c));
          case r of
            Inl e \<Rightarrow>
              if \<not> errors_is e ErrMultipartUploadNotFound then State_Monad.return (Inl e)
              else on_reg (reg_clear_upload (sv_registry S) (ob_id b) u)
          | Inr _ \<Rightarrow> on_reg (reg_clear_upload (sv_registry S) (ob_id b) u) }) (\<lambda>r. knows b)"
  proof (rule within_bind [OF did])
    fix r :: "unit result"
    show "within Inv Rel Evo (knows b)
        (case r of
            Inl e \<Rightarrow>
              if \<not> errors_is e ErrMultipartUploadNotFound then State_Monad.return (Inl e)
              else on_reg (reg_clear_upload (sv_registry S) (ob_id b) u)
          | Inr _ \<Rightarrow> on_reg (reg_clear_upload (sv_registry S) (ob_id b) u)) (\<lambda>r. knows b)"
      by (cases r) (auto simp: clear intro: within_return)
  qed
  then show ?thesis by (simp add: complete_multipart_def multipart_of_def Some)
qed

lemma w_finalize_pending: "within Inv Rel Evo (knows b) (finalize_pending S b) (finalized fits stored opn)"
proof (cases "obj_content b")
  case (Inl e)
  then show ?thesis by (auto simp: finalize_pending_def intro: within_err)
next
  case c: (Inr c)
  let ?A = "\<lambda>s h. knows b s h \<and> arrived V fits stored b s h"
  have mark: "within Inv Rel Evo ?A (mark_available S b ct) (finalized fits stored opn)" for ct
    by (rule within_conseq [OF w_mark_available [OF c]]) (auto simp: published_def finalized_def)
  have main: "within Inv Rel Evo (knows b) (do {
            h \<leftarrow> inspect S (obj_key b) c;
            case h of
              Inl e \<Rightarrow>
                if errors_is e ErrObjectNotFound
                then State_Monad.return (Inl (Wrap ''upload has not arrived'' [Sentinel ErrInvalidInput, e]))
                else State_Monad.return (Inl e)
            | Inr head \<Rightarrow> mark_available S b (mi_detect (sv_mime S) head) }) (finalized fits stored opn)"
  proof (rule within_bind [OF w_inspect [OF c]])
    fix r :: "string result"
    show "within Inv Rel Evo (\<lambda>s h. \<forall>x. r = Inr x \<longrightarrow> ?A s h)
        (case r of
           Inl e \<Rightarrow>
             if errors_is e ErrObjectNotFound
             then State_Monad.return (Inl (Wrap ''upload has not arrived'' [Sentinel ErrInvalidInput, e]))
             else State_Monad.return (Inl e)
         | Inr head \<Rightarrow> mark_available S b (mi_detect (sv_mime S) head)) (finalized fits stored opn)"
      by (cases r) (auto intro: within_err within_conseq [OF mark])
  qed
  show ?thesis
    unfolding finalize_pending_def c sum.case
  proof (rule within_attempt)
    show "within Inv Rel Evo (knows b)
        (case ob_upload b of None \<Rightarrow> State_Monad.return (Inr ()) | Some u \<Rightarrow> complete_multipart S b u c) (\<lambda>r. knows b)"
      by (cases "ob_upload b") (auto intro: within_return w_complete_multipart)
  qed (simp_all add: main)
qed

end

context bloby_stores
begin

lemma w_finalize: "within Inv Rel Evo (\<lambda>s h. True) (finalize S i p) (finalized fits stored opn)"
  unfolding finalize_def
proof (rule within_attempt [OF w_get])
  fix b :: obj
  let ?retry = "\<lambda>e. do {
       cur \<leftarrow> on_reg (reg_get (sv_registry S) i);
       case cur of
         Inr current \<Rightarrow>
           if available current then State_Monad.return (Inr current) else State_Monad.return (Inl e)
       | Inl _ \<Rightarrow> State_Monad.return (Inl e) }"
  let ?rest = "\<lambda>r. case r of
       Inr b' \<Rightarrow> finalize_pending S b'
     | Inl e \<Rightarrow> if errors_is e ErrNotFound then ?retry e else State_Monad.return (Inl e)"
  have retry: "within Inv Rel Evo (\<lambda>s h. True) (?retry e) (finalized fits stored opn)" for e
  proof (rule within_bind [OF w_get])
    fix cur :: "obj result"
    show "within Inv Rel Evo (\<lambda>s h. \<forall>b. cur = Inr b \<longrightarrow>
          knows b s h \<and> (available b \<longrightarrow> settled fits stored opn b s h))
        (case cur of
           Inr current \<Rightarrow>
             if available current then State_Monad.return (Inr current) else State_Monad.return (Inl e)
         | Inl _ \<Rightarrow> State_Monad.return (Inl e)) (finalized fits stored opn)"
      by (cases cur) (auto simp: finalized_def intro!: within_return)
  qed
  have pend: "within Inv Rel Evo (\<lambda>s h. True) (do { r \<leftarrow> on_reg (reg_refresh_pending (sv_registry S) j); ?rest r }) (finalized fits stored opn)" for j
  proof (rule within_bind [OF w_refresh])
    fix r :: "obj result"
    show "within Inv Rel Evo (\<lambda>s h. \<forall>b. r = Inr b \<longrightarrow> knows b s h) (?rest r) (finalized fits stored opn)"
      by (cases r) (auto intro: within_err within_pre [OF retry] within_conseq [OF w_finalize_pending])
  qed
  have got: "within Inv Rel Evo (\<lambda>s h. \<forall>q. Inr b = Inr q \<longrightarrow>
        knows q s h \<and> (available q \<longrightarrow> settled fits stored opn q s h)) (State_Monad.return (Inr b)) (finalized fits stored opn)"
    if "available b"
    using that by (auto simp: finalized_def intro!: within_return)
  show "within Inv Rel Evo (\<lambda>s h. \<forall>q. Inr b = Inr q \<longrightarrow>
        knows q s h \<and> (available q \<longrightarrow> settled fits stored opn q s h))
      (if ob_prefix b \<noteq> p then State_Monad.return (Inl (invalid_input ''object has the wrong storage prefix''))
       else if available b then State_Monad.return (Inr b)
       else do { r \<leftarrow> on_reg (reg_refresh_pending (sv_registry S) (ob_id b)); ?rest r }) (finalized fits stored opn)"
  proof (cases "ob_prefix b \<noteq> p")
    case True
    then show ?thesis by (auto intro: within_err)
  next
    case False
    then show ?thesis using got within_pre [OF pend] by (cases "available b") simp_all
  qed
qed simp

subsection \<open>Cleanup\<close>

lemma w_sweep_keys:
  "within Inv Rel Evo (\<lambda>s h. \<forall>k \<in> set batch. listed (sv_backend S) okb k \<and> seen_key k s h) (sweep_keys S batch) (\<lambda>r s h. True)"
proof (rule within_facts [where b = "\<forall>k \<in> set batch. listed (sv_backend S) okb k"])
  assume l: "\<forall>k \<in> set batch. listed (sv_backend S) okb k"
  let ?del = "\<lambda>own k. case owner_id k of
        None \<Rightarrow> State_Monad.return ()
      | Some i \<Rightarrow>
          if owned_key own i k then State_Monad.return ()
          else do { on_be (be_delete (sv_backend S) k); State_Monad.return () }"
  let ?free = "\<lambda>own s h. \<forall>k \<in> set batch. \<forall>i. owner_id k = Some i \<longrightarrow> \<not> owned_key own i k \<longrightarrow> unowned V k s h"
  have free: "stable Inv Evo (?free own)" for own
    using stable_unowned unfolding stable_def by blast
  have one: "within Inv Rel Evo (?free own) (?del own k) (\<lambda>r. ?free own)" if k: "k \<in> set batch" for own k
  proof (cases "\<exists>i. owner_id k = Some i \<and> \<not> owned_key own i k")
    case True
    then obtain i where i: "owner_id k = Some i" "\<not> owned_key own i k" by blast
    have lk: "object_key k \<or> listed (sv_backend S) okb k" using l k by blast
    have "within Inv Rel Evo (\<lambda>s h. unowned V k s h \<and> ?free own s h) (on_be (be_delete (sv_backend S) k)) (\<lambda>r. ?free own)"
      by (rule within_conseq [OF within_frame [OF w_be_delete [OF lk] free [of own]]]) auto
    then have "within Inv Rel Evo (?free own) (on_be (be_delete (sv_backend S) k)) (\<lambda>r. ?free own)"
      by (rule within_conseq) (use k i in blast)+
    then have "within Inv Rel Evo (?free own)
        (do { on_be (be_delete (sv_backend S) k); State_Monad.return () }) (\<lambda>r. ?free own)"
      by (rule within_bind) (auto intro: within_return)
    with i show ?thesis by simp
  next
    case False
    then show ?thesis by (auto intro: within_return split: option.split)
  qed
  have "within Inv Rel Evo (\<lambda>s h. \<forall>k \<in> set batch. seen_key k s h) (sweep_keys S batch) (\<lambda>r s h. True)"
    unfolding sweep_keys_def
  proof (rule within_bind [OF w_owners])
    fix r :: "(int \<times> obj) list result"
    show "within Inv Rel Evo (\<lambda>s h. \<forall>own. r = Inr own \<longrightarrow> ?free own s h)
        (case r of Inl e \<Rightarrow> State_Monad.return () | Inr own \<Rightarrow> for_each (?del own) batch) (\<lambda>r s h. True)"
    proof (cases r)
      case (Inl e)
      then show ?thesis by (auto intro: within_return)
    next
      case (Inr own)
      have "within Inv Rel Evo (?free own) (for_each (?del own) batch) (\<lambda>r. ?free own)"
        by (rule within_for_each) (rule one)
      from within_conseq [OF this, of "\<lambda>s h. \<forall>own. r = Inr own \<longrightarrow> ?free own s h" "\<lambda>r s h. True"] Inr
      show ?thesis by simp
    qed
  qed
  then show "within Inv Rel Evo (\<lambda>s h. \<forall>k \<in> set batch. listed (sv_backend S) okb k \<and> seen_key k s h)
      (sweep_keys S batch) (\<lambda>r s h. True)"
    by (rule within_conseq) auto
qed blast

lemma w_sweep_uploads:
  assumes m: "be_multipart (sv_backend S) = Some m"
  shows "within Inv Rel Evo (\<lambda>s h. True) (sweep_uploads S m batch) (\<lambda>r s h. True)"
  unfolding sweep_uploads_def
proof (rule within_then)
  have own: "within Inv Rel Evo (\<lambda>s h. True) (on_reg (reg_list_by_ids (sv_registry S) ids)) (\<lambda>r s h. True)" for ids
    by (rule w_reg_same [OF list_ids_any nx_list_ids])
  show "within Inv Rel Evo (\<lambda>s h. True) (owners S (map mu_key batch)) (\<lambda>r s h. True)"
    unfolding owners_def Let_def by (simp add: own within_return)
  fix own :: "(int \<times> obj) list result"
  have "within Inv Rel Evo (\<lambda>s h. True)
      (do { on_be (mp_abort m k u); State_Monad.return () }) (\<lambda>r s h. True)" for k u
    by (rule within_then [OF w_abort [OF m]]) (simp add: within_return)
  then show "within Inv Rel Evo (\<lambda>s h. True)
      (case own of
         Inl e \<Rightarrow> State_Monad.return ()
       | Inr own \<Rightarrow> for_each (\<lambda>u.
           if owned_upload own u then State_Monad.return ()
           else do { on_be (mp_abort m (mu_key u) (mu_id u)); State_Monad.return () }) batch) (\<lambda>r s h. True)"
    by (cases own) (auto intro!: within_return within_for_each)
qed

lemma w_sweep_objects:
  "within Inv Rel Evo (\<lambda>s h. \<forall>k \<in> set ks. listed (sv_backend S) okb k \<and> seen_key k s h)
     (for_each (sweep_keys S) (chunk (nat cleanup_batch) ks)) (\<lambda>r s h. True)"
proof -
  let ?P = "\<lambda>s h. \<forall>k \<in> set ks. listed (sv_backend S) okb k \<and> seen_key k s h"
  have stab: "stable Inv Evo ?P"
    by (intro stable_all stable_conj stable_const stable_seen)
  have "within Inv Rel Evo ?P (sweep_keys S b) (\<lambda>r. ?P)" if b: "b \<in> set (chunk (nat cleanup_batch) ks)" for b
  proof -
    have "set b \<subseteq> set (concat (chunk (nat cleanup_batch) ks))" using b by auto
    then have sub: "set b \<subseteq> set ks" by (simp add: chunk_concat cleanup_batch_def)
    show ?thesis
      by (rule within_conseq [OF within_frame [OF w_sweep_keys [of b] stab]]) (use sub in blast)+
  qed
  then have "within Inv Rel Evo ?P (for_each (sweep_keys S) (chunk (nat cleanup_batch) ks)) (\<lambda>r. ?P)"
    by (rule within_for_each)
  then show ?thesis by (rule within_conseq) auto
qed

lemma w_sweep_orphans: "within Inv Rel Evo (\<lambda>s h. True) (sweep_orphans S before) (\<lambda>r s h. True)"
  unfolding sweep_orphans_def
proof (rule within_bind [OF w_list], rule within_then [OF w_sweep_objects])
  show "within Inv Rel Evo (\<lambda>s h. True)
      (case be_multipart (sv_backend S) of
         None \<Rightarrow> State_Monad.return ()
       | Some m \<Rightarrow> do {
           u \<leftarrow> on_be (mp_expired_uploads m before);
           for_each (sweep_uploads S m)
             (chunk (nat cleanup_batch) (case u of Inl _ \<Rightarrow> [] | Inr us \<Rightarrow> us)) }) (\<lambda>r s h. True)"
  proof (cases "be_multipart (sv_backend S)")
    case (Some m)
    have "within Inv Rel Evo (\<lambda>s h. True) (do {
           u \<leftarrow> on_be (mp_expired_uploads m before);
           for_each (sweep_uploads S m)
             (chunk (nat cleanup_batch) (case u of Inl _ \<Rightarrow> [] | Inr us \<Rightarrow> us)) }) (\<lambda>r s h. True)"
      by (rule within_then [OF w_uploads [OF Some]], rule within_for_each, rule w_sweep_uploads [OF Some])
    with Some show ?thesis by simp
  qed (simp add: within_return)
qed

lemma w_sweep_unreferenced: "within Inv Rel Evo (\<lambda>s h. True) (sweep_unreferenced S before) (\<lambda>r s h. True)"
  unfolding sweep_unreferenced_def
  using within_then [OF w_unref w_delete_unreferenced] by (auto intro: within_return)

lemma w_sweep_expired: "within Inv Rel Evo (\<lambda>s h. True) (sweep_expired_uploads S now) (\<lambda>r s h. True)"
proof -
  let ?claim = "on_reg (reg_claim_expired (sv_registry S) (now - pending_upload_max_age (sv_ttl S)) (now - hour) cleanup_batch)"
  let ?one = "\<lambda>b. do {
            e \<leftarrow> remove_bytes S b;
            case e of
              None \<Rightarrow> do { on_reg (reg_delete_expired (sv_registry S) (ob_id b)); State_Monad.return () }
            | Some _ \<Rightarrow> State_Monad.return () }"
  let ?P = "\<lambda>bs s h. \<forall>b \<in> set bs. knows b s h \<and> unowned V (obj_key b) s h"
  have stab: "stable Inv Evo (?P bs)" for bs
    by (intro stable_all stable_conj stable_knows stable_unowned)
  have one: "within Inv Rel Evo (?P bs) (?one b) (\<lambda>r. ?P bs)" if b: "b \<in> set bs" for b bs
  proof -
    have "within Inv Rel Evo (?P bs) (remove_bytes S b) (\<lambda>r. ?P bs)"
      by (rule within_conseq [OF within_frame [OF w_remove_bytes [of b] stab [of bs]]]) (use b in blast)+
    then show ?thesis
    proof (rule within_bind)
      fix e :: "goerr option"
      show "within Inv Rel Evo (?P bs)
          (case e of
              None \<Rightarrow> do { on_reg (reg_delete_expired (sv_registry S) (ob_id b)); State_Monad.return () }
            | Some _ \<Rightarrow> State_Monad.return ()) (\<lambda>r. ?P bs)"
        using within_bind [OF w_keep [OF w_purge stab [of bs]] within_return [of "?P bs" "\<lambda>r. ?P bs" "()"]]
        by (auto intro: within_return split: option.split)
    qed
  qed
  have loop: "within Inv Rel Evo (\<lambda>s h. \<forall>bs. l = Inr bs \<longrightarrow> ?P bs s h)
      (for_each ?one (case l of Inl _ \<Rightarrow> [] | Inr bs \<Rightarrow> bs)) (\<lambda>r s h. True)" for l :: "obj list result"
  proof (cases l)
    case (Inl e)
    then show ?thesis by (auto intro: within_return)
  next
    case (Inr bs)
    have "within Inv Rel Evo (?P bs) (for_each ?one bs) (\<lambda>r. ?P bs)"
      by (rule within_for_each) (rule one)
    from within_conseq [OF this, of "\<lambda>s h. \<forall>bs. l = Inr bs \<longrightarrow> ?P bs s h" "\<lambda>r s h. True"] Inr show ?thesis by simp
  qed
  show ?thesis
    unfolding sweep_expired_uploads_def Let_def
    by (rule within_bind [OF w_claim], rule within_then [OF loop], rule within_then [OF w_sweep_unreferenced])
       (rule w_sweep_orphans)
qed

lemma w_run_cleanup: "within Inv Rel Evo (\<lambda>s h. True) (run_cleanup S ticks) (\<lambda>r s h. True)"
  unfolding run_cleanup_def by (rule within_for_each) (rule w_sweep_expired)

subsection \<open>Reads\<close>

lemma w_get_by_id:
  "within Inv Rel Evo (\<lambda>s h. True) (get_by_id S i)
     (\<lambda>r s h. \<forall>b. r = Inr b \<longrightarrow> knows b s h \<and> (available b \<longrightarrow> settled fits stored opn b s h))"
  unfolding get_by_id_def by (rule w_get)

text \<open>An object read from the service opens to the bytes it declared, or not at all.\<close>

lemma w_open_object:
  assumes c: "obj_content b = Inr c"
  shows "within Inv Rel Evo (\<lambda>s h. knows b s h \<and> (available b \<longrightarrow> settled fits stored opn b s h)) (open_object S b)
    (\<lambda>r s h. \<forall>rd. r = Inr rd \<longrightarrow> reads_fit fits c rd)"
proof (cases "available b")
  case True
  show ?thesis
  proof (rule within_facts [where b = "obj_ok b"])
    assume "obj_ok b"
    with True have "obj_stored_key b = obj_key b"
      by (auto simp: obj_ok_def obj_stored_key_def obj_key_def split: option.split)
    with w_open [OF c] True
    show "within Inv Rel Evo (\<lambda>s h. knows b s h \<and> (available b \<longrightarrow> settled fits stored opn b s h)) (open_object S b)
        (\<lambda>r s h. \<forall>rd. r = Inr rd \<longrightarrow> reads_fit fits c rd)"
      by (simp add: open_object_def)
  qed (simp add: knows_def)
next
  case False
  then show ?thesis by (auto simp: open_object_def intro: within_err)
qed

end

context bloby_stores
begin

lemma w_list_by_ids: "within Inv Rel Evo (\<lambda>s h. True) (list_by_ids S ids) (\<lambda>r s h. True)"
  unfolding list_by_ids_def by (rule w_reg_same [OF list_ids_any nx_list_ids])

lemma w_list_by_prefix: "within Inv Rel Evo (\<lambda>s h. True) (list_by_prefix S p opts) (\<lambda>r s h. True)"
  unfolding list_by_prefix_def Let_def
  using w_reg_same [OF list_prefix_any nx_list_prefix] by (auto intro: within_err)

lemma w_download_url: "within Inv Rel Evo (\<lambda>s h. True) (download_url S b ttl cache) (\<lambda>r s h. True)"
  unfolding download_url_def using w_presign_get by (auto intro: within_err)

lemma w_presign_part: "within Inv Rel Evo (\<lambda>s h. True) (presign_multipart_part S i p n crc) (\<lambda>r s h. True)"
proof (cases "be_multipart (sv_backend S)")
  case None
  then show ?thesis by (auto simp: presign_multipart_part_def multipart_of_def intro: within_err)
next
  case (Some m)
  have sign: "within Inv Rel Evo P
      (case ob_upload q of
         None \<Rightarrow> State_Monad.return (Inl (invalid_input ''object has no multipart upload''))
       | Some u \<Rightarrow> on_be (mp_presign_part m (obj_key q) u n crc 0)) (\<lambda>r s h. True)" for P q
    using within_pre [OF w_mp_presign [OF Some]] by (cases "ob_upload q") (auto intro: within_err)
  have step: "within Inv Rel Evo (\<lambda>s h. True) (attempt (on_reg (reg_refresh_pending (sv_registry S) j)) (\<lambda>q.
      case ob_upload q of
         None \<Rightarrow> State_Monad.return (Inl (invalid_input ''object has no multipart upload''))
       | Some u \<Rightarrow> on_be (mp_presign_part m (obj_key q) u n crc 0))) (\<lambda>r s h. True)" for j
    by (rule within_attempt [OF w_refresh _ sign]) simp
  show ?thesis
    unfolding presign_multipart_part_def multipart_of_def Some option.case sum.case
    by (auto intro!: within_err within_attempt [OF w_get] within_pre [OF step])
qed

lemma w_open_any: "within Inv Rel Evo (\<lambda>s h. True) (open_object S b) (\<lambda>r s h. True)"
  unfolding open_object_def using w_same [OF open_any up_open] by (auto intro: within_err)

lemma w_write_any:
  assumes "\<not> temp_name (normalize_upload_filename fn)"
  shows "within Inv Rel Evo (\<lambda>s h. True) (write_object S p fn ct body) (\<lambda>r s h. True)"
proof -
  obtain c where "digest (sv_hashes S) (bytes_reader body) = Inr c" by (auto simp: digest_def)
  from within_weaken [OF w_write_object [OF assms this]] show ?thesis .
qed

end

end
