(* ===== verification/Serving.thy ===== *)
theory Serving
  imports Requests
begin

text \<open>
  Requests as values, and what they hand out: the grants that the holder of an upload's target
  may redeem at the backend. Any request stays within the rely, whatever its arguments, and hands
  out only grants for objects whose bytes arrive in one piece.
\<close>

subsection \<open>Requests\<close>

datatype request =
    Begin string string content
  | BeginDirect string string content
  | Write string string string string
  | Finalize int string
  | PresignPart int string int string
  | DeleteObject int string
  | DeleteUnreferenced "int list"
  | Cleanup "int list"
  | GetByID int
  | ListByIDs "int list"
  | ListByPrefix string list_options
  | Download obj int string
  | Open obj

text \<open>
  What a request hands out: the target of an upload in one piece addresses the object's key with
  the declared content.
\<close>

definition grant :: "content \<Rightarrow> (obj \<times> upload_action) result \<Rightarrow> (string \<times> content) set" where
  "grant c r = (case r of Inl _ \<Rightarrow> {}
     | Inr (b, a) \<Rightarrow> if ua_strategy a = StrategyMultipart then {} else {(obj_key b, c)})"

definition no_grant :: "('w, 'a) state \<Rightarrow> ('w, (string \<times> content) set) state" where
  "no_grant m = do { m; State_Monad.return {} }"

fun serve :: "('d, 'f) service \<Rightarrow> request \<Rightarrow> ('d, 'f, (string \<times> content) set) oper" where
  "serve S (Begin p fn c) = do { r \<leftarrow> begin_upload S p fn c; State_Monad.return (grant c r) }"
| "serve S (BeginDirect p fn c) = do { r \<leftarrow> begin_direct S p fn c; State_Monad.return (grant c r) }"
| "serve S (Write p fn ct body) = no_grant (write_object S p fn ct body)"
| "serve S (Finalize i p) = no_grant (finalize S i p)"
| "serve S (PresignPart i p n crc) = no_grant (presign_multipart_part S i p n crc)"
| "serve S (DeleteObject i p) = no_grant (delete_object S i p)"
| "serve S (DeleteUnreferenced ids) = no_grant (delete_unreferenced S ids)"
| "serve S (Cleanup ticks) = no_grant (run_cleanup S ticks)"
| "serve S (GetByID i) = no_grant (get_by_id S i)"
| "serve S (ListByIDs ids) = no_grant (list_by_ids S ids)"
| "serve S (ListByPrefix p opts) = no_grant (list_by_prefix S p opts)"
| "serve S (Download b ttl cache) = no_grant (download_url S b ttl cache)"
| "serve S (Open b) = no_grant (open_object S b)"

text \<open>File names of the form of the file store's temporary files are outside the theory.\<close>

fun admissible :: "request \<Rightarrow> bool" where
  "admissible (Begin _ fn _) = (\<not> temp_name (normalize_upload_filename fn))"
| "admissible (BeginDirect _ fn _) = (\<not> temp_name (normalize_upload_filename fn))"
| "admissible (Write _ fn _ _) = (\<not> temp_name (normalize_upload_filename fn))"
| "admissible _ = True"

subsection \<open>Grants\<close>

text \<open>A grant may be redeemed with any declaration of the same size and SHA-256.\<close>

definition granted :: "(string \<times> content) set \<Rightarrow> string \<Rightarrow> content \<Rightarrow> bool" where
  "granted G k c \<longleftrightarrow> (\<exists>c0. (k, c0) \<in> G \<and> c_size c0 = c_size c \<and> c_sha256 c0 = c_sha256 c)"

lemma declared_granted: "promised G h \<Longrightarrow> granted G k c \<Longrightarrow> declared h k c"
  unfolding promised_def granted_def declared_def by fastforce

lemma matches_same: "matches H c b \<Longrightarrow> c_size c0 = c_size c \<Longrightarrow> c_sha256 c0 = c_sha256 c \<Longrightarrow> matches H c0 b"
  by (simp add: matches_def)

lemma knows_declared:
  assumes "knows b s h" "obj_content b = Inr c" "slotted b Direct s h"
  shows "declared h (obj_key b) c"
proof -
  have "obj_key b = key_for (ob_id b) (ob_filename b)" "h (ob_id b) = Some (ob_filename b, c, Direct)"
    "object_key (obj_key b)"
    using assms obj_ok_key [of b] by (auto simp: knows_def obj_ok_def recorded_def slotted_def)
  then show ?thesis unfolding declared_def by blast
qed

context bloby_stores
begin

lemma inv_promised: "Inv h (d, f) \<Longrightarrow> promised G h"
  by simp

lemma stable_promised: "stable Inv (Evs L) (\<lambda>s h. promised G' h)"
  by (rule stableI) (rule promised_mono [OF evo_history])

lemma w_no_grant:
  assumes "within Inv Rel Evo P m Q"
  shows "within Inv Rel Evo P (no_grant m) (\<lambda>G' s. promised G')"
  unfolding no_grant_def by (rule within_then [OF within_weaken [OF assms]]) (rule within_return, simp)

lemma w_grant:
  assumes "within Inv Rel Evo P m (began c)"
  shows "within Inv Rel Evo P (do { r \<leftarrow> m; State_Monad.return (grant c r) }) (\<lambda>G' s. promised G')"
  using assms
proof (rule within_bind)
  fix r
  show "within Inv Rel Evo (began c r) (State_Monad.return (grant c r)) (\<lambda>G' s. promised G')"
    by (rule within_return) (auto simp: grant_def began_def promised_def intro: knows_declared split: sum.splits if_splits)
qed

lemma w_serve:
  assumes "admissible rq"
  shows "within Inv Rel Evo (\<lambda>s h. True) (serve S rq) (\<lambda>G' s. promised G')"
proof (cases rq)
  case (Begin p fn c)
  with assms show ?thesis by (simp only: serve.simps) (rule w_grant, rule w_begin_upload, simp)
next
  case (BeginDirect p fn c)
  with assms show ?thesis by (simp only: serve.simps) (rule w_grant, rule w_begin_direct, simp)
next
  case (Write p fn ct body)
  with assms show ?thesis by (simp only: serve.simps) (rule w_no_grant, rule w_write_any, simp)
qed (simp only: serve.simps, rule w_no_grant,
     rule w_finalize w_presign_part w_delete_object w_delete_unreferenced w_run_cleanup w_get_by_id
       w_list_by_ids w_list_by_prefix w_download_url w_open_any)+

text \<open>The redemption of a grant, as a step of the backend alone.\<close>

definition redeemed :: "hashes \<Rightarrow> 'f \<Rightarrow> 'f \<Rightarrow> bool" where
  "redeemed H f f' \<longleftrightarrow> okb f' \<and> uploads_step opn iss f f' \<and>
     (stored f' = stored f \<or> (\<exists>k c b. granted G k c \<and> matches H c b \<and> stored f' = (stored f)(k \<mapsto> b)))"

lemma redeemed_within:
  assumes I: "Inv h (d, f)" and r: "redeemed (sv_hashes S) f f'"
  shows "Inv h (d, f') \<and> Evs L h (d, f) h (d, f')"
proof (rule be_change [OF I])
  show "okb f'" "uploads_step opn iss f f'" using r by (simp_all add: redeemed_def)
  fix q
  from r consider "stored f' = stored f"
    | k c b where "granted G k c" "matches (sv_hashes S) c b" "stored f' = (stored f)(k \<mapsto> b)"
    by (auto simp: redeemed_def)
  then show "key_step d h f f' q"
  proof cases
    case 1
    then show ?thesis by (simp add: key_step_def)
  next
    case (2 k c b)
    obtain i fn c0 where e: "k = key_for i fn" "h i = Some (fn, c0, Direct)" "c_size c0 = c_size c" "c_sha256 c0 = c_sha256 c"
      using declared_granted [OF inv_promised [OF I] 2(1)] by (auto simp: declared_def)
    have "fits c0 b" by (rule fits_matches [OF matches_same [OF 2(2) e(3,4)]])
    with 2(3) e(1,2) show ?thesis unfolding key_step_def by (metis fun_upd_apply)
  qed
qed

end

subsection \<open>Looking up and opening\<close>

definition read_back :: "('d, 'f) service \<Rightarrow> int \<Rightarrow> ('d, 'f, (obj \<times> reader) result) oper" where
  "read_back S i = attempt (get_by_id S i) (\<lambda>b. attempt (open_object S b) (\<lambda>rd. State_Monad.return (Inr (b, rd))))"

definition opened :: "(content \<Rightarrow> string \<Rightarrow> bool) \<Rightarrow> (obj \<times> reader) result \<Rightarrow> bool" where
  "opened fits r \<longleftrightarrow> (\<forall>b rd. r = Inr (b, rd) \<longrightarrow> (\<exists>c. obj_content b = Inr c \<and> reads_fit fits c rd))"

context bloby_stores
begin

lemma w_read_back: "within Inv Rel Evo (\<lambda>s h. True) (read_back S i) (\<lambda>r s h. opened fits r)"
  unfolding read_back_def
proof (rule within_attempt [OF w_get_by_id])
  fix b :: obj
  let ?P = "\<lambda>(s :: 'd \<times> 'f) h. \<forall>q. (Inr b :: obj result) = Inr q \<longrightarrow> knows q s h \<and> (available q \<longrightarrow> settled fits stored opn q s h)"
  show "within Inv Rel Evo ?P
      (attempt (open_object S b) (\<lambda>rd. State_Monad.return (Inr (b, rd)))) (\<lambda>r s h. opened fits r)"
  proof (rule within_facts [where b = "\<exists>c. obj_content b = Inr c"])
    assume "\<exists>c. obj_content b = Inr c"
    then obtain c where c: "obj_content b = Inr c" by blast
    have "within Inv Rel Evo ?P (open_object S b) (\<lambda>r s h. \<forall>rd. r = Inr rd \<longrightarrow> reads_fit fits c rd)"
      by (rule within_conseq [OF w_open_object [OF c]]) auto
    then show ?thesis
      by (rule within_attempt) (auto simp: opened_def c intro: within_return)
  qed (auto simp: knows_def recorded_def)
qed (simp add: opened_def)

end

subsection \<open>One request as a step of another's environment\<close>

text \<open>
  A request that runs undisturbed is a step that any other request may see, when the two have
  different numbers.
\<close>

definition request_step :: "('d, 'f) service \<Rightarrow> request \<Rightarrow> 'd \<times> 'f \<Rightarrow> 'd \<times> 'f" where
  "request_step S rq s = stores (snd (run_state (serve S rq) \<lparr>w_db = fst s, w_be = snd s, w_env = []\<rparr>))"

lemma stores_world [simp]: "stores \<lparr>w_db = d, w_be = f, w_env = env\<rparr> = (d, f)"
  by (simp add: stores_def)

context bloby_stores
begin

lemma request_stays:
  assumes "admissible rq"
  shows "stays Inv Evo (request_step S rq)"
  unfolding stays_def
proof (intro allI impI)
  fix h and s :: "'d \<times> 'f"
  assume I: "Inv h s"
  let ?w = "\<lparr>w_db = fst s, w_be = snd s, w_env = []\<rparr>"
  obtain G' w' where run: "run_state (serve S rq) ?w = (G', w')" by fastforce
  have "good Inv Rel h ?w" using I by (simp add: good_def)
  from withinD [OF w_serve [OF assms] this TrueI run] obtain h' where
    "good Inv Rel h' w'" "Evo h (stores ?w) h' (stores w')" by blast
  then show "\<exists>h'. Inv h' (request_step S rq s) \<and> Evo h s h' (request_step S rq s)"
    by (auto simp: request_step_def run good_def)
qed

end

end
