(* ===== verification/PgxStore.thy ===== *)
theory PgxStore
  imports Registry "HOL-Library.Product_Lexorder"
begin

text \<open>
  \<open>bloby/pgxstore\<close>: the table \<open>storage_objects\<close> with the constraints of its migrations, the
  SQL statements of \<open>store.go\<close> as functions on it, and the operations built from them. A
  statement is atomic; the schedule of faults decides whether it runs and whether its response
  arrives. The foreign keys that reference the table belong to the consumer; each is a record of
  the IDs its rows hold.
\<close>

subsection \<open>The database\<close>

datatype on_delete = NoAction | Restrict | Cascade | SetNull

record fkey =
  fk_single :: bool   \<comment> \<open>the constraint has one column: \<open>cardinality(conkey) = 1\<close>\<close>
  fk_on_id :: bool    \<comment> \<open>that column references \<open>id\<close>\<close>
  fk_action :: on_delete
  fk_refs :: "int list"

record db =
  db_rows :: "row list"
  db_next :: int      \<comment> \<open>the next value of the sequence of \<open>id\<close>\<close>
  db_now :: int
  db_fks :: "fkey list"
  db_faults :: "fault list"

text \<open>The CHECK constraints of the two migrations. \<open>btrim\<close> strips blanks.\<close>

definition not_blank :: "string \<Rightarrow> bool" where
  "not_blank s \<longleftrightarrow> list_ex (\<lambda>c. c \<noteq> CHR '' '') s"

fun opt_check :: "('a \<Rightarrow> bool) \<Rightarrow> 'a option \<Rightarrow> bool" where
  "opt_check P None = True"
| "opt_check P (Some x) = P x"

definition state_check :: "row \<Rightarrow> bool" where
  "state_check r \<longleftrightarrow>
     (ob_available_at r = None \<and> ob_ctype r = '''' \<and> ob_storage_key r = None
        \<and> (ro_expired r \<noteq> None \<or> (ob_size r \<noteq> None \<and> ob_sha256 r \<noteq> None \<and> ob_crc64 r \<noteq> None)))
     \<or> (ob_available_at r \<noteq> None \<and> ob_ctype r \<noteq> '''' \<and> ob_size r \<noteq> None \<and> ob_sha256 r \<noteq> None
        \<and> ob_storage_key r \<noteq> None \<and> ob_upload r = None)"

definition expiry_check :: "row \<Rightarrow> bool" where
  "expiry_check r \<longleftrightarrow> ro_expired r = None \<or> ob_available_at r = None"

definition row_check :: "row \<Rightarrow> bool" where
  "row_check r \<longleftrightarrow>
     opt_check (\<lambda>n. 0 \<le> n) (ob_size r) \<and> opt_check sha256_pattern (ob_sha256 r)
     \<and> opt_check not_blank (ob_upload r) \<and> opt_check not_blank (ob_storage_key r)
     \<and> opt_check crc64_pattern (ob_crc64 r) \<and> state_check r \<and> expiry_check r"

definition storage_keys :: "row list \<Rightarrow> string list" where
  "storage_keys rs = List.map_filter ob_storage_key rs"

subsection \<open>Statements\<close>

type_synonym 'a stmt = "db \<Rightarrow> 'a result \<times> db"

definition run_sql :: "'a stmt \<Rightarrow> 'a stmt" where
  "run_sql s d =
     (case db_faults d of
        [] \<Rightarrow> s d
      | f # fs \<Rightarrow>
          let d' = d\<lparr>db_faults := fs\<rparr> in
          (case f of
             Works \<Rightarrow> s d'
           | Refused i \<Rightarrow> (Inl (infra_err i), d')
           | Lost i \<Rightarrow> (Inl (infra_err i), snd (s d'))))"

definition sql_select :: "(row \<Rightarrow> bool) \<Rightarrow> row list stmt" where
  "sql_select P d = (Inr (filter P (db_rows d)), d)"

definition sql_insert :: "row \<Rightarrow> row list stmt" where
  "sql_insert r d =
     (if 2 ^ 63 \<le> db_next d then (Inl (PgError ''2200H''), d)
      else let r' = r\<lparr>ob_id := db_next d\<rparr>; d' = d\<lparr>db_next := db_next d + 1\<rparr> in
        if \<not> row_check r' then (Inl (PgError ''23514''), d')
        else if \<not> distinct (storage_keys (db_rows d @ [r'])) then (Inl (PgError ''23505''), d')
        else (Inr [r'], d'\<lparr>db_rows := db_rows d @ [r']\<rparr>))"

definition sql_update :: "(row \<Rightarrow> bool) \<Rightarrow> (row \<Rightarrow> row) \<Rightarrow> row list stmt" where
  "sql_update P f d =
     (let rows = map (\<lambda>r. if P r then f r else r) (db_rows d);
          changed = map f (filter P (db_rows d)) in
      if \<not> list_all row_check changed then (Inl (PgError ''23514''), d)
      else if \<not> distinct (storage_keys rows) then (Inl (PgError ''23505''), d)
      else (Inr changed, d\<lparr>db_rows := rows\<rparr>))"

text \<open>
  DELETE fails when a referencing row blocks it: SQLSTATE 23503 for NO ACTION, 23001 for
  RESTRICT. CASCADE and SET NULL take the references away.
\<close>

definition blocks :: "on_delete \<Rightarrow> row list \<Rightarrow> fkey \<Rightarrow> bool" where
  "blocks act gone k \<longleftrightarrow> fk_action k = act \<and> list_ex (\<lambda>r. ob_id r \<in> set (fk_refs k)) gone"

definition sql_delete :: "(row \<Rightarrow> bool) \<Rightarrow> row list stmt" where
  "sql_delete P d =
     (let gone = filter P (db_rows d) in
      if list_ex (blocks Restrict gone) (db_fks d) then (Inl (PgError ''23001''), d)
      else if list_ex (blocks NoAction gone) (db_fks d) then (Inl (PgError ''23503''), d)
      else (Inr gone,
            d\<lparr>db_rows := filter (\<lambda>r. \<not> P r) (db_rows d),
              db_fks := map (\<lambda>k. k\<lparr>fk_refs := filter (\<lambda>i. i \<notin> ob_id ` set gone) (fk_refs k)\<rparr>) (db_fks d)\<rparr>))"

text \<open>\<open>pgx.CollectExactlyOneRow\<close>.\<close>

fun exactly_one :: "row list result \<Rightarrow> obj result" where
  "exactly_one (Inl e) = Inl e"
| "exactly_one (Inr []) = Inl (Sentinel NoRows)"
| "exactly_one (Inr [r]) = Inr (row_obj r)"
| "exactly_one (Inr _) = Inl (Opaque ''too many rows in result set'')"

subsection \<open>Errors\<close>

definition sql_state :: "goerr \<Rightarrow> string" where
  "sql_state e = (case as_pg_error e of None \<Rightarrow> '''' | Some c \<Rightarrow> c)"

definition get_error :: "goerr \<Rightarrow> goerr" where
  "get_error e = (if errors_is e NoRows then Sentinel ErrNotFound else e)"

definition mutation_error :: "goerr \<Rightarrow> goerr" where
  "mutation_error e =
     (if errors_is e NoRows then Sentinel ErrNotFound
      else let c = sql_state e in
        if c = ''23503'' then Sentinel ErrNotFound
        else if c = ''23505'' then Sentinel ErrAlreadyExists
        else if c = ''22P02'' \<or> c = ''23502'' \<or> c = ''23514'' then Wrap '''' [Sentinel ErrInvalidInput, e]
        else e)"

definition delete_conflict :: "goerr \<Rightarrow> string \<Rightarrow> goerr" where
  "delete_conflict e msg =
     (if sql_state e = ''23503'' \<or> sql_state e = ''23001'' then Wrap msg [Sentinel ErrConflict]
      else mutation_error e)"

fun map_err :: "(goerr \<Rightarrow> goerr) \<Rightarrow> 'a result \<Rightarrow> 'a result" where
  "map_err f (Inl e) = Inl (f e)"
| "map_err f (Inr x) = Inr x"

subsection \<open>Operations of the store\<close>

definition get_object :: "row list stmt \<Rightarrow> obj stmt" where
  "get_object s d = (let (r, d') = run_sql s d in (map_err get_error (exactly_one r), d'))"

definition pg_create_pending :: "string \<Rightarrow> string \<Rightarrow> content \<Rightarrow> obj stmt" where
  "pg_create_pending p f c d =
     (let (r, d') = get_object (\<lambda>d.
            sql_insert \<lparr>ob_id = 0, ob_prefix = p, ob_filename = f, ob_ctype = '''',
              ob_size = Some (c_size c), ob_sha256 = Some (c_sha256 c), ob_crc64 = Some (c_crc64 c),
              ob_available_at = None, ob_upload = None, ob_storage_key = None,
              ob_created = db_now d, ob_updated = db_now d, ro_expired = None\<rparr> d) d
      in (map_err mutation_error r, d'))"

definition pg_get :: "int \<Rightarrow> obj stmt" where
  "pg_get i d =
     (let (r, d') = get_object (sql_select (\<lambda>r. ob_id r = i \<and> ro_expired r = None)) d
      in (map_err get_error r, d'))"

definition pg_mark_available :: "int \<Rightarrow> string \<Rightarrow> string \<Rightarrow> obj stmt" where
  "pg_mark_available i ct k d =
     (let (r, d1) = get_object (\<lambda>d.
            sql_update (\<lambda>r. ob_id r = i \<and> ob_available_at r = None \<and> ro_expired r = None)
              (\<lambda>r. r\<lparr>ob_ctype := ct, ob_storage_key := Some k, ob_available_at := Some (db_now d),
                     ob_updated := db_now d\<rparr>) d) d
      in case r of
           Inr b \<Rightarrow> (Inr b, d1)
         | Inl e \<Rightarrow>
             if errors_is e ErrNotFound then
               (let (cur, d2) = pg_get i d1 in
                case cur of
                  Inl ge \<Rightarrow> (Inl ge, d2)
                | Inr b \<Rightarrow> if available b then (Inr b, d2) else (Inl (mutation_error e), d2))
             else (Inl (mutation_error e), d1))"

definition pg_refresh_pending :: "int \<Rightarrow> obj stmt" where
  "pg_refresh_pending i d =
     (let (r, d') = get_object (\<lambda>d.
            sql_update (\<lambda>r. ob_id r = i \<and> ob_available_at r = None \<and> ro_expired r = None)
              (\<lambda>r. r\<lparr>ob_updated := db_now d\<rparr>) d) d
      in (map_err mutation_error r, d'))"

definition pg_record_upload :: "int \<Rightarrow> string \<Rightarrow> unit stmt" where
  "pg_record_upload i u d =
     (let (r, d') = run_sql (\<lambda>d.
            sql_update (\<lambda>r. ob_id r = i \<and> ob_available_at r = None \<and> ro_expired r = None \<and> ob_upload r = None)
              (\<lambda>r. r\<lparr>ob_upload := Some u, ob_updated := db_now d\<rparr>) d) d
      in case r of
           Inl e \<Rightarrow> (Inl (mutation_error e), d')
         | Inr tag \<Rightarrow> if tag = [] then (Inl (Sentinel ErrNotFound), d') else (Inr (), d'))"

definition pg_clear_upload :: "int \<Rightarrow> string \<Rightarrow> unit stmt" where
  "pg_clear_upload i u d =
     (let (r, d1) = run_sql (\<lambda>d.
            sql_update (\<lambda>r. ob_id r = i \<and> ro_expired r = None \<and> ob_upload r = Some u)
              (\<lambda>r. r\<lparr>ob_upload := None, ob_updated := db_now d\<rparr>) d) d
      in case r of
           Inl e \<Rightarrow> (Inl (mutation_error e), d1)
         | Inr tag \<Rightarrow>
             if tag \<noteq> [] then (Inr (), d1)
             else (let (cur, d2) = pg_get i d1 in
                   case cur of
                     Inl e \<Rightarrow> (Inl e, d2)
                   | Inr b \<Rightarrow>
                       if ob_upload b = None then (Inr (), d2)
                       else (Inl (Wrap ''multipart upload ID changed'' [Sentinel ErrConflict]), d2)))"

definition pg_list_by_ids :: "int list \<Rightarrow> (int \<times> obj) list stmt" where
  "pg_list_by_ids ids d =
     (let (r, d') = run_sql (sql_select (\<lambda>r. ob_id r \<in> set ids \<and> ro_expired r = None)) d
      in case r of
           Inl e \<Rightarrow> (Inl e, d')
         | Inr rows \<Rightarrow> (Inr (map (\<lambda>r. (ob_id r, row_obj r)) rows), d'))"

text \<open>ORDER BY with a list of keys, then LIMIT and OFFSET.\<close>

definition newest_first :: "row list \<Rightarrow> row list" where
  "newest_first rs = sort_key (\<lambda>r. (- ob_created r, - ob_id r)) rs"

definition pg_list_by_prefix :: "string \<Rightarrow> list_options \<Rightarrow> (obj list \<times> int) stmt" where
  "pg_list_by_prefix p opts d =
     (let P = (\<lambda>r :: row. ob_prefix r = p \<and> ob_available_at r \<noteq> None \<and> ro_expired r = None);
          (r1, d1) = run_sql (\<lambda>d. (Inr (int (length (filter P (db_rows d)))), d)) d
      in case r1 of
           Inl e \<Rightarrow> (Inl e, d1)
         | Inr count \<Rightarrow>
             (let (r2, d2) = run_sql (\<lambda>d. (Inr (take (nat (lo_limit opts)) (drop (nat (lo_offset opts))
                                 (newest_first (filter P (db_rows d))))), d)) d1
              in case r2 of
                   Inl e \<Rightarrow> (Inl e, d2)
                 | Inr rows \<Rightarrow> (Inr (map row_obj rows, count), d2)))"

definition pg_delete :: "int \<Rightarrow> obj stmt" where
  "pg_delete i d =
     (let (r, d') = get_object (sql_delete (\<lambda>r. ob_id r = i \<and> ro_expired r = None)) d
      in (map_err (\<lambda>e. delete_conflict e ''storage object is still referenced'') r, d'))"

text \<open>
  The common table expression of \<open>ClaimExpiredPending\<close>: expired rows that were claimed
  before the retry time come first, oldest first, then pending rows by their last update.
\<close>

definition claimable :: "int \<Rightarrow> int \<Rightarrow> row \<Rightarrow> bool" where
  "claimable updatedBefore retryBefore r \<longleftrightarrow>
     ob_available_at r = None \<and>
     (case ro_expired r of Some t \<Rightarrow> t < retryBefore | None \<Rightarrow> ob_updated r < updatedBefore)"

definition claim_order :: "row \<Rightarrow> bool \<times> int \<times> int" where
  "claim_order r = (ro_expired r = None,
     (case ro_expired r of Some t \<Rightarrow> t | None \<Rightarrow> ob_updated r), ob_id r)"

definition claim_candidates :: "int \<Rightarrow> int \<Rightarrow> int \<Rightarrow> row list \<Rightarrow> row list" where
  "claim_candidates ub rb n rs = take (nat n) (sort_key claim_order (filter (claimable ub rb) rs))"

definition pg_claim_expired :: "int \<Rightarrow> int \<Rightarrow> int \<Rightarrow> obj list stmt" where
  "pg_claim_expired ub rb n d =
     (let (r, d') = run_sql (\<lambda>d.
            let ids = map ob_id (claim_candidates ub rb n (db_rows d)) in
            sql_update (\<lambda>r. ob_id r \<in> set ids \<and> ob_available_at r = None)
              (\<lambda>r. r\<lparr>ro_expired := Some (db_now d)\<rparr>) d) d
      in case r of Inl e \<Rightarrow> (Inl e, d') | Inr rows \<Rightarrow> (Inr (map row_obj rows), d'))"

text \<open>
  \<open>ListUnreferenced\<close> builds one condition per single-column foreign key it finds in the
  catalog and compares that column with \<open>id\<close>. A foreign key on another column of the table
  (\<open>storage_key\<close> is the only other unique one) makes the comparison ill-typed.
\<close>

definition unreferenced_rows :: "fkey list \<Rightarrow> string list \<Rightarrow> int \<Rightarrow> int \<Rightarrow> row list stmt" where
  "unreferenced_rows conds ps availableBefore n d =
     (if list_ex (\<lambda>k. \<not> fk_on_id k) conds then (Inl (PgError ''42883''), d)
      else (Inr (take (nat n) (sort_key ob_id (filter (\<lambda>r.
              ob_prefix r \<in> set ps
              \<and> (case ob_available_at r of None \<Rightarrow> False | Some t \<Rightarrow> t < availableBefore)
              \<and> ro_expired r = None
              \<and> list_all (\<lambda>k. ob_id r \<notin> set (fk_refs k)) conds) (db_rows d)))), d))"

definition pg_list_unreferenced :: "string list \<Rightarrow> int \<Rightarrow> int \<Rightarrow> obj list stmt" where
  "pg_list_unreferenced ps availableBefore n d =
     (let (r1, d1) = run_sql (\<lambda>d. (Inr (filter fk_single (db_fks d)), d)) d
      in case r1 of
           Inl e \<Rightarrow> (Inl e, d1)
         | Inr conds \<Rightarrow>
             (let (r2, d2) = run_sql (unreferenced_rows conds ps availableBefore n) d1
              in case r2 of Inl e \<Rightarrow> (Inl e, d2) | Inr rows \<Rightarrow> (Inr (map row_obj rows), d2)))"

definition pg_delete_expired :: "int \<Rightarrow> unit stmt" where
  "pg_delete_expired i d =
     (let (r, d') = run_sql (sql_delete (\<lambda>r. ob_id r = i \<and> ro_expired r \<noteq> None)) d
      in case r of
           Inl e \<Rightarrow> (Inl (delete_conflict e ''expired storage upload is still referenced''), d')
         | Inr tag \<Rightarrow> if tag = [] then (Inl (Sentinel ErrNotFound), d') else (Inr (), d'))"

text \<open>The store as a registry on its database.\<close>

definition pg_registry :: "db registry" where
  "pg_registry =
     \<lparr>reg_create_pending = pg_create_pending, reg_mark_available = pg_mark_available,
      reg_refresh_pending = pg_refresh_pending, reg_record_upload = pg_record_upload,
      reg_clear_upload = pg_clear_upload, reg_get = pg_get, reg_list_by_ids = pg_list_by_ids,
      reg_list_by_prefix = pg_list_by_prefix, reg_delete = pg_delete,
      reg_claim_expired = pg_claim_expired, reg_delete_expired = pg_delete_expired,
      reg_list_unreferenced = pg_list_unreferenced\<rparr>"

end
