(* ===== verification/PgxContract.thy ===== *)
theory PgxContract
  imports PgxStore
begin

text \<open>
  The PostgreSQL store keeps the contract of a registry: its invariant, the effect of each
  statement on the view that maps IDs to rows, and the interpretation of the registry contract
  on \<open>pg_registry\<close>.
\<close>

subsection \<open>Invariant and view\<close>

definition db_ok :: "db \<Rightarrow> bool" where
  "db_ok d \<longleftrightarrow>
     distinct (map ob_id (db_rows d)) \<and> distinct (storage_keys (db_rows d))
     \<and> 1 \<le> db_next d \<and> db_next d \<le> 2 ^ 63
     \<and> (\<forall>r \<in> set (db_rows d). 1 \<le> ob_id r \<and> ob_id r < db_next d \<and> row_check r)"

definition db_view :: "db \<Rightarrow> int \<rightharpoonup> row" where
  "db_view d = (\<lambda>i. find_by ob_id i (db_rows d))"

lemma db_view_Some: "db_view d i = Some r \<Longrightarrow> r \<in> set (db_rows d) \<and> ob_id r = i"
  unfolding db_view_def by (rule find_by_SomeD)

lemma db_view_in: "db_ok d \<Longrightarrow> r \<in> set (db_rows d) \<Longrightarrow> db_view d (ob_id r) = Some r"
  by (simp add: db_ok_def db_view_def find_by_distinct)

lemma db_view_iff: "db_ok d \<Longrightarrow> db_view d i = Some r \<longleftrightarrow> r \<in> set (db_rows d) \<and> ob_id r = i"
  using db_view_Some db_view_in by blast

lemma db_view_next: "db_ok d \<Longrightarrow> db_next d \<le> i \<Longrightarrow> db_view d i = None"
  by (cases "db_view d i") (auto dest!: db_view_Some simp: db_ok_def)

text \<open>The schedule of faults is no part of either.\<close>

lemma db_ok_faults [simp]: "db_ok (d\<lparr>db_faults := fs\<rparr>) = db_ok d"
  by (simp add: db_ok_def)

lemma db_view_faults [simp]: "db_view (d\<lparr>db_faults := fs\<rparr>) = db_view d"
  by (simp add: db_view_def)

lemma run_sql_cases:
  assumes "run_sql s d = (res, d')"
  obtains (ran) fs where "s (d\<lparr>db_faults := fs\<rparr>) = (res, d')"
    | (refused) fs i where "res = Inl (infra_err i)" "d' = d\<lparr>db_faults := fs\<rparr>"
    | (lost) fs i res' where "res = Inl (infra_err i)" "s (d\<lparr>db_faults := fs\<rparr>) = (res', d')"
proof (cases "db_faults d")
  case Nil
  then have "d\<lparr>db_faults := []\<rparr> = d" by (simp add: db.equality)
  with Nil assms ran [of "[]"] show ?thesis by (simp add: run_sql_def)
next
  case (Cons f fs)
  with assms ran [of fs] refused [of _ fs] lost [of _ fs "fst (s (d\<lparr>db_faults := fs\<rparr>))"]
  show ?thesis by (cases f) (auto simp: run_sql_def Let_def)
qed

subsection \<open>UPDATE\<close>

lemma sql_update_view:
  assumes d: "db_ok d" and f: "\<And>r. ob_id (f r) = ob_id r"
    and s: "sql_update P f d = (Inr ch, d')"
  shows "db_ok d'" and "db_view d' = (\<lambda>i. map_option (\<lambda>r. if P r then f r else r) (db_view d i))"
    and "ch = map f (filter P (db_rows d))"
proof -
  let ?g = "\<lambda>r. if P r then f r else r"
  from s have rows: "db_rows d' = map ?g (db_rows d)" and next_eq: "db_next d' = db_next d"
    and chk: "list_all row_check (map f (filter P (db_rows d)))"
    and keys: "distinct (storage_keys (map ?g (db_rows d)))"
    and ch: "ch = map f (filter P (db_rows d))"
    by (auto simp: sql_update_def Let_def split: if_splits)
  have ids: "map ob_id (map ?g (db_rows d)) = map ob_id (db_rows d)" by (simp add: f)
  have "row_check (?g r) \<and> ob_id (?g r) = ob_id r" if "r \<in> set (db_rows d)" for r
    using that chk d f by (auto simp: list_all_iff db_ok_def)
  then have "\<forall>y \<in> set (map ?g (db_rows d)). 1 \<le> ob_id y \<and> ob_id y < db_next d \<and> row_check y"
    using d unfolding db_ok_def set_map ball_simps by metis
  with d show "db_ok d'"
    unfolding db_ok_def rows ids next_eq using keys by blast
  show "db_view d' = (\<lambda>i. map_option ?g (db_view d i))"
    unfolding db_view_def rows by (rule ext) (simp add: find_by_map f)
  show "ch = map f (filter P (db_rows d))" by (rule ch)
qed

lemma sql_update_err:
  "sql_update P f d = (Inl e, d') \<Longrightarrow> d' = d \<and> (e = PgError ''23514'' \<or> e = PgError ''23505'')"
  by (auto simp: sql_update_def Let_def split: if_splits)

text \<open>An UPDATE whose condition names one ID changes at most the row of that ID.\<close>

lemma filter_id:
  assumes "db_ok d" and "\<forall>r. P r \<longrightarrow> ob_id r = i"
  shows "filter P (db_rows d) =
    (case db_view d i of Some r \<Rightarrow> if P r then [r] else [] | None \<Rightarrow> [])"
proof -
  have "distinct (map ob_id rs) \<Longrightarrow> filter P rs =
    (case find_by ob_id i rs of Some r \<Rightarrow> if P r then [r] else [] | None \<Rightarrow> [])" for rs
  proof (induction rs)
    case (Cons x xs)
    have "filter P xs = []" if "ob_id x = i"
      using that Cons.prems assms(2) by (auto simp: filter_empty_conv image_iff)
    with Cons assms(2) show ?case by auto
  qed simp
  with assms(1) show ?thesis by (simp add: db_ok_def db_view_def)
qed

definition upd_effect :: "int \<Rightarrow> (row \<Rightarrow> bool) \<Rightarrow> (row \<Rightarrow> row) \<Rightarrow> db \<Rightarrow> row \<Rightarrow> db \<Rightarrow> bool" where
  "upd_effect i P f d r d' \<longleftrightarrow>
     db_view d i = Some r \<and> P r \<and> row_check (f r) \<and> db_view d' = (db_view d)(i \<mapsto> f r)"

lemma update_one:
  assumes d: "db_ok d" and P: "\<forall>r. P r \<longrightarrow> ob_id r = i" and f: "\<And>r. ob_id (f r) = ob_id r"
    and s: "sql_update P f d = (res, d')"
  shows "db_ok d'"
    and "res = Inr ch \<Longrightarrow> (\<exists>r. ch = [f r] \<and> upd_effect i P f d r d')
           \<or> ch = [] \<and> db_view d' = db_view d \<and> (\<forall>r. db_view d i = Some r \<longrightarrow> \<not> P r)"
    and "res = Inl e \<Longrightarrow> db_view d' = db_view d \<and> (e = PgError ''23514'' \<or> e = PgError ''23505'')"
proof -
  show "db_ok d'"
  proof (cases res)
    case (Inl e)
    with s d sql_update_err show ?thesis by blast
  next
    case (Inr ch)
    with s sql_update_view(1) [OF d f] show ?thesis by blast
  qed
  show "res = Inl e \<Longrightarrow> db_view d' = db_view d \<and> (e = PgError ''23514'' \<or> e = PgError ''23505'')"
    using s sql_update_err by blast
  assume res: "res = Inr ch"
  note u = sql_update_view [OF d f s [unfolded res]]
  have other: "map_option (\<lambda>r. if P r then f r else r) (db_view d j) = db_view d j"
    if "j \<noteq> i \<or> (\<forall>r. db_view d i = Some r \<longrightarrow> \<not> P r)" for j
    using that P by (cases "db_view d j") (auto dest: db_view_Some)
  show "(\<exists>r. ch = [f r] \<and> upd_effect i P f d r d')
      \<or> ch = [] \<and> db_view d' = db_view d \<and> (\<forall>r. db_view d i = Some r \<longrightarrow> \<not> P r)"
  proof (cases "\<exists>r. db_view d i = Some r \<and> P r")
    case True
    then obtain r where r: "db_view d i = Some r" "P r" by blast
    have "ch = [f r]" using u(3) filter_id [OF d P] r by simp
    moreover have "db_view d' = (db_view d)(i \<mapsto> f r)"
      unfolding u(2) using other r by (intro ext) auto
    moreover have "row_check (f r)"
    proof -
      have "db_view d' i = Some (f r)" using \<open>db_view d' = (db_view d)(i \<mapsto> f r)\<close> by simp
      with u(1) show ?thesis by (auto dest!: db_view_Some simp: db_ok_def)
    qed
    ultimately show ?thesis using r by (auto simp: upd_effect_def)
  next
    case False
    then have "ch = []" using u(3) filter_id [OF d P] by (auto split: option.splits)
    moreover have "db_view d' = db_view d" unfolding u(2) using other False by (intro ext) blast
    ultimately show ?thesis using False by blast
  qed
qed

subsection \<open>DELETE\<close>

lemma distinct_keys_filter: "distinct (storage_keys rs) \<Longrightarrow> distinct (storage_keys (filter P rs))"
proof (induction rs)
  case (Cons r rs)
  have "set (storage_keys (filter P rs)) \<subseteq> set (storage_keys rs)"
    by (auto simp: storage_keys_def List.map_filter_def)
  with Cons show ?case
    by (cases "ob_storage_key r") (auto simp: storage_keys_def List.map_filter_simps)
qed (simp add: storage_keys_def List.map_filter_simps)

lemma delete_one:
  assumes d: "db_ok d" and P: "\<forall>r. P r \<longrightarrow> ob_id r = i" and s: "sql_delete P d = (res, d')"
  shows "db_ok d'"
    and "res = Inr gone \<Longrightarrow> (\<exists>r. gone = [r] \<and> v_deleted i P (db_view d) r (db_view d'))
           \<or> gone = [] \<and> db_view d' = db_view d \<and> (\<forall>r. db_view d i = Some r \<longrightarrow> \<not> P r)"
    and "res = Inl e \<Longrightarrow> db_view d' = db_view d \<and> (\<exists>r. db_view d i = Some r \<and> P r)
           \<and> (e = PgError ''23001'' \<or> e = PgError ''23503'')"
proof -
  note fl = filter_id [OF d P]
  have rows: "d' = d \<or> db_next d' = db_next d \<and> db_rows d' = filter (\<lambda>r. \<not> P r) (db_rows d)"
    using s by (auto simp: sql_delete_def Let_def split: if_splits)
  have ok: "db_ok d1" if "db_next d1 = db_next d" "db_rows d1 = filter (\<lambda>r. \<not> P r) (db_rows d)" for d1
    using that d distinct_keys_filter by (auto simp: db_ok_def distinct_map_filter)
  show "db_ok d'" using rows d ok by blast
  show "res = Inl e \<Longrightarrow> db_view d' = db_view d \<and> (\<exists>r. db_view d i = Some r \<and> P r)
      \<and> (e = PgError ''23001'' \<or> e = PgError ''23503'')"
  proof -
    assume "res = Inl e"
    with s have e: "d' = d" "e = PgError ''23001'' \<or> e = PgError ''23503''"
      and "list_ex (blocks Restrict (filter P (db_rows d))) (db_fks d)
         \<or> list_ex (blocks NoAction (filter P (db_rows d))) (db_fks d)"
      by (auto simp: sql_delete_def Let_def split: if_splits)
    then have "filter P (db_rows d) \<noteq> []" by (auto simp: blocks_def list_ex_iff filter_empty_conv)
    with fl have "\<exists>r. db_view d i = Some r \<and> P r" by (cases "db_view d i") (auto split: if_splits)
    with e show ?thesis by blast
  qed
  assume res: "res = Inr gone"
  from s res have gone: "gone = filter P (db_rows d)" and rows': "db_rows d' = filter (\<lambda>r. \<not> P r) (db_rows d)"
    by (auto simp: sql_delete_def Let_def split: if_splits)
  have view: "db_view d' j = (case db_view d j of Some r \<Rightarrow> if P r then None else Some r | None \<Rightarrow> None)" for j
    using d unfolding db_view_def rows' db_ok_def by (simp add: find_by_filter split: option.splits)
  have other: "db_view d' j = db_view d j" if "j \<noteq> i \<or> (\<forall>r. db_view d i = Some r \<longrightarrow> \<not> P r)" for j
    using that P unfolding view by (cases "db_view d j") (auto dest: db_view_Some)
  show "(\<exists>r. gone = [r] \<and> v_deleted i P (db_view d) r (db_view d'))
      \<or> gone = [] \<and> db_view d' = db_view d \<and> (\<forall>r. db_view d i = Some r \<longrightarrow> \<not> P r)"
  proof (cases "\<exists>r. db_view d i = Some r \<and> P r")
    case True
    then obtain r where r: "db_view d i = Some r" "P r" by blast
    moreover have "db_view d' = (db_view d)(i := None)"
      using other r view [of i] by (intro ext) auto
    ultimately show ?thesis using gone fl by (auto simp: v_deleted_def)
  next
    case False
    then have "gone = []" using gone fl by (auto split: option.splits)
    moreover have "db_view d' = db_view d" using other False by (intro ext) blast
    ultimately show ?thesis using False by blast
  qed
qed

subsection \<open>INSERT\<close>

lemma storage_keys_append_None: "ob_storage_key r = None \<Longrightarrow> storage_keys (rs @ [r]) = storage_keys rs"
  by (simp add: storage_keys_def List.map_filter_def)

lemma insert_ok:
  assumes d: "db_ok d" and s: "sql_insert r d = (res, d')"
  shows "db_ok d'"
    and "res = Inr rows \<Longrightarrow> rows = [r\<lparr>ob_id := db_next d\<rparr>] \<and> in_int64 (db_next d)
           \<and> db_view d (db_next d) = None \<and> db_view d' = (db_view d)(db_next d \<mapsto> r\<lparr>ob_id := db_next d\<rparr>)"
    and "res = Inl e \<Longrightarrow> db_view d' = db_view d \<and> (\<exists>c. e = PgError c)"
proof -
  have fresh: "db_next d \<notin> ob_id ` set (db_rows d)" using d by (auto simp: db_ok_def)
  have bound: "\<forall>q \<in> set (db_rows d). ob_id q < db_next d + 1" using d by (auto simp: db_ok_def intro: less_trans)
  show "db_ok d'"
    using d s fresh bound by (auto simp: sql_insert_def db_ok_def Let_def split: if_splits)
  show "res = Inl e \<Longrightarrow> db_view d' = db_view d \<and> (\<exists>c. e = PgError c)"
    using s by (auto simp: sql_insert_def db_view_def Let_def split: if_splits)
  assume "res = Inr rows"
  with s have lt: "db_next d < 2 ^ 63" and rows: "rows = [r\<lparr>ob_id := db_next d\<rparr>]"
    and d': "db_rows d' = db_rows d @ [r\<lparr>ob_id := db_next d\<rparr>]"
    by (auto simp: sql_insert_def Let_def split: if_splits)
  moreover have none: "db_view d (db_next d) = None"
    using fresh by (simp add: db_view_def find_by_None)
  moreover have "db_view d' = (db_view d)(db_next d \<mapsto> r\<lparr>ob_id := db_next d\<rparr>)"
    using none unfolding db_view_def d' by (intro ext) (auto split: option.splits)
  ultimately show "rows = [r\<lparr>ob_id := db_next d\<rparr>] \<and> in_int64 (db_next d) \<and> db_view d (db_next d) = None
      \<and> db_view d' = (db_view d)(db_next d \<mapsto> r\<lparr>ob_id := db_next d\<rparr>)"
    using d by (simp add: in_int64_def db_ok_def)
qed

subsection \<open>Rows and errors of one statement\<close>

lemma get_error_is [goerr_simps]:
  "errors_is (get_error e) ErrNotFound \<longleftrightarrow> errors_is e NoRows \<or> errors_is e ErrNotFound"
  by (simp add: get_error_def)

lemma error_map_pg [simp]:
  "get_error (PgError c) = PgError c" "get_error (Sentinel ErrNotFound) = Sentinel ErrNotFound"
  "get_error (infra_err i) = infra_err i" "get_error (Opaque m) = Opaque m"
  "mutation_error (Sentinel ErrNotFound) = Sentinel ErrNotFound"
  "mutation_error (infra_err i) = infra_err i" "mutation_error (Opaque m) = Opaque m"
  "delete_conflict (Sentinel ErrNotFound) m = Sentinel ErrNotFound"
  "delete_conflict (infra_err i) m = infra_err i" "delete_conflict (Opaque m') m = Opaque m'"
  by (simp_all add: get_error_def mutation_error_def delete_conflict_def sql_state_def)

lemma mutation_error_check [simp]:
  "\<not> errors_is (mutation_error (PgError ''23514'')) ErrNotFound"
  "\<not> errors_is (mutation_error (PgError ''23505'')) ErrNotFound"
  "\<not> errors_is (delete_conflict (PgError ''23001'') m) ErrNotFound"
  "\<not> errors_is (delete_conflict (PgError ''23503'') m) ErrNotFound"
  by (simp_all add: mutation_error_def delete_conflict_def sql_state_def)

lemma get_object_cases:
  assumes "get_object s d = (res, d')"
  obtains (row) fs r where "s (d\<lparr>db_faults := fs\<rparr>) = (Inr [r], d')" "res = Inr (row_obj r)"
    | (none) fs where "s (d\<lparr>db_faults := fs\<rparr>) = (Inr [], d')" "res = Inl (Sentinel ErrNotFound)"
    | (many) fs a b rs m where "s (d\<lparr>db_faults := fs\<rparr>) = (Inr (a # b # rs), d')" "res = Inl (Opaque m)"
    | (failed) fs e where "s (d\<lparr>db_faults := fs\<rparr>) = (Inl e, d')" "res = Inl (get_error e)"
    | (refused) fs i where "res = Inl (infra_err i)" "d' = d\<lparr>db_faults := fs\<rparr>"
    | (lost) fs i res0 where "res = Inl (infra_err i)" "s (d\<lparr>db_faults := fs\<rparr>) = (res0, d')"
proof -
  obtain r where r: "run_sql s d = (r, d')" and res: "res = map_err get_error (exactly_one r)"
    using assms by (auto simp: get_object_def split: prod.splits)
  from r show thesis
  proof (cases rule: run_sql_cases)
    case (ran fs)
    show thesis
    proof (cases r)
      case (Inl e)
      with ran res failed show thesis by simp
    next
      case (Inr rows)
      with ran res none row many show thesis
        by (cases rows rule: list.exhaust; cases "tl rows") (auto simp: get_error_def)
    qed
  next
    case (refused fs i)
    with res that(5) show thesis by simp
  next
    case (lost fs i res')
    with res that(6) show thesis by simp
  qed
qed

subsection \<open>One-row operations\<close>

text \<open>The errors a statement on one row can end with, before they are mapped.\<close>

definition stmt_error :: "goerr \<Rightarrow> bool" where
  "stmt_error e \<longleftrightarrow> (\<exists>c. e = PgError c) \<or> (\<exists>m. e = Opaque m) \<or> (\<exists>i. e = infra_err i)"

lemma stmt_error_not_found [simp]: "stmt_error e \<Longrightarrow> \<not> errors_is e ErrNotFound"
  by (auto simp: stmt_error_def)

lemma upd_effect_faults [simp]: "upd_effect i P f (d\<lparr>db_faults := fs\<rparr>) r d' = upd_effect i P f d r d'"
  by (simp add: upd_effect_def)

lemmas update_one_faults = update_one [where d = "d\<lparr>db_faults := fs\<rparr>" for d fs, simplified]
lemmas delete_one_faults = delete_one [where d = "d\<lparr>db_faults := fs\<rparr>" for d fs, simplified]

lemma get_update:
  assumes d: "db_ok d" and P: "\<forall>r. P r \<longrightarrow> ob_id r = i" and f: "\<And>t r. ob_id (f t r) = ob_id r"
    and g: "get_object (\<lambda>d. sql_update P (f (db_now d)) d) d = (res, d')"
  shows "db_ok d'"
    and "res = Inr b \<Longrightarrow> \<exists>r t. upd_effect i P (f t) d r d' \<and> b = row_obj (f t r)"
    and "res = Inl e \<Longrightarrow>
           e = Sentinel ErrNotFound \<and> db_view d' = db_view d \<and> (\<forall>r. db_view d i = Some r \<longrightarrow> \<not> P r)
           \<or> (e = PgError ''23514'' \<or> e = PgError ''23505'') \<and> db_view d' = db_view d
           \<or> (\<exists>j. e = infra_err j) \<and> (db_view d' = db_view d \<or> (\<exists>r t. upd_effect i P (f t) d r d'))"
proof -
  note u = update_one_faults [OF d P f]
  show "db_ok d'"
    using g d by (cases rule: get_object_cases) (auto dest: u(1))
  show "res = Inr b \<Longrightarrow> \<exists>r t. upd_effect i P (f t) d r d' \<and> b = row_obj (f t r)"
    using g
  proof (cases rule: get_object_cases)
    case (row fs r)
    then show "res = Inr b \<Longrightarrow> ?thesis" using u(2) [OF row(1) refl] by auto
  qed auto
  show "res = Inl e \<Longrightarrow>
           e = Sentinel ErrNotFound \<and> db_view d' = db_view d \<and> (\<forall>r. db_view d i = Some r \<longrightarrow> \<not> P r)
           \<or> (e = PgError ''23514'' \<or> e = PgError ''23505'') \<and> db_view d' = db_view d
           \<or> (\<exists>j. e = infra_err j) \<and> (db_view d' = db_view d \<or> (\<exists>r t. upd_effect i P (f t) d r d'))"
    using g
  proof (cases rule: get_object_cases)
    case (none fs)
    then show "res = Inl e \<Longrightarrow> ?thesis" using u(2) [OF none(1) refl] by auto
  next
    case (many fs a b' rs m)
    then show "res = Inl e \<Longrightarrow> ?thesis" using u(2) [OF many(1) refl] by auto
  next
    case (failed fs e')
    then show "res = Inl e \<Longrightarrow> ?thesis" using u(3) [OF failed(1) refl] by auto
  next
    case (lost fs j res0)
    then show "res = Inl e \<Longrightarrow> ?thesis"
      using u(2,3) [OF lost(2)] by (cases res0) blast+
  qed auto
qed

lemma get_delete:
  assumes d: "db_ok d" and P: "\<forall>r. P r \<longrightarrow> ob_id r = i"
    and g: "get_object (sql_delete P) d = (res, d')"
  shows "db_ok d'"
    and "res = Inr b \<Longrightarrow> \<exists>r. v_deleted i P (db_view d) r (db_view d') \<and> b = row_obj r"
    and "res = Inl e \<Longrightarrow>
           e = Sentinel ErrNotFound \<and> db_view d' = db_view d \<and> (\<forall>r. db_view d i = Some r \<longrightarrow> \<not> P r)
           \<or> (e = PgError ''23001'' \<or> e = PgError ''23503'') \<and> db_view d' = db_view d
           \<or> (\<exists>j. e = infra_err j) \<and> (db_view d' = db_view d \<or> (\<exists>r. v_deleted i P (db_view d) r (db_view d')))"
proof -
  note u = delete_one_faults [OF d P]
  show "db_ok d'"
    using g d by (cases rule: get_object_cases) (auto dest: u(1))
  show "res = Inr b \<Longrightarrow> \<exists>r. v_deleted i P (db_view d) r (db_view d') \<and> b = row_obj r"
    using g
  proof (cases rule: get_object_cases)
    case (row fs r)
    then show "res = Inr b \<Longrightarrow> ?thesis" using u(2) [OF row(1) refl] by auto
  qed auto
  show "res = Inl e \<Longrightarrow>
           e = Sentinel ErrNotFound \<and> db_view d' = db_view d \<and> (\<forall>r. db_view d i = Some r \<longrightarrow> \<not> P r)
           \<or> (e = PgError ''23001'' \<or> e = PgError ''23503'') \<and> db_view d' = db_view d
           \<or> (\<exists>j. e = infra_err j) \<and> (db_view d' = db_view d \<or> (\<exists>r. v_deleted i P (db_view d) r (db_view d')))"
    using g
  proof (cases rule: get_object_cases)
    case (none fs)
    then show "res = Inl e \<Longrightarrow> ?thesis" using u(2) [OF none(1) refl] by auto
  next
    case (many fs a b' rs m)
    then show "res = Inl e \<Longrightarrow> ?thesis" using u(2) [OF many(1) refl] by auto
  next
    case (failed fs e')
    then show "res = Inl e \<Longrightarrow> ?thesis" using u(3) [OF failed(1) refl] by auto
  next
    case (lost fs j res0)
    then show "res = Inl e \<Longrightarrow> ?thesis"
      using u(2,3) [OF lost(2)] by (cases res0) blast+
  qed auto
qed

lemma pg_get_cases:
  assumes d: "db_ok d" and g: "pg_get i d = (res, d')"
  shows "db_view d' = db_view d \<and> db_ok d'"
    and "res = Inr b \<Longrightarrow> \<exists>r. db_view d i = Some r \<and> live r \<and> b = row_obj r"
    and "res = Inl e \<Longrightarrow> errors_is e ErrNotFound \<Longrightarrow> \<forall>r. db_view d i = Some r \<longrightarrow> \<not> live r"
proof -
  let ?P = "\<lambda>r. ob_id r = i \<and> ro_expired r = None"
  obtain r0 where g0: "get_object (sql_select ?P) d = (r0, d')" and res: "res = map_err get_error r0"
    using g by (auto simp: pg_get_def split: prod.splits)
  have fl: "filter ?P (db_rows d) = (case db_view d i of Some r \<Rightarrow> if ?P r then [r] else [] | None \<Rightarrow> [])"
    by (rule filter_id [OF d]) blast
  have sel: "sql_select ?P (d\<lparr>db_faults := fs\<rparr>) = (r1, d1) \<Longrightarrow>
      d1 = d\<lparr>db_faults := fs\<rparr> \<and> r1 = Inr (filter ?P (db_rows d))" for fs r1 d1
    by (auto simp: sql_select_def)
  show "db_view d' = db_view d \<and> db_ok d'"
    using g0 d by (cases rule: get_object_cases) (auto dest!: sel)
  show "res = Inr b \<Longrightarrow> \<exists>r. db_view d i = Some r \<and> live r \<and> b = row_obj r"
    using g0
  proof (cases rule: get_object_cases)
    case (row fs r)
    then show "res = Inr b \<Longrightarrow> ?thesis"
      using sel [OF row(1)] fl res by (auto simp: live_def split: option.splits if_splits)
  qed (auto simp: res)
  show "res = Inl e \<Longrightarrow> errors_is e ErrNotFound \<Longrightarrow> \<forall>r. db_view d i = Some r \<longrightarrow> \<not> live r"
    using g0
  proof (cases rule: get_object_cases)
    case (none fs)
    then show ?thesis
      using sel [OF none(1)] fl by (auto simp: live_def split: option.splits if_splits dest: db_view_Some)
  qed (auto simp: res dest: sel)
qed

subsection \<open>The laws of the registry contract\<close>

lemma pg_create_law:
  assumes d: "db_ok d" and c: "pg_create_pending p f c d = (res, d')"
  shows "db_ok d'"
    and "res = Inr b \<Longrightarrow> \<exists>r. b = row_obj r \<and> v_created p f c (db_view d) r (db_view d')"
    and "res = Inl e \<Longrightarrow> db_view d' = db_view d \<or> (\<exists>r. v_created p f c (db_view d) r (db_view d'))"
proof -
  let ?row = "\<lambda>t. \<lparr>ob_id = 0, ob_prefix = p, ob_filename = f, ob_ctype = '''',
              ob_size = Some (c_size c), ob_sha256 = Some (c_sha256 c), ob_crc64 = Some (c_crc64 c),
              ob_available_at = None, ob_upload = None, ob_storage_key = None,
              ob_created = t, ob_updated = t, ro_expired = None\<rparr>"
  obtain r0 where g: "get_object (\<lambda>d. sql_insert (?row (db_now d)) d) d = (r0, d')"
    and res: "res = map_err mutation_error r0"
    using c by (auto simp: pg_create_pending_def split: prod.splits)
  have ins: "sql_insert (?row t) (d\<lparr>db_faults := fs\<rparr>) = (r1, d1) \<Longrightarrow>
      db_ok d1 \<and> (case r1 of Inl e \<Rightarrow> db_view d1 = db_view d
        | Inr rows \<Rightarrow> \<exists>r. rows = [r] \<and> v_created p f c (db_view d) r (db_view d1))" for t fs r1 d1
    using insert_ok [of "d\<lparr>db_faults := fs\<rparr>" "?row t" r1 d1] d
    by (auto simp: v_created_def pending_def split: sum.splits)
  show "db_ok d'"
    using g d by (cases rule: get_object_cases) (auto dest!: ins)
  show "res = Inr b \<Longrightarrow> \<exists>r. b = row_obj r \<and> v_created p f c (db_view d) r (db_view d')"
    using g
  proof (cases rule: get_object_cases)
    case (row fs r)
    then show "res = Inr b \<Longrightarrow> ?thesis" using ins [OF row(1)] res by auto
  qed (auto simp: res)
  show "res = Inl e \<Longrightarrow> db_view d' = db_view d \<or> (\<exists>r. v_created p f c (db_view d) r (db_view d'))"
    using g
  proof (cases rule: get_object_cases)
    case (lost fs j res0)
    then show ?thesis using ins [OF lost(2)] by (auto split: sum.splits)
  qed (auto simp: res dest!: ins)
qed

lemma pg_refresh_law:
  assumes d: "db_ok d" and c: "pg_refresh_pending i d = (res, d')"
  shows "db_ok d'"
    and "res = Inr b \<Longrightarrow> \<exists>r. b = row_obj r \<and> v_refreshed i (db_view d) r (db_view d')"
    and "res = Inl e \<Longrightarrow> db_view d' = db_view d \<or> (\<exists>r. v_refreshed i (db_view d) r (db_view d'))"
proof -
  let ?P = "\<lambda>r. ob_id r = i \<and> ob_available_at r = None \<and> ro_expired r = None"
  let ?f = "\<lambda>t (r :: row). r\<lparr>ob_updated := t\<rparr>"
  obtain r0 where g: "get_object (\<lambda>d. sql_update ?P (?f (db_now d)) d) d = (r0, d')"
    and res: "res = map_err mutation_error r0"
    using c by (auto simp: pg_refresh_pending_def split: prod.splits)
  have P: "\<forall>r. ?P r \<longrightarrow> ob_id r = i" by simp
  note u = get_update [OF d P _ g, simplified]
  have eff: "upd_effect i ?P (?f t) d r d' \<Longrightarrow> v_refreshed i (db_view d) (?f t r) (db_view d')" for r t
    by (auto simp: upd_effect_def v_refreshed_def pending_def)
  show "db_ok d'" by (rule u(1))
  show "res = Inr b \<Longrightarrow> \<exists>r. b = row_obj r \<and> v_refreshed i (db_view d) r (db_view d')"
    using u(2) eff res by (cases r0) auto
  show "res = Inl e \<Longrightarrow> db_view d' = db_view d \<or> (\<exists>r. v_refreshed i (db_view d) r (db_view d'))"
    using u(3) eff res by (cases r0) auto
qed

lemma pg_mark_law:
  assumes d: "db_ok d" and c: "pg_mark_available i ct k d = (res, d')"
  shows "db_ok d'"
    and "res = Inr b \<Longrightarrow> (\<exists>r. b = row_obj r \<and> v_published i ct k (db_view d) r (db_view d'))
          \<or> db_view d' = db_view d \<and> (\<exists>r. db_view d i = Some r \<and> live r \<and> available r \<and> b = row_obj r)"
    and "res = Inl e \<Longrightarrow> (db_view d' = db_view d \<or> (\<exists>r. v_published i ct k (db_view d) r (db_view d')))
          \<and> (errors_is e ErrNotFound \<longrightarrow> db_view d' = db_view d)"
proof -
  let ?P = "\<lambda>r. ob_id r = i \<and> ob_available_at r = None \<and> ro_expired r = None"
  let ?f = "\<lambda>t (r :: row). r\<lparr>ob_ctype := ct, ob_storage_key := Some k, ob_available_at := Some t, ob_updated := t\<rparr>"
  obtain r0 d1 where g: "get_object (\<lambda>d. sql_update ?P (?f (db_now d)) d) d = (r0, d1)"
    by (cases "get_object (\<lambda>d. sql_update ?P (?f (db_now d)) d) d")
  have P: "\<forall>r. ?P r \<longrightarrow> ob_id r = i" by simp
  note u = get_update [OF d P _ g, simplified]
  have eff: "upd_effect i ?P (?f t) d r d1 \<Longrightarrow> v_published i ct k (db_view d) (?f t r) (db_view d1)" for r t
    by (auto simp: upd_effect_def v_published_def pending_def row_check_def state_check_def)
  note c' = c [unfolded pg_mark_available_def Let_def g prod.case]
  show "db_ok d'"
    using c' u(1) pg_get_cases(1) [OF u(1)] by (auto split: sum.splits if_splits prod.splits)
  show "res = Inr b \<Longrightarrow> (\<exists>r. b = row_obj r \<and> v_published i ct k (db_view d) r (db_view d'))
        \<or> db_view d' = db_view d \<and> (\<exists>r. db_view d i = Some r \<and> live r \<and> available r \<and> b = row_obj r)"
  proof (cases r0)
    case (Inr b0)
    assume "res = Inr b"
    with c' Inr u(2) eff show ?thesis by auto
  next
    case (Inl e0)
    assume res: "res = Inr b"
    with c' Inl have nf: "errors_is e0 ErrNotFound" by (auto split: if_splits)
    with c' Inl res obtain d2 where get: "pg_get i d1 = (Inr b, d2)" "available b" "d' = d2"
      by (auto split: sum.splits prod.splits if_splits)
    have "db_view d1 = db_view d" using u(3) [OF Inl] nf by auto
    with pg_get_cases [OF u(1) get(1)] get show ?thesis by auto
  qed
  show "res = Inl e \<Longrightarrow> (db_view d' = db_view d \<or> (\<exists>r. v_published i ct k (db_view d) r (db_view d')))
          \<and> (errors_is e ErrNotFound \<longrightarrow> db_view d' = db_view d)"
  proof (cases r0)
    case (Inr b0)
    assume "res = Inl e"
    with c' Inr show ?thesis by auto
  next
    case (Inl e0)
    assume res: "res = Inl e"
    show ?thesis
    proof (cases "errors_is e0 ErrNotFound")
      case True
      then have "db_view d1 = db_view d" using u(3) [OF Inl] by auto
      with c' Inl True pg_get_cases(1) [OF u(1)] show ?thesis
        by (auto split: sum.splits prod.splits if_splits)
    next
      case False
      with c' Inl res u(3) [OF Inl] eff show ?thesis by auto
    qed
  qed
qed

lemma pg_delete_law:
  assumes d: "db_ok d" and c: "pg_delete i d = (res, d')"
  shows "db_ok d'"
    and "res = Inr b \<Longrightarrow> \<exists>r. b = row_obj r \<and> v_deleted i live (db_view d) r (db_view d')"
    and "res = Inl e \<Longrightarrow> (db_view d' = db_view d \<or> (\<exists>r. v_deleted i live (db_view d) r (db_view d')))
          \<and> (errors_is e ErrNotFound \<longrightarrow> db_view d' = db_view d \<and> (\<forall>r. db_view d i = Some r \<longrightarrow> \<not> live r))"
proof -
  let ?P = "\<lambda>r. ob_id r = i \<and> ro_expired r = None"
  obtain r0 where g: "get_object (sql_delete ?P) d = (r0, d')"
    and res: "res = map_err (\<lambda>e. delete_conflict e ''storage object is still referenced'') r0"
    using c by (auto simp: pg_delete_def split: prod.splits)
  have P: "\<forall>r. ?P r \<longrightarrow> ob_id r = i" by simp
  note u = get_delete [OF d P g]
  have eff: "v_deleted i ?P (db_view d) r (db_view d') \<Longrightarrow> v_deleted i live (db_view d) r (db_view d')" for r
    by (auto simp: v_deleted_def live_def)
  have nl: "\<forall>r. db_view d i = Some r \<longrightarrow> \<not> ?P r \<Longrightarrow> \<forall>r. db_view d i = Some r \<longrightarrow> \<not> live r"
    by (auto simp: live_def dest: db_view_Some)
  show "db_ok d'" by (rule u(1))
  show "res = Inr b \<Longrightarrow> \<exists>r. b = row_obj r \<and> v_deleted i live (db_view d) r (db_view d')"
    using u(2) eff res by (cases r0) auto
  show "res = Inl e \<Longrightarrow> (db_view d' = db_view d \<or> (\<exists>r. v_deleted i live (db_view d) r (db_view d')))
          \<and> (errors_is e ErrNotFound \<longrightarrow> db_view d' = db_view d \<and> (\<forall>r. db_view d i = Some r \<longrightarrow> \<not> live r))"
    using u(3) eff nl res by (cases r0) auto
qed

lemma run_update:
  assumes d: "db_ok d" and P: "\<forall>r. P r \<longrightarrow> ob_id r = i" and f: "\<And>t r. ob_id (f t r) = ob_id r"
    and g: "run_sql (\<lambda>d. sql_update P (f (db_now d)) d) d = (res, d')"
  shows "db_ok d'"
    and "db_view d' = db_view d \<or> (\<exists>r t. upd_effect i P (f t) d r d')"
    and "res = Inr tag \<Longrightarrow> tag \<noteq> [] \<Longrightarrow> \<exists>r t. upd_effect i P (f t) d r d'"
    and "res = Inr [] \<Longrightarrow> db_view d' = db_view d"
    and "res = Inl e \<Longrightarrow> (\<exists>c. e = PgError c) \<or> (\<exists>i. e = infra_err i)"
proof -
  note u = update_one_faults [OF d P f]
  show "db_ok d'" using g d by (cases rule: run_sql_cases) (auto dest: u(1))
  show "db_view d' = db_view d \<or> (\<exists>r t. upd_effect i P (f t) d r d')"
    using g
  proof (cases rule: run_sql_cases)
    case (ran fs)
    then show ?thesis using u(2,3) [OF ran] by (cases res) blast+
  next
    case (lost fs j res')
    then show ?thesis using u(2,3) [OF lost(2)] by (cases res') blast+
  qed simp
  show "res = Inr tag \<Longrightarrow> tag \<noteq> [] \<Longrightarrow> \<exists>r t. upd_effect i P (f t) d r d'"
    using g by (cases rule: run_sql_cases) (auto dest!: u(2) [OF _ refl])
  show "res = Inr [] \<Longrightarrow> db_view d' = db_view d"
    using g by (cases rule: run_sql_cases) (auto dest!: u(2) [OF _ refl])
  show "res = Inl e \<Longrightarrow> (\<exists>c. e = PgError c) \<or> (\<exists>i. e = infra_err i)"
    using g by (cases rule: run_sql_cases) (auto dest: u(3))
qed

lemma pg_record_law:
  assumes d: "db_ok d" and c: "pg_record_upload i u d = (res, d')"
  shows "db_ok d'"
    and "db_view d' = db_view d \<or> v_upload i (\<lambda>a b. a = None \<and> b = Some u) (db_view d) (db_view d')"
    and "res = Inr x \<Longrightarrow> v_upload i (\<lambda>a b. a = None \<and> b = Some u) (db_view d) (db_view d')"
proof -
  let ?P = "\<lambda>r. ob_id r = i \<and> ob_available_at r = None \<and> ro_expired r = None \<and> ob_upload r = None"
  let ?f = "\<lambda>t (r :: row). r\<lparr>ob_upload := Some u, ob_updated := t\<rparr>"
  obtain r0 where g: "run_sql (\<lambda>d. sql_update ?P (?f (db_now d)) d) d = (r0, d')"
    and res: "res = (case r0 of Inl e \<Rightarrow> Inl (mutation_error e)
                | Inr tag \<Rightarrow> if tag = [] then Inl (Sentinel ErrNotFound) else Inr ())"
    using c by (auto simp: pg_record_upload_def split: prod.splits sum.splits if_splits)
  have P: "\<forall>r. ?P r \<longrightarrow> ob_id r = i" by simp
  note l = run_update [OF d P _ g, simplified]
  have eff: "upd_effect i ?P (?f t) d r d' \<Longrightarrow>
      v_upload i (\<lambda>a b. a = None \<and> b = Some u) (db_view d) (db_view d')" for r t
    by (auto simp: upd_effect_def v_upload_def live_def)
  show "db_ok d'" by (rule l(1))
  show "db_view d' = db_view d \<or> v_upload i (\<lambda>a b. a = None \<and> b = Some u) (db_view d) (db_view d')"
    using l(2) eff by blast
  show "res = Inr x \<Longrightarrow> v_upload i (\<lambda>a b. a = None \<and> b = Some u) (db_view d) (db_view d')"
    using l(3) eff res by (auto split: sum.splits if_splits)
qed

lemma pg_clear_law:
  assumes d: "db_ok d" and c: "pg_clear_upload i u d = (res, d')"
  shows "db_ok d'"
    and "db_view d' = db_view d \<or> v_upload i (\<lambda>a b. a = Some u \<and> b = None) (db_view d) (db_view d')"
    and "res = Inr x \<Longrightarrow> \<exists>r. db_view d' i = Some r \<and> live r \<and> ob_upload r = None"
proof -
  let ?P = "\<lambda>r. ob_id r = i \<and> ro_expired r = None \<and> ob_upload r = Some u"
  let ?f = "\<lambda>t (r :: row). r\<lparr>ob_upload := None, ob_updated := t\<rparr>"
  obtain r0 d1 where g: "run_sql (\<lambda>d. sql_update ?P (?f (db_now d)) d) d = (r0, d1)"
    by (cases "run_sql (\<lambda>d. sql_update ?P (?f (db_now d)) d) d")
  note c' = c [unfolded pg_clear_upload_def Let_def g prod.case]
  have P: "\<forall>r. ?P r \<longrightarrow> ob_id r = i" by simp
  note l = run_update [OF d P _ g, simplified]
  note get = pg_get_cases [OF l(1)]
  have eff: "upd_effect i ?P (?f t) d r d1 \<Longrightarrow>
      v_upload i (\<lambda>a b. a = Some u \<and> b = None) (db_view d) (db_view d1)
      \<and> (\<exists>r. db_view d1 i = Some r \<and> live r \<and> ob_upload r = None)" for r t
    by (auto simp: upd_effect_def v_upload_def live_def)
  have step: "db_view d' = db_view d1 \<and> db_ok d'"
    using c' l(1) get(1) by (auto split: sum.splits if_splits prod.splits)
  then show "db_ok d'" by blast
  show "db_view d' = db_view d \<or> v_upload i (\<lambda>a b. a = Some u \<and> b = None) (db_view d) (db_view d')"
    using l(2) eff step by auto
  show "res = Inr x \<Longrightarrow> \<exists>r. db_view d' i = Some r \<and> live r \<and> ob_upload r = None"
  proof -
    assume res: "res = Inr x"
    with c' obtain tag where tag: "r0 = Inr tag" by (cases r0) auto
    show ?thesis
    proof (cases "tag = []")
      case False
      with l(3) [OF tag] eff step show ?thesis by auto
    next
      case True
      with c' tag res obtain b d2 where "pg_get i d1 = (Inr b, d2)" "ob_upload b = None"
        by (auto split: sum.splits prod.splits if_splits)
      with get(2) step show ?thesis by fastforce
    qed
  qed
qed

lemma pg_purge_law:
  assumes d: "db_ok d" and c: "pg_delete_expired i d = (res, d')"
  shows "db_ok d'"
    and "db_view d' = db_view d \<or> (\<exists>r. v_deleted i (\<lambda>r. \<not> live r) (db_view d) r (db_view d'))"
proof -
  let ?P = "\<lambda>r. ob_id r = i \<and> ro_expired r \<noteq> None"
  obtain r0 where g: "run_sql (sql_delete ?P) d = (r0, d')"
    using c by (auto simp: pg_delete_expired_def split: prod.splits sum.splits if_splits)
  have P: "\<forall>r. ?P r \<longrightarrow> ob_id r = i" by simp
  note u = delete_one_faults [OF d P]
  have eff: "v_deleted i ?P (db_view d) r (db_view d') \<Longrightarrow>
      v_deleted i (\<lambda>r. \<not> live r) (db_view d) r (db_view d')" for r
    by (auto simp: v_deleted_def live_def)
  show "db_ok d'" using g d by (cases rule: run_sql_cases) (auto dest: u(1) simp del: not_None_eq)
  show "db_view d' = db_view d \<or> (\<exists>r. v_deleted i (\<lambda>r. \<not> live r) (db_view d) r (db_view d'))"
    using g
  proof (cases rule: run_sql_cases)
    case (ran fs)
    then show ?thesis using u(2,3) [OF ran] eff by (cases r0) blast+
  next
    case (lost fs j res')
    then show ?thesis using u(2,3) [OF lost(2)] eff by (cases res') blast+
  qed simp
qed

text \<open>Statements that only read.\<close>

definition reads :: "'a stmt \<Rightarrow> bool" where
  "reads s \<longleftrightarrow> (\<forall>d. snd (s d) = d)"

lemma run_reads:
  assumes "reads s" and "run_sql s d = (res, d')"
  shows "db_view d' = db_view d \<and> (db_ok d \<longrightarrow> db_ok d')"
    and "res = Inr x \<Longrightarrow> \<exists>fs. fst (s (d\<lparr>db_faults := fs\<rparr>)) = Inr x"
proof -
  have s: "s (d\<lparr>db_faults := fs\<rparr>) = (r, d1) \<Longrightarrow> d1 = d\<lparr>db_faults := fs\<rparr>" for fs r d1
    using assms(1) unfolding reads_def by (metis snd_conv)
  from assms(2) show "db_view d' = db_view d \<and> (db_ok d \<longrightarrow> db_ok d')"
    by (cases rule: run_sql_cases) (auto dest!: s)
  from assms(2) show "res = Inr x \<Longrightarrow> \<exists>fs. fst (s (d\<lparr>db_faults := fs\<rparr>)) = Inr x"
    by (cases rule: run_sql_cases) (auto, metis fst_conv)
qed

lemma reads_const: "reads (\<lambda>d. (Inr (F d), d))"
  by (simp add: reads_def)

lemmas run_const = run_reads(1) [OF reads_const]

lemma pg_list_ids_law:
  assumes d: "db_ok d" and c: "pg_list_by_ids ids d = (res, d')"
  shows "db_view d' = db_view d \<and> db_ok d'"
    and "res = Inr m \<Longrightarrow> map_of m i = (if i \<in> set ids then
             (case db_view d i of Some r \<Rightarrow> if live r then Some (row_obj r) else None | None \<Rightarrow> None) else None)"
proof -
  let ?P = "\<lambda>r. ob_id r \<in> set ids \<and> ro_expired r = None"
  obtain r0 where g: "run_sql (sql_select ?P) d = (r0, d')"
    and res: "res = (case r0 of Inl e \<Rightarrow> Inl e | Inr rows \<Rightarrow> Inr (map (\<lambda>r. (ob_id r, row_obj r)) rows))"
    using c by (auto simp: pg_list_by_ids_def split: prod.splits sum.splits)
  have rd: "reads (sql_select ?P)" by (simp add: reads_def sql_select_def)
  note l = run_reads [OF rd g]
  show "db_view d' = db_view d \<and> db_ok d'" using l(1) d by blast
  have mo: "map_of (map (\<lambda>r. (ob_id r, row_obj r)) rs) i = map_option row_obj (find_by ob_id i rs)" for rs
    by (induction rs) auto
  assume "res = Inr m"
  with res l(2) have m: "m = map (\<lambda>r. (ob_id r, row_obj r)) (filter ?P (db_rows d))"
    by (auto simp: sql_select_def split: sum.splits)
  have dist: "distinct (map ob_id (db_rows d))" using d by (simp add: db_ok_def)
  show "map_of m i = (if i \<in> set ids then
             (case db_view d i of Some r \<Rightarrow> if live r then Some (row_obj r) else None | None \<Rightarrow> None) else None)"
    unfolding m mo find_by_filter [OF dist]
    by (auto simp: db_view_def live_def split: option.splits dest!: find_by_SomeD)
qed

lemma pg_list_prefix_law:
  assumes "db_ok d" and "pg_list_by_prefix p opts d = (res, d')"
  shows "db_view d' = db_view d \<and> db_ok d'"
  using assms unfolding pg_list_by_prefix_def Let_def
  by (auto split: prod.splits sum.splits dest!: run_const)

lemma pg_unref_law:
  assumes "db_ok d" and "pg_list_unreferenced ps t n d = (res, d')"
  shows "db_view d' = db_view d \<and> db_ok d'"
proof -
  have rd: "reads (unreferenced_rows conds ps t n)" for conds
    by (simp add: reads_def unreferenced_rows_def)
  show ?thesis
    using assms unfolding pg_list_unreferenced_def Let_def
    by (auto split: prod.splits sum.splits dest!: run_const run_reads(1) [OF rd])
qed

text \<open>A claim: the claimed rows are not available, and exactly they change.\<close>

lemma claim_update:
  assumes d: "db_ok d"
    and s: "sql_update (\<lambda>r. ob_id r \<in> A \<and> ob_available_at r = None) (\<lambda>r. r\<lparr>ro_expired := Some t\<rparr>) d = (res, d')"
  shows "db_ok d'"
    and "\<exists>B. v_claimed (db_view d) B (db_view d')"
    and "res = Inr rows \<Longrightarrow> v_claimed (db_view d) (ob_id ` set rows) (db_view d')
          \<and> (\<forall>r \<in> set rows. \<exists>q. db_view d (ob_id r) = Some q \<and> row_obj r = row_obj q)"
proof -
  let ?P = "\<lambda>r. ob_id r \<in> A \<and> ob_available_at r = None" and ?f = "\<lambda>r :: row. r\<lparr>ro_expired := Some t\<rparr>"
  have f: "\<And>r. ob_id (?f r) = ob_id r" by simp
  have unclaimed: "v_claimed (db_view d) {} (db_view d)" by (simp add: v_claimed_def)
  have main: "v_claimed (db_view d) (ob_id ` set rows) (db_view d') \<and> db_ok d'
          \<and> (\<forall>r \<in> set rows. \<exists>q. db_view d (ob_id r) = Some q \<and> row_obj r = row_obj q)"
    if res: "res = Inr rows" for rows
  proof -
    note u = sql_update_view [OF d f s [unfolded res]]
    have rows: "i \<in> ob_id ` set rows \<longleftrightarrow> (\<exists>r. db_view d i = Some r \<and> ?P r)" for i
      unfolding u(3) using db_view_iff [OF d] by (auto simp: image_iff)
    have "v_claimed (db_view d) (ob_id ` set rows) (db_view d')"
      unfolding v_claimed_def u(2)
    proof (intro exI [of _ t] conjI ballI ext)
      fix i
      show "map_option (\<lambda>r. if ?P r then ?f r else r) (db_view d i)
          = (if i \<in> ob_id ` set rows then map_option ?f (db_view d i) else db_view d i)"
        using rows [of i] by (cases "db_view d i") auto
      show "\<exists>q. db_view d i = Some q \<and> \<not> available q" if "i \<in> ob_id ` set rows"
        using that rows [of i] by (auto simp: available_def)
    qed
    moreover have "\<exists>q. db_view d (ob_id r) = Some q \<and> row_obj r = row_obj q" if "r \<in> set rows" for r
      using that db_view_iff [OF d] unfolding u(3) by (auto simp: row_obj_def obj.truncate_def)
    ultimately show ?thesis using u(1) by blast
  qed
  show "res = Inr rows \<Longrightarrow> v_claimed (db_view d) (ob_id ` set rows) (db_view d')
          \<and> (\<forall>r \<in> set rows. \<exists>q. db_view d (ob_id r) = Some q \<and> row_obj r = row_obj q)"
    using main by blast
  have same: "d' = d" if "res = Inl e" for e
    using sql_update_err [OF s [unfolded that]] by blast
  show "db_ok d'" using main same d by (cases res) auto
  show "\<exists>B. v_claimed (db_view d) B (db_view d')"
  proof (cases res)
    case (Inl e)
    then have "d' = d" by (rule same)
    then show ?thesis using unclaimed by (intro exI [of _ "{}"]) simp
  next
    case (Inr rows)
    with main show ?thesis by blast
  qed
qed

lemma pg_claim_law:
  assumes d: "db_ok d" and c: "pg_claim_expired ub rb n d = (res, d')"
  shows "db_ok d'"
    and "\<exists>A. v_claimed (db_view d) A (db_view d')"
    and "res = Inr bs \<Longrightarrow> v_claimed (db_view d) (ob_id ` set bs) (db_view d')
          \<and> (\<forall>b \<in> set bs. \<exists>r. db_view d (ob_id b) = Some r \<and> b = row_obj r)"
proof -
  let ?s = "\<lambda>d. let ids = map ob_id (claim_candidates ub rb n (db_rows d)) in
      sql_update (\<lambda>r. ob_id r \<in> set ids \<and> ob_available_at r = None) (\<lambda>r. r\<lparr>ro_expired := Some (db_now d)\<rparr>) d"
  obtain r0 where g: "run_sql ?s d = (r0, d')"
    and res: "res = (case r0 of Inl e \<Rightarrow> Inl e | Inr rows \<Rightarrow> Inr (map row_obj rows))"
    using c by (auto simp: pg_claim_expired_def split: prod.splits sum.splits)
  note cl = claim_update [where d = "d\<lparr>db_faults := fs\<rparr>" for fs, simplified, OF d]
  have unclaimed: "v_claimed (db_view d) {} (db_view d)" by (simp add: v_claimed_def)
  show "db_ok d'"
    using g d by (cases rule: run_sql_cases) (auto simp: Let_def dest: cl(1))
  show "\<exists>A. v_claimed (db_view d) A (db_view d')"
    using g
  proof (cases rule: run_sql_cases)
    case (refused fs i)
    then show ?thesis using unclaimed by (intro exI [of _ "{}"]) simp
  qed (auto simp: Let_def dest: cl(2))
  assume bs: "res = Inr bs"
  with res obtain rows where rows: "r0 = Inr rows" "bs = map row_obj rows"
    by (auto split: sum.splits)
  have ids: "ob_id ` set bs = ob_id ` set rows" using rows(2) by (auto simp: image_image)
  from g rows(1) show "v_claimed (db_view d) (ob_id ` set bs) (db_view d')
      \<and> (\<forall>b \<in> set bs. \<exists>r. db_view d (ob_id b) = Some r \<and> b = row_obj r)"
  proof (cases rule: run_sql_cases)
    case (ran fs)
    from ran have "sql_update (\<lambda>r. ob_id r \<in> set (map ob_id (claim_candidates ub rb n (db_rows d))) \<and> ob_available_at r = None)
        (\<lambda>r. r\<lparr>ro_expired := Some (db_now d)\<rparr>) (d\<lparr>db_faults := fs\<rparr>) = (r0, d')"
      by (simp add: Let_def)
    from cl(3) [OF this rows(1)] show ?thesis unfolding ids by (simp add: rows(2))
  qed auto
qed

subsection \<open>The store is a registry\<close>

text \<open>
  The laws are stated of \<open>(res, w')\<close>; for the invariant the contract speaks of the second
  component of the result.
\<close>

lemmas pg_invariant_laws =
  pg_create_law(1) [OF _ surjective_pairing] pg_mark_law(1) [OF _ surjective_pairing]
  pg_refresh_law(1) [OF _ surjective_pairing] pg_record_law(1) [OF _ surjective_pairing]
  pg_clear_law(1) [OF _ surjective_pairing] pg_delete_law(1) [OF _ surjective_pairing]
  pg_claim_law(1) [OF _ surjective_pairing] pg_purge_law(1) [OF _ surjective_pairing]

lemma db_view_id: "db_ok d \<Longrightarrow> db_view d i = Some r \<Longrightarrow> ob_id r = i"
  by (simp add: db_view_Some)

lemmas pg_laws =
  db_view_id pg_invariant_laws pg_create_law(2,3) [OF _ _ refl] pg_mark_law(2) [OF _ _ refl]
  pg_mark_law(3) [OF _ _ refl, THEN conjunct1] pg_mark_law(3) [OF _ _ refl, THEN conjunct2, rule_format]
  pg_refresh_law(2,3) [OF _ _ refl] pg_record_law(2) pg_record_law(3) [OF _ _ refl]
  pg_clear_law(2) pg_clear_law(3) [OF _ _ refl] pg_get_cases(1) pg_get_cases(2) [OF _ _ refl]
  pg_list_ids_law(1) pg_list_ids_law(2) [OF _ _ refl] pg_list_prefix_law pg_delete_law(2) [OF _ _ refl]
  pg_delete_law(3) [OF _ _ refl, THEN conjunct1] pg_delete_law(3) [OF _ _ refl, THEN conjunct2, rule_format]
  pg_claim_law(2) pg_claim_law(3) [OF _ _ refl] pg_purge_law(2) pg_unref_law

interpretation pg: registry_contract pg_registry db_view db_ok
  by (unfold_locales, unfold pg_registry_def registry.simps) (rule pg_laws; assumption)+

subsection \<open>The sequence of IDs\<close>

definition seq_grows :: "'a stmt \<Rightarrow> bool" where
  "seq_grows s \<longleftrightarrow> (\<forall>d. db_next d \<le> db_next (snd (s d)))"

lemma seq_run [intro]: "seq_grows s \<Longrightarrow> seq_grows (run_sql s)"
  unfolding seq_grows_def run_sql_def
  by (auto simp: Let_def split: list.splits fault.splits) (metis db.select_convs(2) db.surjective db.update_convs(5))+

lemma seq_const [intro]: "seq_grows (\<lambda>d. (F d, d))"
  by (simp add: seq_grows_def)

lemma seq_insert [intro]: "seq_grows (\<lambda>d. sql_insert (f d) d)"
  by (auto simp: seq_grows_def sql_insert_def Let_def)

lemma seq_update [intro]: "seq_grows (\<lambda>d. sql_update (P d) (f d) d)"
  by (auto simp: seq_grows_def sql_update_def Let_def)

lemma seq_delete [intro]: "seq_grows (sql_delete P)"
  by (auto simp: seq_grows_def sql_delete_def Let_def)

lemma seq_select [intro]: "seq_grows (sql_select P)"
  by (auto simp: seq_grows_def sql_select_def)

lemma seq_unref [intro]: "seq_grows (unreferenced_rows cs ps t n)"
  by (auto simp: seq_grows_def unreferenced_rows_def)

lemma seq_get_object [intro]: "seq_grows s \<Longrightarrow> seq_grows (get_object s)"
  using seq_run [of s] by (auto simp: seq_grows_def get_object_def Let_def split: prod.splits) (metis snd_conv)

text \<open>An operation that post-processes the result of a statement, or runs two.\<close>

lemma seq_then:
  assumes "seq_grows s" and "\<And>r. seq_grows (g r)"
  shows "seq_grows (\<lambda>d. let (r, d') = s d in g r d')"
  using assms by (auto simp: seq_grows_def Let_def split: prod.splits) (metis order_trans snd_conv)

lemma seq_grows_D: "seq_grows s \<Longrightarrow> db_next d \<le> db_next (snd (s d))"
  by (simp add: seq_grows_def)

lemma seq_case_result [intro]:
  "(\<And>e. seq_grows (\<lambda>d. f e d)) \<Longrightarrow> (\<And>x. seq_grows (\<lambda>d. g x d)) \<Longrightarrow>
     seq_grows (\<lambda>d. case r of Inl e \<Rightarrow> f e d | Inr x \<Rightarrow> g x d)"
  by (cases r) auto

lemma seq_if [intro]: "seq_grows f \<Longrightarrow> seq_grows g \<Longrightarrow> seq_grows (\<lambda>d. if b then f d else g d)"
  by (cases b) auto

lemma pg_get_grows: "seq_grows (pg_get i)"
  unfolding pg_get_def [abs_def] by (intro seq_then seq_get_object seq_select seq_const)

lemma pg_create_grows: "seq_grows (pg_create_pending p f c)"
  unfolding pg_create_pending_def [abs_def] by (intro seq_then seq_get_object seq_insert seq_const)

lemma pg_mark_grows: "seq_grows (pg_mark_available i ct k)"
  unfolding pg_mark_available_def [abs_def]
  by (intro seq_then seq_get_object seq_update seq_const seq_case_result seq_if pg_get_grows)

lemma pg_refresh_grows: "seq_grows (pg_refresh_pending i)"
  unfolding pg_refresh_pending_def [abs_def] by (intro seq_then seq_get_object seq_update seq_const)

lemma pg_record_grows: "seq_grows (pg_record_upload i u)"
  unfolding pg_record_upload_def [abs_def]
  by (intro seq_then seq_run seq_update seq_const seq_case_result seq_if)

lemma pg_clear_grows: "seq_grows (pg_clear_upload i u)"
  unfolding pg_clear_upload_def [abs_def]
  by (intro seq_then seq_run seq_update seq_const seq_case_result seq_if pg_get_grows)

lemma pg_list_ids_grows: "seq_grows (pg_list_by_ids ids)"
  unfolding pg_list_by_ids_def [abs_def] by (intro seq_then seq_run seq_select seq_const seq_case_result)

lemma pg_list_prefix_grows: "seq_grows (pg_list_by_prefix p opts)"
  unfolding pg_list_by_prefix_def [abs_def] Let_def [of "\<lambda>r. _ r"]
  by (intro seq_then seq_run seq_const seq_case_result)

lemma pg_delete_grows: "seq_grows (pg_delete i)"
  unfolding pg_delete_def [abs_def] by (intro seq_then seq_get_object seq_delete seq_const)

lemma pg_claim_grows: "seq_grows (pg_claim_expired ub rb n)"
  unfolding pg_claim_expired_def [abs_def] Let_def [of "map _ _"]
  by (intro seq_then seq_run seq_update seq_const seq_case_result)

lemma pg_purge_grows: "seq_grows (pg_delete_expired i)"
  unfolding pg_delete_expired_def [abs_def]
  by (intro seq_then seq_run seq_delete seq_const seq_case_result seq_if)

lemma pg_unref_grows: "seq_grows (pg_list_unreferenced ps t n)"
  unfolding pg_list_unreferenced_def [abs_def]
  by (intro seq_then seq_run seq_unref seq_const seq_case_result)

lemmas pg_grows =
  pg_create_grows pg_mark_grows pg_refresh_grows pg_record_grows pg_clear_grows pg_get_grows
  pg_list_ids_grows pg_list_prefix_grows pg_delete_grows pg_claim_grows pg_purge_grows pg_unref_grows

lemmas pg_grows_steps = pg_grows [THEN seq_grows_D]

lemma insert_bound: "sql_insert r d = (res, d') \<Longrightarrow> db_view d' i \<noteq> db_view d i \<Longrightarrow> db_next d \<le> i"
  by (auto simp: sql_insert_def db_view_def Let_def split: if_splits option.splits)

lemma pg_create_bound:
  assumes c: "pg_create_pending p f c d = (res, d')" and i: "db_view d' i \<noteq> db_view d i"
  shows "db_next d \<le> i"
proof -
  let ?s = "\<lambda>d. sql_insert \<lparr>ob_id = 0, ob_prefix = p, ob_filename = f, ob_ctype = '''',
              ob_size = Some (c_size c), ob_sha256 = Some (c_sha256 c), ob_crc64 = Some (c_crc64 c),
              ob_available_at = None, ob_upload = None, ob_storage_key = None,
              ob_created = db_now d, ob_updated = db_now d, ro_expired = None\<rparr> d"
  from c obtain r0 where "run_sql ?s d = (r0, d')"
    by (auto simp: pg_create_pending_def get_object_def split: prod.splits)
  then show ?thesis
  proof (cases rule: run_sql_cases)
    case (ran fs)
    from insert_bound [OF ran] i show ?thesis by simp
  next
    case (refused fs j)
    with i show ?thesis by simp
  next
    case (lost fs j res0)
    from insert_bound [OF lost(2)] i show ?thesis by simp
  qed
qed

lemma db_view_bound: "db_ok d \<Longrightarrow> db_view d i = Some r \<Longrightarrow> i < db_next d"
  by (metis db_view_next linorder_not_le option.distinct(1))

interpretation pgf: registry_fresh pg_registry db_view db_ok db_next
  by (unfold_locales, unfold pg_registry_def registry.simps)
     ((rule db_view_bound pg_create_bound pg_grows_steps; assumption) | rule pg_grows_steps)+

end
