(* ===== verification/Capability.thy ===== *)
theory Capability
  imports Content
begin

text \<open>
  \<open>bloby/capability.go\<close>: signed transfer capabilities. HMAC-SHA256 (\<open>crypto/hmac\<close>) and the
  JSON form of the claims (\<open>encoding/json\<close>) are parameters: a message authentication function,
  and a pair of functions between claims and their JSON text. What the code relies on is that
  unmarshalling inverts marshalling on valid UTF-8 (\<open>codec_ok\<close>) and, for the safety of the
  transfer endpoint, that nobody without the key can produce an authentication code.
\<close>

definition capability_get :: string where "capability_get = ''get''"
definition capability_put :: string where "capability_put = ''put''"

record claims =
  cl_op :: string
  cl_key :: string
  cl_exp :: int
  cl_ctype :: string
  cl_size :: int
  cl_sha256 :: string

definition no_claims :: claims where
  "no_claims = \<lparr>cl_op = '''', cl_key = '''', cl_exp = 0, cl_ctype = '''', cl_size = 0, cl_sha256 = ''''\<rparr>"

record crypto =
  cr_hmac :: "string \<Rightarrow> string \<Rightarrow> string"
  cr_marshal :: "claims \<Rightarrow> string"
  cr_unmarshal :: "string \<Rightarrow> claims option"

text \<open>Strings that are valid UTF-8 survive the JSON round trip; integers have 64 bits.\<close>

definition claims_ok :: "claims \<Rightarrow> bool" where
  "claims_ok c \<longleftrightarrow> utf8_valid (cl_op c) \<and> utf8_valid (cl_key c) \<and> utf8_valid (cl_ctype c)
     \<and> utf8_valid (cl_sha256 c) \<and> in_int64 (cl_exp c) \<and> in_int64 (cl_size c)"

definition codec_ok :: "crypto \<Rightarrow> bool" where
  "codec_ok C \<longleftrightarrow>
     (\<forall>c. claims_ok c \<longrightarrow> cr_unmarshal C (cr_marshal C c) = Some c)
     \<and> (\<forall>c. cr_marshal C c \<noteq> []) \<and> (\<forall>k m. cr_hmac C k m \<noteq> [])"

definition capability_mac :: "crypto \<Rightarrow> string \<Rightarrow> string \<Rightarrow> string" where
  "capability_mac C key message = cr_hmac C key message"

definition sign_capability :: "crypto \<Rightarrow> string \<Rightarrow> claims \<Rightarrow> string" where
  "sign_capability C key c =
     (let encoded_payload = b64url_encode (cr_marshal C c);
          mac = capability_mac C key encoded_payload
      in encoded_payload @ ''.'' @ b64url_encode mac)"

text \<open>The clock is in nanoseconds; \<open>Unix\<close> rounds down to seconds.\<close>

definition unix_seconds :: "int \<Rightarrow> int" where
  "unix_seconds t = t div 1000000000"

definition verify_capability :: "crypto \<Rightarrow> string \<Rightarrow> string \<Rightarrow> string \<Rightarrow> int \<Rightarrow> claims result" where
  "verify_capability C key token op now =
     (let (encoded_payload, encoded_mac, found) = cut (CHR ''.'') token in
      if \<not> found \<or> encoded_payload = '''' \<or> encoded_mac = '''' then Inl (Sentinel ErrInvalidCapability)
      else case b64url_decode encoded_mac of
        None \<Rightarrow> Inl (Sentinel ErrInvalidCapability)
      | Some mac \<Rightarrow>
          if mac \<noteq> capability_mac C key encoded_payload then Inl (Sentinel ErrInvalidCapability)
          else case b64url_decode encoded_payload of
            None \<Rightarrow> Inl (Sentinel ErrInvalidCapability)
          | Some payload \<Rightarrow>
              (case cr_unmarshal C payload of
                 None \<Rightarrow> Inl (Sentinel ErrInvalidCapability)
               | Some c \<Rightarrow>
                   if cl_exp c \<le> unix_seconds now then Inl (Sentinel ErrExpiredCapability)
                   else if cl_op c \<noteq> op then Inl (Sentinel ErrInvalidCapability)
                   else Inr c))"

lemma cut_signed:
  "cut (CHR ''.'') (sign_capability C key c) =
     (b64url_encode (cr_marshal C c), b64url_encode (capability_mac C key (b64url_encode (cr_marshal C c))), True)"
proof -
  have "CHR ''.'' \<notin> set (b64url_encode (cr_marshal C c))"
    using b64url_encode_chars by blast
  from cut_found [OF this] show ?thesis by (simp add: sign_capability_def Let_def)
qed

text \<open>What a verified token shows: its payload carries the server's authentication code.\<close>

definition authentic :: "crypto \<Rightarrow> string \<Rightarrow> string \<Rightarrow> claims \<Rightarrow> bool" where
  "authentic C key token c \<longleftrightarrow>
     (\<exists>p m. cut (CHR ''.'') token = (p, m, True) \<and> b64url_decode m = Some (capability_mac C key p)
        \<and> (\<exists>j. b64url_decode p = Some j \<and> cr_unmarshal C j = Some c))"

lemma verify_capability_Inr:
  assumes "verify_capability C key token op now = Inr c"
  shows "authentic C key token c" "unix_seconds now < cl_exp c" "cl_op c = op"
  using assms
  by (auto simp: verify_capability_def authentic_def split: prod.splits if_splits option.splits)

lemma verify_capability_err:
  "verify_capability C key token op now = Inl e \<Longrightarrow>
     e = Sentinel ErrInvalidCapability \<or> e = Sentinel ErrExpiredCapability"
  by (auto simp: verify_capability_def split: prod.splits if_splits option.splits)

lemma verify_signed:
  assumes "codec_ok C" "claims_ok c"
  shows "verify_capability C key (sign_capability C key c) op now =
    (if cl_exp c \<le> unix_seconds now then Inl (Sentinel ErrExpiredCapability)
     else if cl_op c \<noteq> op then Inl (Sentinel ErrInvalidCapability) else Inr c)"
  using assms
  by (simp add: verify_capability_def cut_signed b64url_decode_encode codec_ok_def capability_mac_def)

end
