(* ===== verification/FileStore.thy ===== *)
theory FileStore
  imports Backend Capability
begin

text \<open>
  \<open>bloby/file.go\<close>: the backend that keeps objects in a local directory, on a model of the file
  system: absolute paths with files (their bytes and modification time) and directories. Every
  call of package \<open>os\<close> consumes one entry of the schedule of faults. URLs are assembled by
  \<open>net/url\<close>, which is a parameter (\<open>netlib\<close>): its parser, reduced to the scheme and host of a
  URL, and the setting of one query value.
\<close>

subsection \<open>File system\<close>

datatype node = File string int | Dir

type_synonym nodes = "(string \<times> node) list"

record fstate =
  fs_nodes :: nodes
  fs_now :: int
  fs_rand :: nat          \<comment> \<open>the next number of a temporary file, chosen by the environment\<close>
  fs_dir_size :: int      \<comment> \<open>what \<open>Stat\<close> reports as the size of a directory\<close>
  fs_faults :: "fault list"

type_synonym 'a fsop = "fstate \<Rightarrow> 'a result \<times> fstate"

definition os_call :: "'a fsop \<Rightarrow> 'a fsop" where
  "os_call f s =
     (case fs_faults s of
        [] \<Rightarrow> f s
      | x # xs \<Rightarrow>
          let s' = s\<lparr>fs_faults := xs\<rparr> in
          (case x of
             Works \<Rightarrow> f s'
           | Refused i \<Rightarrow> (Inl (infra_err i), s')
           | Lost i \<Rightarrow> (Inl (infra_err i), snd (f s'))))"

definition node_set :: "string \<Rightarrow> node \<Rightarrow> nodes \<Rightarrow> nodes" where
  "node_set p n ns = (p, n) # filter (\<lambda>e. fst e \<noteq> p) ns"

definition node_del :: "string \<Rightarrow> nodes \<Rightarrow> nodes" where
  "node_del p ns = filter (\<lambda>e. fst e \<noteq> p) ns"

definition abs_path :: "string list \<Rightarrow> string" where
  "abs_path cs = CHR ''/'' # join_with ''/'' cs"

definition path_comps :: "string \<Rightarrow> string list" where
  "path_comps p = filter (\<lambda>c. c \<noteq> []) (split_on (CHR ''/'') p)"

text \<open>\<open>os.MkdirAll\<close> makes the missing directories from the root down.\<close>

definition ancestors :: "string \<Rightarrow> string list" where
  "ancestors p = (let cs = path_comps p in map (\<lambda>n. abs_path (take n cs)) [1..<Suc (length cs)])"

fun mkdirs :: "string list \<Rightarrow> nodes \<Rightarrow> nodes result" where
  "mkdirs [] ns = Inr ns"
| "mkdirs (p # ps) ns =
     (case map_of ns p of
        None \<Rightarrow> mkdirs ps (node_set p Dir ns)
      | Some Dir \<Rightarrow> mkdirs ps ns
      | Some (File _ _) \<Rightarrow> Inl (Opaque ''not a directory''))"

text \<open>A path with a file among its ancestors cannot be reached (\<open>ENOTDIR\<close>).\<close>

definition is_file :: "string \<Rightarrow> nodes \<Rightarrow> bool" where
  "is_file p ns = (case map_of ns p of Some (File _ _) \<Rightarrow> True | _ \<Rightarrow> False)"

definition blocked :: "string \<Rightarrow> nodes \<Rightarrow> bool" where
  "blocked p ns = list_ex (\<lambda>q. is_file q ns) (butlast (ancestors p))"

definition enotdir :: goerr where
  "enotdir = Opaque ''not a directory''"

definition os_mkdir_all :: "string \<Rightarrow> unit fsop" where
  "os_mkdir_all p s =
     (case mkdirs (ancestors p) (fs_nodes s) of
        Inl e \<Rightarrow> (Inl e, s)
      | Inr ns \<Rightarrow> (Inr (), s\<lparr>fs_nodes := ns\<rparr>))"

text \<open>\<open>os.CreateTemp\<close> tries 10000 numbers and gives up.\<close>

fun fresh_temp :: "nat \<Rightarrow> string \<Rightarrow> nodes \<Rightarrow> nat \<Rightarrow> (string \<times> nat) option" where
  "fresh_temp 0 base ns k = None"
| "fresh_temp (Suc n) base ns k =
     (if map_of ns (base @ show_nat k) = None then Some (base @ show_nat k, Suc k)
      else fresh_temp n base ns (Suc k))"

definition temp_base :: "string \<Rightarrow> string" where
  "temp_base dir = (if dir \<noteq> [] \<and> last dir = CHR ''/'' then dir else dir @ ''/'') @ ''.upload-''"

definition os_create_temp :: "string \<Rightarrow> string fsop" where
  "os_create_temp dir s =
     (if blocked (temp_base dir) (fs_nodes s) then (Inl enotdir, s)
      else if dir \<noteq> ''/'' \<and> map_of (fs_nodes s) dir \<noteq> Some Dir then (Inl (Sentinel NotExist), s)
      else case fresh_temp 10000 (temp_base dir) (fs_nodes s) (fs_rand s) of
        None \<Rightarrow> (Inl (Opaque ''file exists''), s)
      | Some (p, k) \<Rightarrow>
          (Inr p, s\<lparr>fs_nodes := node_set p (File [] (fs_now s)) (fs_nodes s), fs_rand := k\<rparr>))"

definition os_write :: "string \<Rightarrow> string \<Rightarrow> unit fsop" where
  "os_write p b s = (Inr (), s\<lparr>fs_nodes := node_set p (File b (fs_now s)) (fs_nodes s)\<rparr>)"

text \<open>\<open>Close\<close> and \<open>Chmod\<close> change nothing that the model shows.\<close>

definition os_noop :: "unit fsop" where
  "os_noop s = (Inr (), s)"

definition os_rename :: "string \<Rightarrow> string \<Rightarrow> unit fsop" where
  "os_rename a b s =
     (if blocked a (fs_nodes s) \<or> blocked b (fs_nodes s) then (Inl enotdir, s)
      else case (map_of (fs_nodes s) a, map_of (fs_nodes s) b) of
        (None, _) \<Rightarrow> (Inl (Sentinel NotExist), s)
      | (Some n, Some Dir) \<Rightarrow> (Inl (Opaque ''file exists''), s)
      | (Some n, _) \<Rightarrow> (Inr (), s\<lparr>fs_nodes := node_set b n (if a = b then fs_nodes s else node_del a (fs_nodes s))\<rparr>))"

definition has_children :: "string \<Rightarrow> nodes \<Rightarrow> bool" where
  "has_children p ns = list_ex (\<lambda>e. prefix (p @ ''/'') (fst e)) ns"

definition os_remove :: "string \<Rightarrow> unit fsop" where
  "os_remove p s =
     (if blocked p (fs_nodes s) then (Inl enotdir, s)
      else case map_of (fs_nodes s) p of
        None \<Rightarrow> (Inl (Sentinel NotExist), s)
      | Some (File _ _) \<Rightarrow> (Inr (), s\<lparr>fs_nodes := node_del p (fs_nodes s)\<rparr>)
      | Some Dir \<Rightarrow>
          if has_children p (fs_nodes s) then (Inl (Opaque ''directory not empty''), s)
          else (Inr (), s\<lparr>fs_nodes := node_del p (fs_nodes s)\<rparr>))"

definition os_lookup :: "string \<Rightarrow> node fsop" where
  "os_lookup p s =
     (if blocked p (fs_nodes s) then (Inl enotdir, s)
      else case map_of (fs_nodes s) p of None \<Rightarrow> (Inl (Sentinel NotExist), s) | Some n \<Rightarrow> (Inr n, s))"

text \<open>Reading an opened file to its end; a directory cannot be read.\<close>

fun node_reader :: "node \<Rightarrow> reader" where
  "node_reader (File b _) = bytes_reader b"
| "node_reader Dir = \<lparr>rd_bytes = [], rd_err = Some (Opaque ''is a directory'')\<rparr>"

subsection \<open>The store\<close>

record fconf =
  fc_root :: string
  fc_base_url :: string
  fc_origin :: string
  fc_key :: string
  fc_ttl :: int

record netlib =
  nl_scheme_host :: "string \<Rightarrow> (string \<times> string) option"
  nl_set_query :: "string \<Rightarrow> string \<Rightarrow> string \<Rightarrow> string option"

definition transfer_origin :: "netlib \<Rightarrow> string \<Rightarrow> string result" where
  "transfer_origin N raw =
     (case nl_scheme_host N raw of
        None \<Rightarrow> Inl (Opaque ''invalid storage transfer URL'')
      | Some (scheme, host) \<Rightarrow>
          if scheme = '''' \<or> host = '''' then Inl (Opaque ''invalid storage transfer URL'')
          else Inr (scheme @ ''://'' @ host))"

text \<open>\<open>filepath.Abs\<close>, on what \<open>os.Getwd\<close> returns.\<close>

definition fp_abs :: "string result \<Rightarrow> string \<Rightarrow> string result" where
  "fp_abs cwd p =
     (if p \<noteq> [] \<and> hd p = CHR ''/'' then Inr (clean_path p)
      else case cwd of Inl e \<Rightarrow> Inl e | Inr d \<Rightarrow> Inr (path_join [d, p]))"

definition new_file_store :: "netlib \<Rightarrow> string result \<Rightarrow> string \<Rightarrow> string \<Rightarrow> string \<Rightarrow> int \<Rightarrow> fconf fsop" where
  "new_file_store N cwd rootArg baseURL keyHex ttl s =
     (let root = trim_space rootArg in
      if root = '''' then (Inl (Opaque ''storage file root is empty''), s)
      else case hex_decode keyHex of
        None \<Rightarrow> (Inl (Opaque ''storage capability key must encode exactly 32 bytes as hexadecimal''), s)
      | Some key \<Rightarrow>
          if length key \<noteq> 32
          then (Inl (Opaque ''storage capability key must encode exactly 32 bytes as hexadecimal''), s)
          else (case transfer_origin N baseURL of
                  Inl e \<Rightarrow> (Inl e, s)
                | Inr origin \<Rightarrow>
                    (case fp_abs cwd root of
                       Inl e \<Rightarrow> (Inl (Wrap ''resolve storage file root'' [e]), s)
                     | Inr p \<Rightarrow>
                         (let (r, s') = os_call (os_mkdir_all p) s in
                          case r of
                            Inl e \<Rightarrow> (Inl (Wrap ''create storage file root'' [e]), s')
                          | Inr _ \<Rightarrow> (Inr \<lparr>fc_root = p, fc_base_url = baseURL, fc_origin = origin,
                                         fc_key = key, fc_ttl = ttl\<rparr>, s')))))"

definition resolve :: "fconf \<Rightarrow> string \<Rightarrow> string result" where
  "resolve F key =
     (if ''..'' \<in> set (split_on (CHR ''/'') key) then Inl (Opaque ''invalid storage key'')
      else let path = path_join [fc_root F, key] in
        if path \<noteq> fc_root F \<and> \<not> prefix (fc_root F @ ''/'') path then Inl (Opaque ''invalid storage key'')
        else Inr path)"

definition open_file :: "fconf \<Rightarrow> string \<Rightarrow> node fsop" where
  "open_file F key s =
     (case resolve F key of
        Inl e \<Rightarrow> (Inl e, s)
      | Inr path \<Rightarrow>
          (let (r, s') = os_call (os_lookup path) s in
           case r of
             Inr n \<Rightarrow> (Inr n, s')
           | Inl e \<Rightarrow> (Inl (if errors_is e NotExist then Sentinel ErrObjectNotFound else Wrap ''open'' [e]), s')))"

definition file_open :: "fconf \<Rightarrow> string \<Rightarrow> reader fsop" where
  "file_open F key s =
     (let (r, s') = open_file F key s in
      (case r of Inl e \<Rightarrow> Inl e | Inr n \<Rightarrow> Inr (node_reader n), s'))"

text \<open>
  \<open>Put\<close> after the temporary file exists: copy at most one byte more than declared, close,
  compare, rename. The copy writes what it read before it reports the reader's error.
\<close>

definition file_put_body :: "hashes \<Rightarrow> string \<Rightarrow> string \<Rightarrow> reader \<Rightarrow> content \<Rightarrow> unit fsop" where
  "file_put_body H path tmp r c s =
     (let lr = limit_reader r (wrap64 (c_size c + 1));
          body = rd_bytes lr;
          (w, s1) = os_call (os_write tmp body) s in
      case (case w of Inl e \<Rightarrow> Some e | Inr _ \<Rightarrow> rd_err lr) of
        Some e \<Rightarrow> (let (_, s2) = os_call os_noop s1 in (Inl (Wrap ''write'' [e]), s2))
      | None \<Rightarrow>
          (let (cl, s2) = os_call os_noop s1 in
           case cl of
             Inl e \<Rightarrow> (Inl (Wrap ''close'' [e]), s2)
           | Inr _ \<Rightarrow>
               if int (length body) \<noteq> c_size c \<or> hex_encode (h_sha256 H body) \<noteq> c_sha256 c
               then (Inl (content_mismatch ''body is not the declared bytes''), s2)
               else (let (ch, s3) = os_call os_noop s2 in
                     case ch of
                       Inl e \<Rightarrow> (Inl (Wrap ''chmod'' [e]), s3)
                     | Inr _ \<Rightarrow>
                         (let (rn, s4) = os_call (os_rename tmp path) s3 in
                          case rn of
                            Inl e \<Rightarrow> (Inl (Wrap ''commit'' [e]), s4)
                          | Inr _ \<Rightarrow> (Inr (), s4)))))"

definition file_put :: "hashes \<Rightarrow> fconf \<Rightarrow> string \<Rightarrow> reader \<Rightarrow> content \<Rightarrow> put_options \<Rightarrow> unit fsop" where
  "file_put H F key r c opts s =
     (case resolve F key of
        Inl e \<Rightarrow> (Inl e, s)
      | Inr path \<Rightarrow>
          (let dir = path_dir path; (mk, s1) = os_call (os_mkdir_all dir) s in
           case mk of
             Inl e \<Rightarrow> (Inl (Wrap ''create dir'' [e]), s1)
           | Inr _ \<Rightarrow>
               (let (ct, s2) = os_call (os_create_temp dir) s1 in
                case ct of
                  Inl e \<Rightarrow> (Inl (Wrap ''create temp'' [e]), s2)
                | Inr tmp \<Rightarrow>
                    (let (res, s3) = file_put_body H path tmp r c s2;
                         (_, s4) = os_call (os_remove tmp) s3 in (res, s4)))))"

definition file_delete :: "fconf \<Rightarrow> string \<Rightarrow> unit fsop" where
  "file_delete F key s =
     (case resolve F key of
        Inl e \<Rightarrow> (Inl e, s)
      | Inr path \<Rightarrow>
          (let (rm, s1) = os_call (os_remove path) s in
           case (case rm of Inl e \<Rightarrow> if errors_is e NotExist then None else Some e | Inr _ \<Rightarrow> None) of
             Some e \<Rightarrow> (Inl (Wrap ''delete'' [e]), s1)
           | None \<Rightarrow> (let (_, s2) = os_call (os_remove (path_dir path)) s1 in (Inr (), s2))))"

subsection \<open>Transfers\<close>

text \<open>\<open>url.PathEscape\<close> and its inverse.\<close>

definition path_unreserved :: "char \<Rightarrow> bool" where
  "path_unreserved c \<longleftrightarrow>
     (let n = of_char c :: nat in (97 \<le> n \<and> n \<le> 122) \<or> (65 \<le> n \<and> n \<le> 90) \<or> (48 \<le> n \<and> n \<le> 57))
     \<or> c \<in> set ''-_.~$&+:=@''"

definition upper_hex_char :: "nat \<Rightarrow> char" where
  "upper_hex_char n = char_of (if n < 10 then 48 + n else 55 + n)"

fun path_escape :: "string \<Rightarrow> string" where
  "path_escape [] = []"
| "path_escape (c # cs) =
     (if path_unreserved c then c # path_escape cs
      else let n = of_char c :: nat in
        CHR ''%'' # upper_hex_char (n div 16) # upper_hex_char (n mod 16) # path_escape cs)"

fun path_unescape :: "string \<Rightarrow> string option" where
  "path_unescape [] = Some []"
| "path_unescape (c # cs) =
     (if c = CHR ''%'' then
        (case cs of
           a # b # ds \<Rightarrow>
             (case (hex_val a, hex_val b) of
                (Some x, Some y) \<Rightarrow> map_option ((#) (char_of (16 * x + y))) (path_unescape ds)
              | _ \<Rightarrow> None)
         | _ \<Rightarrow> None)
      else map_option ((#) c) (path_unescape cs))"

definition escape_path :: "string \<Rightarrow> string" where
  "escape_path value = join_with ''/'' (map path_escape (split_on (CHR ''/'') value))"

definition file_expires :: "fconf \<Rightarrow> int \<Rightarrow> int" where
  "file_expires F ttl = ttl_or_default ttl (fc_ttl F)"

definition blob_url :: "crypto \<Rightarrow> netlib \<Rightarrow> fconf \<Rightarrow> claims \<Rightarrow> string result" where
  "blob_url C N F c =
     (let token = sign_capability C (fc_key F) c;
          raw = trim_right_char (CHR ''/'') (fc_base_url F) @ ''/storage/'' @ escape_path (cl_key c)
      in case nl_set_query N raw ''cap'' token of
           None \<Rightarrow> Inl (Opaque ''parse URL'')
         | Some u \<Rightarrow> Inr u)"

definition get_claims :: "fconf \<Rightarrow> string \<Rightarrow> int \<Rightarrow> get_options \<Rightarrow> int \<Rightarrow> claims" where
  "get_claims F key ttl opts now =
     \<lparr>cl_op = capability_get, cl_key = key, cl_exp = unix_seconds (now + file_expires F ttl),
      cl_ctype = go_ctype opts, cl_size = 0, cl_sha256 = ''''\<rparr>"

definition put_claims :: "fconf \<Rightarrow> string \<Rightarrow> content \<Rightarrow> int \<Rightarrow> int \<Rightarrow> claims" where
  "put_claims F key c ttl now =
     \<lparr>cl_op = capability_put, cl_key = key, cl_exp = unix_seconds (now + file_expires F ttl),
      cl_ctype = '''', cl_size = c_size c, cl_sha256 = c_sha256 c\<rparr>"

definition file_presign_get :: "crypto \<Rightarrow> netlib \<Rightarrow> fconf \<Rightarrow> string \<Rightarrow> int \<Rightarrow> get_options \<Rightarrow> string fsop" where
  "file_presign_get C N F key ttl opts s = (blob_url C N F (get_claims F key ttl opts (fs_now s)), s)"

definition file_presign_put :: "crypto \<Rightarrow> netlib \<Rightarrow> fconf \<Rightarrow> string \<Rightarrow> content \<Rightarrow> int \<Rightarrow> upload_target fsop" where
  "file_presign_put C N F key c ttl s =
     (case blob_url C N F (put_claims F key c ttl (fs_now s)) of
        Inl e \<Rightarrow> (Inl e, s)
      | Inr u \<Rightarrow> (Inr \<lparr>ut_url = u, ut_method = ''PUT'', ut_headers = []\<rparr>, s))"

definition file_begin_upload :: "crypto \<Rightarrow> netlib \<Rightarrow> fconf \<Rightarrow> string \<Rightarrow> content \<Rightarrow> upload_action fsop" where
  "file_begin_upload C N F key c s =
     (let (r, s') = file_presign_put C N F key c 0 s in
      (case r of
         Inl e \<Rightarrow> Inl e
       | Inr t \<Rightarrow> Inr \<lparr>ua_strategy = StrategyDirectPut, ua_target = Some t\<rparr>, s'))"

subsection \<open>Verification, head and listing\<close>

definition node_size :: "fstate \<Rightarrow> node \<Rightarrow> int" where
  "node_size s n = (case n of File b _ \<Rightarrow> int (length b) | Dir \<Rightarrow> fs_dir_size s)"

definition file_verify :: "fconf \<Rightarrow> string \<Rightarrow> content \<Rightarrow> unit fsop" where
  "file_verify F key c s =
     (case resolve F key of
        Inl e \<Rightarrow> (Inl e, s)
      | Inr path \<Rightarrow>
          (let (r, s') = os_call (os_lookup path) s in
           case r of
             Inl e \<Rightarrow> (Inl (if errors_is e NotExist then Sentinel ErrObjectNotFound else Wrap ''stat'' [e]), s')
           | Inr n \<Rightarrow>
               if node_size s' n \<noteq> c_size c
               then (Inl (content_mismatch ''storage holds other bytes than declared''), s')
               else (Inr (), s')))"

definition file_head :: "fconf \<Rightarrow> string \<Rightarrow> int \<Rightarrow> string fsop" where
  "file_head F key n s =
     (let (r, s1) = open_file F key s in
      case r of
        Inl e \<Rightarrow> (Inl e, s1)
      | Inr nd \<Rightarrow>
          (let (rd, s2) = os_call (\<lambda>s. (read_all (limit_reader (node_reader nd) n), s)) s1 in
           (case rd of Inl e \<Rightarrow> Inl (Wrap ''read'' [e]) | Inr b \<Rightarrow> Inr b, s2)))"

text \<open>
  \<open>fs.WalkDir\<close> visits the entries under \<open>_objects\<close> in lexical order of their path elements.
  Visiting an entry costs one call; an error other than a missing file ends the walk with the
  keys found so far.
\<close>

definition walk_entries :: "fconf \<Rightarrow> nodes \<Rightarrow> (string \<times> node) list" where
  "walk_entries F ns =
     sort_key (\<lambda>e. split_on (CHR ''/'') (fst e))
       (map (\<lambda>e. (drop (length (fc_root F) + 1) (fst e), snd e))
         (filter (\<lambda>e. fst e = fc_root F @ ''/_objects'' \<or> prefix (fc_root F @ ''/_objects/'') (fst e)) ns))"

fun walk :: "int \<Rightarrow> (string \<times> node) list \<Rightarrow> fstate \<Rightarrow> (string list \<times> goerr option) \<times> fstate" where
  "walk before [] s = (([], None), s)"
| "walk before ((p, n) # es) s =
     (case os_call os_noop s of
        (Inl e, s') \<Rightarrow> if errors_is e NotExist then walk before es s' else (([], Some e), s')
      | (Inr _, s') \<Rightarrow>
          (let ((ks, err), s'') = walk before es s' in
           ((case n of File _ t \<Rightarrow> if t < before then p # ks else ks | Dir \<Rightarrow> ks, err), s'')))"

definition file_expired_objects :: "fconf \<Rightarrow> int \<Rightarrow> fstate \<Rightarrow> (string list \<times> goerr option) \<times> fstate" where
  "file_expired_objects F before s =
     (case os_call (os_lookup (fc_root F)) s of
        (Inl e, s') \<Rightarrow> (([], Some e), s')
      | (Inr (File _ _), s') \<Rightarrow> (([], Some (Opaque ''not a directory'')), s')
      | (Inr Dir, s') \<Rightarrow> walk before (walk_entries F (fs_nodes s')) s')"

definition file_backend :: "crypto \<Rightarrow> netlib \<Rightarrow> hashes \<Rightarrow> fconf \<Rightarrow> fstate backend" where
  "file_backend C N H F =
     \<lparr>be_open = file_open F, be_put = file_put H F, be_delete = file_delete F,
      be_presign_get = file_presign_get C N F, be_presign_put = file_presign_put C N F,
      be_transfer_origin = fc_origin F, be_begin_upload = file_begin_upload C N F,
      be_verify = file_verify F, be_head = file_head F, be_expired_objects = file_expired_objects F,
      be_multipart = None\<rparr>"

end
