(* ===== verification/FileContract.thy ===== *)
theory FileContract
  imports FileStore
begin

text \<open>
  The file store keeps the contract of a backend: paths of object keys, the invariant of the file
  system, the effect of each operation on the stored bytes, and the interpretation of the backend
  contract on \<open>file_backend\<close>.
\<close>

subsection \<open>Paths\<close>

definition norm_comp :: "string \<Rightarrow> bool" where
  "norm_comp c \<longleftrightarrow> c \<noteq> [] \<and> c \<noteq> ''.'' \<and> c \<noteq> ''..'' \<and> CHR ''/'' \<notin> set c"

definition norm_comps :: "string list \<Rightarrow> bool" where
  "norm_comps cs \<longleftrightarrow> cs \<noteq> [] \<and> list_all norm_comp cs"

text \<open>A clean absolute path other than the root directory.\<close>

definition clean_abs :: "string \<Rightarrow> bool" where
  "clean_abs p \<longleftrightarrow> (\<exists>cs. norm_comps cs \<and> p = abs_path cs)"

lemma split_abs_path: "norm_comps cs \<Longrightarrow> split_on (CHR ''/'') (abs_path cs) = [] # cs"
  by (simp add: abs_path_def norm_comps_def norm_comp_def list_all_iff split_join)

lemma path_comps_abs: "norm_comps cs \<Longrightarrow> path_comps (abs_path cs) = cs"
  by (simp add: path_comps_def split_abs_path filter_id_conv norm_comps_def norm_comp_def list_all_iff)

lemma abs_path_inj: "norm_comps cs \<Longrightarrow> norm_comps ds \<Longrightarrow> abs_path cs = abs_path ds \<longleftrightarrow> cs = ds"
  using path_comps_abs by metis

lemma join_with_append:
  "cs \<noteq> [] \<Longrightarrow> ds \<noteq> [] \<Longrightarrow> join_with sep (cs @ ds) = join_with sep cs @ sep @ join_with sep ds"
proof (induction cs)
  case (Cons c cs)
  then show ?case by (cases "cs = []") (auto simp: join_with_Cons)
qed simp

lemma abs_path_append:
  "cs \<noteq> [] \<Longrightarrow> ds \<noteq> [] \<Longrightarrow> abs_path (cs @ ds) = abs_path cs @ ''/'' @ join_with ''/'' ds"
  by (simp add: abs_path_def join_with_append)

lemma abs_path_snoc: "abs_path (cs @ [c]) = (if cs = [] then ''/'' else abs_path cs @ ''/'') @ c"
  by (simp add: abs_path_append) (simp add: abs_path_def)

lemma last_abs_path:
  assumes "norm_comps cs"
  shows "last (abs_path cs) \<noteq> CHR ''/''"
proof -
  from assms obtain ds c where cs: "cs = ds @ [c]" by (cases cs rule: rev_cases) (auto simp: norm_comps_def)
  with assms have "c \<noteq> []" "CHR ''/'' \<notin> set c" by (simp_all add: norm_comps_def norm_comp_def)
  then show ?thesis unfolding cs abs_path_snoc using last_in_set [of c] by (auto simp del: last_in_set)
qed

lemma norm_comps_append: "norm_comps cs \<Longrightarrow> list_all norm_comp ds \<Longrightarrow> norm_comps (cs @ ds)"
  by (simp add: norm_comps_def)

lemma clean_step_norm: "norm_comp c \<Longrightarrow> clean_step rooted c st = c # st"
  by (simp add: clean_step_def norm_comp_def)

lemma fold_clean_norm: "list_all norm_comp cs \<Longrightarrow> fold (clean_step rooted) cs st = rev cs @ st"
  by (induction cs arbitrary: st) (auto simp: clean_step_norm)

lemma clean_abs_path: "norm_comps cs \<Longrightarrow> clean_path (abs_path cs) = abs_path cs"
proof -
  assume cs: "norm_comps cs"
  then have "fold (clean_step True) ([] # cs) [] = rev cs"
    by (simp add: fold_clean_norm norm_comps_def clean_step_def)
  then show ?thesis
    using split_abs_path [OF cs] by (simp add: clean_path_def clean_elems_def abs_path_def Let_def)
qed

text \<open>Cleaning an absolute path gives the root directory or a clean absolute path.\<close>

lemma fold_clean_good:
  "list_all norm_comp st \<Longrightarrow> \<forall>e \<in> set es. CHR ''/'' \<notin> set e \<Longrightarrow>
     list_all norm_comp (fold (clean_step True) es st)"
proof (induction es arbitrary: st)
  case (Cons e es)
  have "list_all norm_comp (clean_step True e st)"
    using Cons.prems by (cases st) (auto simp: clean_step_def norm_comp_def [of e])
  with Cons show ?case by simp
qed simp

lemma clean_path_abs: "clean_path (CHR ''/'' # p) = ''/'' \<or> clean_abs (clean_path (CHR ''/'' # p))"
proof -
  let ?es = "clean_elems True (split_on (CHR ''/'') (CHR ''/'' # p))"
  have "list_all norm_comp ?es"
    unfolding clean_elems_def list_all_rev using split_on_parts by (intro fold_clean_good) auto
  then show ?thesis
    by (cases "?es = []")
       (auto simp: clean_path_def clean_abs_def norm_comps_def abs_path_def Let_def)
qed

subsection \<open>Object keys resolve below the root\<close>

definition root_ok :: "fconf \<Rightarrow> bool" where
  "root_ok F \<longleftrightarrow> clean_abs (fc_root F)"

definition key_comps :: "int \<Rightarrow> string \<Rightarrow> string list" where
  "key_comps i f = [''_objects'', show_int i, f]"

lemma norm_show_int: "norm_comp (show_int i)"
proof -
  have "CHR ''.'' \<notin> set (show_int i)" "CHR ''/'' \<notin> set (show_int i)"
    by (simp_all add: not_in_show_int)
  then show ?thesis by (auto simp: norm_comp_def)
qed

lemma norm_key_comps: "safe_filename f \<Longrightarrow> list_all norm_comp (key_comps i f)"
  using norm_show_int by (auto simp: key_comps_def safe_filename_def norm_comp_def)

lemma key_for_join: "key_for i f = join_with ''/'' (key_comps i f)"
  by (simp add: key_for_def key_comps_def object_prefix_def)

lemma split_key: "safe_filename f \<Longrightarrow> split_on (CHR ''/'') (key_for i f) = key_comps i f"
  unfolding key_for_join
  by (rule split_join) (use norm_key_comps [of f i] in \<open>auto simp: key_comps_def norm_comp_def list_all_iff\<close>)

lemma root_join:
  assumes "root_ok F" and "list_all norm_comp ds" "ds \<noteq> []"
  shows "fc_root F @ ''/'' @ join_with ''/'' ds = abs_path (path_comps (fc_root F) @ ds)"
    and "norm_comps (path_comps (fc_root F) @ ds)"
  using assms by (auto simp: root_ok_def clean_abs_def path_comps_abs abs_path_append norm_comps_append norm_comps_def)

definition object_path :: "fconf \<Rightarrow> string \<Rightarrow> string" where
  "object_path F k = fc_root F @ ''/'' @ k"

lemma resolve_clean:
  assumes F: "root_ok F" and ds: "list_all norm_comp ds" "ds \<noteq> []" and k: "k = join_with ''/'' ds"
  shows "resolve F k = Inr (object_path F k)"
proof -
  have split: "split_on (CHR ''/'') k = ds"
    unfolding k using ds by (intro split_join) (auto simp: norm_comp_def list_all_iff)
  have "''..'' \<notin> set ds" using ds by (auto simp: norm_comp_def list_all_iff)
  moreover have "fc_root F \<noteq> []" using F by (auto simp: root_ok_def clean_abs_def abs_path_def)
  moreover have "k \<noteq> []" using ds split by (cases k) (auto simp: norm_comp_def)
  moreover have "path_join [fc_root F, k] = fc_root F @ ''/'' @ k"
    using calculation root_join(1) [OF F ds] clean_abs_path [OF root_join(2) [OF F ds]]
    by (simp add: path_join_def k Let_def)
  ultimately show ?thesis
    using split by (simp add: resolve_def object_path_def Let_def)
qed

lemma resolve_key:
  assumes "root_ok F" and "object_key k"
  shows "resolve F k = Inr (object_path F k)"
proof -
  from assms(2) obtain i f where "safe_filename f" "k = key_for i f" by (rule object_keyE)
  with norm_key_comps [of f i] show ?thesis
    by (intro resolve_clean [OF assms(1), of "key_comps i f"]) (simp_all add: key_for_join key_comps_def)
qed

text \<open>The directory of an object's file, and the paths of temporary files in it.\<close>

lemma path_dir_abs:
  assumes "norm_comps cs" "norm_comp c"
  shows "path_dir (abs_path (cs @ [c])) = abs_path cs"
proof -
  have n: "norm_comps (cs @ [c])" using assms by (simp add: norm_comps_append)
  have cs: "cs \<noteq> []" using assms by (simp add: norm_comps_def)
  have "join_with ''/'' (butlast ([] # cs @ [c])) @ ''/'' = abs_path cs @ ''/''"
    using cs by (simp add: abs_path_def join_with_Cons butlast_append)
  moreover have "clean_path (abs_path cs @ ''/'') = abs_path cs"
  proof -
    have "split_on (CHR ''/'') (abs_path cs @ ''/'') = [] # cs @ [[]]"
    proof -
      have "abs_path cs @ ''/'' = join_with ''/'' ([] # cs @ [[]])"
        using cs by (simp add: abs_path_def join_with_Cons join_with_append)
      moreover have "\<forall>p \<in> set ([] # cs @ [[]]). CHR ''/'' \<notin> set p"
        using assms(1) by (auto simp: norm_comps_def norm_comp_def list_all_iff)
      ultimately show ?thesis using split_join [of "[] # cs @ [[]]" "CHR ''/''"] by simp
    qed
    moreover have "fold (clean_step True) ([] # cs @ [[]]) [] = rev cs"
      using assms(1) by (simp add: fold_clean_norm norm_comps_def clean_step_def)
    ultimately show ?thesis by (simp add: clean_path_def clean_elems_def Let_def abs_path_def)
  qed
  ultimately show ?thesis
    using split_abs_path [OF n] cs by (simp add: path_dir_def Let_def)
qed

subsection \<open>Stored bytes and invariant\<close>

definition file_bytes :: "node option \<Rightarrow> string option" where
  "file_bytes n = (case n of Some (File b _) \<Rightarrow> Some b | _ \<Rightarrow> None)"

definition fs_stored :: "fconf \<Rightarrow> fstate \<Rightarrow> string \<rightharpoonup> string" where
  "fs_stored F s k =
     (if object_key k then file_bytes (map_of (fs_nodes s) (object_path F k)) else None)"

definition fs_ok :: "fconf \<Rightarrow> fstate \<Rightarrow> bool" where
  "fs_ok F s \<longleftrightarrow> root_ok F \<and> (\<forall>e \<in> set (fs_nodes s). clean_abs (fst e))
     \<and> distinct (map fst (fs_nodes s))
     \<and> (\<forall>k. object_key k \<longrightarrow> map_of (fs_nodes s) (object_path F k) \<noteq> Some Dir)"

lemma map_of_filter_ne: "map_of (filter (\<lambda>e. fst e \<noteq> p) ns) q = (if q = p then None else map_of ns q)"
  by (induction ns) auto

lemma map_of_node_set [simp]: "map_of (node_set p n ns) q = (if q = p then Some n else map_of ns q)"
  by (simp add: node_set_def map_of_filter_ne)

lemma map_of_node_del [simp]: "map_of (node_del p ns) q = (if q = p then None else map_of ns q)"
  by (simp add: node_del_def map_of_filter_ne)

lemma distinct_filter_fst: "distinct (map fst ns) \<Longrightarrow> distinct (map fst (filter P ns))"
  by (induction ns) auto

lemma distinct_node_set [simp]: "distinct (map fst ns) \<Longrightarrow> distinct (map fst (node_set p n ns))"
  by (auto simp: node_set_def distinct_filter_fst)

lemma distinct_node_del [simp]: "distinct (map fst ns) \<Longrightarrow> distinct (map fst (node_del p ns))"
  by (simp add: node_del_def distinct_filter_fst)

lemma fs_ok_faults [simp]: "fs_ok F (s\<lparr>fs_faults := xs\<rparr>) = fs_ok F s"
  by (simp add: fs_ok_def)

lemma fs_stored_faults [simp]: "fs_stored F (s\<lparr>fs_faults := xs\<rparr>) = fs_stored F s"
  by (simp add: fs_stored_def fun_eq_iff)

lemma fs_stored_cong:
  "(\<And>k. object_key k \<Longrightarrow> file_bytes (map_of (fs_nodes s') (object_path F k))
      = file_bytes (map_of (fs_nodes s) (object_path F k))) \<Longrightarrow> fs_stored F s' = fs_stored F s"
  by (auto simp: fs_stored_def)

text \<open>An operation of the file system, run under a schedule of faults.\<close>

lemma os_call_cases:
  assumes "os_call f s = (res, s')"
  obtains (ran) xs where "f (s\<lparr>fs_faults := xs\<rparr>) = (res, s')"
    | (refused) xs i where "res = Inl (infra_err i)" "s' = s\<lparr>fs_faults := xs\<rparr>"
    | (lost) xs i res' where "res = Inl (infra_err i)" "f (s\<lparr>fs_faults := xs\<rparr>) = (res', s')"
proof (cases "fs_faults s")
  case Nil
  then have "s\<lparr>fs_faults := []\<rparr> = s" by (simp add: fstate.equality)
  with Nil assms ran [of "[]"] show ?thesis by (simp add: os_call_def)
next
  case (Cons x xs)
  with assms ran [of xs] refused [of _ xs] lost [of _ xs "fst (f (s\<lparr>fs_faults := xs\<rparr>))"]
  show ?thesis by (cases x) (auto simp: os_call_def Let_def)
qed

text \<open>
  A relation between the states before and after that ignores the schedule holds of a call when
  it holds of the operation and is reflexive.
\<close>

lemma os_call_rel:
  assumes "os_call f s = (res, s')"
    and "\<And>xs. Q s (s\<lparr>fs_faults := xs\<rparr>)"
    and "\<And>xs r. f (s\<lparr>fs_faults := xs\<rparr>) = (r, s') \<Longrightarrow> Q s s'"
  shows "Q s s'"
  using assms(1) by (cases rule: os_call_cases) (auto intro: assms)

text \<open>A state change that leaves every object's bytes alone and keeps the invariant.\<close>

definition quiet :: "fconf \<Rightarrow> fstate \<Rightarrow> fstate \<Rightarrow> bool" where
  "quiet F s s' \<longleftrightarrow> (fs_ok F s \<longrightarrow> fs_ok F s' \<and> fs_stored F s' = fs_stored F s)"

lemma quiet_refl [simp]: "quiet F s s"
  by (simp add: quiet_def)

lemma quiet_faults [simp]: "quiet F s (s\<lparr>fs_faults := xs\<rparr>)"
  by (simp add: quiet_def)

lemma quiet_trans: "quiet F s t \<Longrightarrow> quiet F t u \<Longrightarrow> quiet F s u"
  by (simp add: quiet_def)

lemma quiet_call:
  "os_call f s = (res, s') \<Longrightarrow> (\<And>s r s'. f s = (r, s') \<Longrightarrow> quiet F s s') \<Longrightarrow> quiet F s s'"
  by (erule os_call_rel [where Q = "quiet F"]) (auto intro: quiet_trans [OF quiet_faults])

text \<open>So does a change of the nodes that no object key names.\<close>

lemma quiet_nodes:
  assumes "\<forall>e \<in> set (fs_nodes s'). e \<in> set (fs_nodes s) \<or> clean_abs (fst e)"
    and "distinct (map fst (fs_nodes s)) \<longrightarrow> distinct (map fst (fs_nodes s'))"
    and "root_ok F \<Longrightarrow> \<forall>k. object_key k \<longrightarrow>
           map_of (fs_nodes s') (object_path F k) = map_of (fs_nodes s) (object_path F k)"
  shows "quiet F s s'"
  using assms fs_stored_cong [of s' F s] unfolding quiet_def fs_ok_def by metis

text \<open>The path of an object has one element more than the path of its directory.\<close>

lemma object_pathE:
  assumes "root_ok F" and "object_key k"
  obtains i f where "k = key_for i f" "\<not> temp_name f" "safe_filename f"
    "object_path F k = abs_path (path_comps (fc_root F) @ key_comps i f)"
    "norm_comps (path_comps (fc_root F) @ key_comps i f)"
proof -
  from assms(2) obtain i f where k: "k = key_for i f" "safe_filename f" "\<not> temp_name f"
    by (rule object_keyE)
  have "list_all norm_comp (key_comps i f)" "key_comps i f \<noteq> []"
    using norm_key_comps [OF k(2)] by (simp_all add: key_comps_def)
  from root_join [OF assms(1) this] k that show thesis
    by (simp add: object_path_def key_for_join)
qed

lemma object_path_clean: "root_ok F \<Longrightarrow> object_key k \<Longrightarrow> clean_abs (object_path F k)"
  by (metis object_pathE clean_abs_def)

lemma object_path_inj: "object_path F k = object_path F l \<longleftrightarrow> k = l"
  by (simp add: object_path_def)

definition object_dir :: "fconf \<Rightarrow> int \<Rightarrow> string" where
  "object_dir F i = abs_path (path_comps (fc_root F) @ [''_objects'', show_int i])"

lemma object_path_dir:
  assumes "root_ok F" and "object_key k"
  obtains i f where "k = key_for i f" "path_dir (object_path F k) = object_dir F i"
    "norm_comps (path_comps (fc_root F) @ [''_objects'', show_int i])"
proof -
  obtain i f where k: "k = key_for i f"
    and p: "object_path F k = abs_path (path_comps (fc_root F) @ key_comps i f)"
    and n: "norm_comps (path_comps (fc_root F) @ key_comps i f)"
    using assms by (rule object_pathE)
  let ?cs = "path_comps (fc_root F) @ [''_objects'', show_int i]"
  have "norm_comps ?cs" "norm_comp f"
    using n by (simp_all add: norm_comps_def key_comps_def)
  with path_dir_abs [of ?cs f] have "path_dir (object_path F k) = object_dir F i"
    by (simp add: p key_comps_def object_dir_def)
  with that k \<open>norm_comps ?cs\<close> show thesis by blast
qed

lemma short_not_object:
  assumes "root_ok F" "object_key k" "norm_comps cs" "length cs < length (path_comps (fc_root F)) + 3"
  shows "abs_path cs \<noteq> object_path F k"
proof
  assume eq: "abs_path cs = object_path F k"
  obtain i f where "object_path F k = abs_path (path_comps (fc_root F) @ key_comps i f)"
    and "norm_comps (path_comps (fc_root F) @ key_comps i f)"
    using assms(1,2) by (rule object_pathE)
  with eq assms(3) abs_path_inj have "cs = path_comps (fc_root F) @ key_comps i f" by metis
  with assms(4) show False by (simp add: key_comps_def)
qed

lemma take_norm: "norm_comps cs \<Longrightarrow> 1 \<le> n \<Longrightarrow> norm_comps (take n cs)"
  by (auto simp: norm_comps_def list_all_iff dest: in_set_takeD)

lemma ancestors_abs: "norm_comps cs \<Longrightarrow> ancestors (abs_path cs) = map (\<lambda>n. abs_path (take n cs)) [1..<Suc (length cs)]"
  by (simp add: ancestors_def path_comps_abs Let_def)

subsection \<open>Quiet operations\<close>

lemma mkdirs_nodes:
  "mkdirs ps ns = Inr ns' \<Longrightarrow>
     (distinct (map fst ns) \<longrightarrow> distinct (map fst ns'))
     \<and> (\<forall>q. q \<notin> set ps \<longrightarrow> map_of ns' q = map_of ns q)
     \<and> (\<forall>e \<in> set ns'. e \<in> set ns \<or> fst e \<in> set ps)"
proof (induction ps arbitrary: ns)
  case (Cons p ps)
  consider (missing) "map_of ns p = None" | (present) "map_of ns p = Some Dir"
    | (other) b t where "map_of ns p = Some (File b t)"
    by (metis node.exhaust option.exhaust)
  then show ?case
  proof cases
    case missing
    with Cons.prems have "mkdirs ps (node_set p Dir ns) = Inr ns'" by simp
    note IH = Cons.IH [OF this]
    have "\<forall>e \<in> set (node_set p Dir ns). e \<in> set ns \<or> fst e = p"
      by (auto simp: node_set_def)
    with IH show ?thesis by (metis distinct_node_set list.set_intros map_of_node_set)
  next
    case present
    with Cons show ?thesis by auto
  next
    case other
    with Cons.prems show ?thesis by simp
  qed
qed simp

lemma quiet_mkdir_all:
  assumes i: "norm_comps (path_comps (fc_root F) @ [''_objects'', show_int i])"
    and run: "os_mkdir_all (object_dir F i) s = (r, s')"
  shows "quiet F s s'"
proof (cases "mkdirs (ancestors (object_dir F i)) (fs_nodes s)")
  case (Inl e)
  with run show ?thesis by (simp add: os_mkdir_all_def)
next
  case (Inr ns)
  with run have s': "fs_nodes s' = ns" by (auto simp: os_mkdir_all_def)
  let ?cs = "path_comps (fc_root F) @ [''_objects'', show_int i]"
  have anc: "\<exists>cs. q = abs_path cs \<and> norm_comps cs \<and> length cs \<le> length ?cs"
    if "q \<in> set (ancestors (object_dir F i))" for q
  proof -
    from that have "q \<in> (\<lambda>n. abs_path (take n ?cs)) ` set [1..<Suc (length ?cs)]"
      unfolding object_dir_def ancestors_abs [OF i] set_map .
    then obtain n where n: "1 \<le> n" "q = abs_path (take n ?cs)" by fastforce
    with take_norm [OF i n(1)] show ?thesis by (metis length_take min.cobounded1)
  qed
  show ?thesis
  proof (rule quiet_nodes)
    show "\<forall>e \<in> set (fs_nodes s'). e \<in> set (fs_nodes s) \<or> clean_abs (fst e)"
      using mkdirs_nodes [OF Inr] anc unfolding s' clean_abs_def by metis
    show "distinct (map fst (fs_nodes s)) \<longrightarrow> distinct (map fst (fs_nodes s'))"
      using mkdirs_nodes [OF Inr] by (simp add: s')
    show "\<forall>k. object_key k \<longrightarrow> map_of (fs_nodes s') (object_path F k) = map_of (fs_nodes s) (object_path F k)"
      if "root_ok F"
    proof (intro allI impI)
      fix k assume k: "object_key k"
      have "object_path F k \<notin> set (ancestors (object_dir F i))"
      proof
        assume "object_path F k \<in> set (ancestors (object_dir F i))"
        from anc [OF this] obtain cs where "object_path F k = abs_path cs" "norm_comps cs"
          "length cs \<le> length ?cs" by blast
        with short_not_object [OF that k] show False by fastforce
      qed
      with mkdirs_nodes [OF Inr] show "map_of (fs_nodes s') (object_path F k) = map_of (fs_nodes s) (object_path F k)"
        by (simp add: s')
    qed
  qed
qed

text \<open>A temporary file of an object's directory.\<close>

definition temp_path :: "fconf \<Rightarrow> string \<Rightarrow> bool" where
  "temp_path F p \<longleftrightarrow> clean_abs p \<and> (root_ok F \<longrightarrow> (\<forall>k. object_key k \<longrightarrow> object_path F k \<noteq> p))"

lemma fresh_temp_form: "fresh_temp n base ns k = Some (p, m) \<Longrightarrow> \<exists>j. p = base @ show_nat j"
  by (induction n base ns k rule: fresh_temp.induct) (auto split: if_splits)

lemma temp_path_fresh:
  assumes i: "norm_comps (path_comps (fc_root F) @ [''_objects'', show_int i])"
  shows "temp_path F (temp_base (object_dir F i) @ show_nat j)"
proof -
  let ?cs = "path_comps (fc_root F) @ [''_objects'', show_int i]" and ?t = "''.upload-'' @ show_nat j"
  have t: "norm_comp ?t"
    by (simp add: norm_comp_def not_in_show_nat)
  have "last (object_dir F i) \<noteq> CHR ''/''"
    unfolding object_dir_def by (rule last_abs_path [OF i])
  then have "temp_base (object_dir F i) = abs_path ?cs @ ''/.upload-''"
    by (simp add: temp_base_def object_dir_def)
  then have eq: "temp_base (object_dir F i) @ show_nat j = abs_path (?cs @ [?t])"
    unfolding abs_path_snoc [of ?cs] by simp
  have n: "norm_comps (?cs @ [?t])"
    by (rule norm_comps_append [OF i]) (use t in simp)
  have "object_path F k \<noteq> abs_path (?cs @ [?t])" if F: "root_ok F" and k: "object_key k" for k
  proof
    assume e: "object_path F k = abs_path (?cs @ [?t])"
    obtain j' f where f: "k = key_for j' f" "\<not> temp_name f" "safe_filename f"
      "object_path F k = abs_path (path_comps (fc_root F) @ key_comps j' f)"
      "norm_comps (path_comps (fc_root F) @ key_comps j' f)"
      using F k by (rule object_pathE)
    have "?cs @ [?t] = path_comps (fc_root F) @ key_comps j' f"
      using abs_path_inj [OF n f(5)] e f(4) by simp
    then have "f = ?t" by (simp add: key_comps_def)
    with f(2) show False by (simp add: temp_name_def)
  qed
  with n eq show ?thesis by (auto simp: temp_path_def clean_abs_def)
qed

lemma create_temp_Inr:
  assumes "norm_comps (path_comps (fc_root F) @ [''_objects'', show_int i])"
    and "os_create_temp (object_dir F i) s = (Inr p, s')"
  shows "temp_path F p"
proof -
  from assms(2) obtain k where "fresh_temp 10000 (temp_base (object_dir F i)) (fs_nodes s) (fs_rand s) = Some (p, k)"
    unfolding os_create_temp_def by (auto simp del: fresh_temp.simps split: if_splits option.splits)
  from fresh_temp_form [OF this] temp_path_fresh [OF assms(1)] show ?thesis by auto
qed

lemma quiet_temp_nodes:
  assumes "temp_path F p" and "fs_nodes s' = node_set p n (fs_nodes s) \<or> fs_nodes s' = node_del p (fs_nodes s)"
  shows "quiet F s s'"
proof (rule quiet_nodes)
  show "\<forall>e \<in> set (fs_nodes s'). e \<in> set (fs_nodes s) \<or> clean_abs (fst e)"
    using assms by (auto simp: node_set_def node_del_def temp_path_def)
  show "distinct (map fst (fs_nodes s)) \<longrightarrow> distinct (map fst (fs_nodes s'))"
    using assms(2) by auto
  show "root_ok F \<Longrightarrow> \<forall>k. object_key k \<longrightarrow>
      map_of (fs_nodes s') (object_path F k) = map_of (fs_nodes s) (object_path F k)"
    using assms by (auto simp: temp_path_def)
qed

lemma quiet_create_temp:
  assumes "norm_comps (path_comps (fc_root F) @ [''_objects'', show_int i])"
    and "os_create_temp (object_dir F i) s = (r, s')"
  shows "quiet F s s'"
proof (cases r)
  case (Inl e)
  with assms(2) show ?thesis by (auto simp: os_create_temp_def split: if_splits option.splits prod.splits)
next
  case (Inr p)
  with assms create_temp_Inr have p: "temp_path F p" by blast
  from assms(2) Inr have "fs_nodes s' = node_set p (File [] (fs_now s)) (fs_nodes s)"
    by (auto simp: os_create_temp_def split: if_splits option.splits)
  with p show ?thesis by (blast intro: quiet_temp_nodes)
qed

lemma quiet_write_temp: "temp_path F p \<Longrightarrow> os_write p b s = (r, s') \<Longrightarrow> quiet F s s'"
  by (erule quiet_temp_nodes [where n = "File b (fs_now s)"]) (auto simp: os_write_def)

lemma quiet_remove_temp:
  assumes "temp_path F p" and "os_remove p s = (r, s')"
  shows "quiet F s s'"
proof -
  from assms(2) have "s' = s \<or> fs_nodes s' = node_del p (fs_nodes s)"
    by (auto simp: os_remove_def split: if_splits option.splits node.splits)
  with quiet_temp_nodes [OF assms(1)] show ?thesis by (metis quiet_refl)
qed

lemma quiet_noop: "os_noop s = (r, s') \<Longrightarrow> quiet F s s'"
  by (simp add: os_noop_def)

lemma quiet_lookup: "os_lookup p s = (r, s') \<Longrightarrow> quiet F s s'"
  by (auto simp: os_lookup_def split: if_splits option.splits)

subsection \<open>Writing an object\<close>

lemma os_call_Inr:
  assumes "os_call f s = (Inr x, s')"
  obtains xs where "f (s\<lparr>fs_faults := xs\<rparr>) = (Inr x, s')"
  using assms by (cases rule: os_call_cases) auto

lemma noop_call:
  assumes "os_call os_noop s = (r, s')"
  obtains xs where "s' = s\<lparr>fs_faults := xs\<rparr>"
  using assms by (cases rule: os_call_cases) (auto simp: os_noop_def)

lemma quiet_noop_call: "os_call os_noop s = (r, s') \<Longrightarrow> quiet F s s'"
  by (erule noop_call) simp

text \<open>The state after bytes have been committed at an object's key.\<close>

definition committed :: "fconf \<Rightarrow> string \<Rightarrow> string \<Rightarrow> fstate \<Rightarrow> fstate \<Rightarrow> bool" where
  "committed F k b s s' \<longleftrightarrow>
     (fs_ok F s \<longrightarrow> fs_ok F s' \<and> fs_stored F s' = (fs_stored F s)(k \<mapsto> b))"

lemma committed_quiet: "quiet F s t \<Longrightarrow> committed F k b t u \<Longrightarrow> committed F k b s u"
  by (simp add: quiet_def committed_def)

lemma quiet_committed: "committed F k b s t \<Longrightarrow> quiet F t u \<Longrightarrow> committed F k b s u"
  by (simp add: quiet_def committed_def)

lemma committed_nodes:
  assumes k: "object_key k" and tmp: "temp_path F tmp"
    and s': "fs_nodes s' = node_set (object_path F k) (File b t) (node_del tmp (fs_nodes s))"
  shows "committed F k b s s'"
  unfolding committed_def
proof (intro impI conjI)
  assume ok: "fs_ok F s"
  then have F: "root_ok F" by (simp add: fs_ok_def)
  have tmp': "\<And>q. object_key q \<Longrightarrow> object_path F q \<noteq> tmp" using tmp F by (auto simp: temp_path_def)
  have at: "map_of (fs_nodes s') (object_path F q) =
      (if q = k then Some (File b t) else map_of (fs_nodes s) (object_path F q))" if "object_key q" for q
    using tmp' [OF that] by (simp add: s' object_path_inj)
  show "fs_ok F s'"
    unfolding fs_ok_def
  proof (intro conjI)
    show "\<forall>e \<in> set (fs_nodes s'). clean_abs (fst e)"
      using ok object_path_clean [OF F k] by (auto simp: fs_ok_def s' node_set_def node_del_def)
    show "distinct (map fst (fs_nodes s'))" using ok by (simp add: fs_ok_def s')
    show "\<forall>q. object_key q \<longrightarrow> map_of (fs_nodes s') (object_path F q) \<noteq> Some Dir"
      using ok at by (auto simp: fs_ok_def)
  qed (rule F)
  show "fs_stored F s' = (fs_stored F s)(k \<mapsto> b)"
    using at k by (auto simp: fs_stored_def fun_eq_iff file_bytes_def)
qed

lemma rename_commits:
  assumes k: "object_key k" and tmp: "temp_path F tmp" and ok: "fs_ok F s"
    and src: "map_of (fs_nodes s) tmp = Some (File b t)"
    and run: "os_rename tmp (object_path F k) s = (r, s')"
  shows "(\<exists>e. r = Inl e) \<and> s' = s \<or> committed F k b s s'"
proof -
  have "root_ok F" using ok by (simp add: fs_ok_def)
  then have ne: "tmp \<noteq> object_path F k" using tmp k by (auto simp: temp_path_def)
  from run src have "(\<exists>e. r = Inl e) \<and> s' = s \<or>
      fs_nodes s' = node_set (object_path F k) (File b t) (node_del tmp (fs_nodes s))"
    unfolding os_rename_def using ne by (auto split: if_splits option.splits node.splits)
  with committed_nodes [OF k tmp] show ?thesis by blast
qed

lemma rename_call:
  assumes k: "object_key k" and tmp: "temp_path F tmp" and ok: "fs_ok F s"
    and src: "map_of (fs_nodes s) tmp = Some (File b t)"
    and run: "os_call (os_rename tmp (object_path F k)) s = (r, s')"
  shows "(\<exists>e. r = Inl e) \<and> quiet F s s' \<or> committed F k b s s'"
proof -
  have ok': "fs_ok F (s\<lparr>fs_faults := xs\<rparr>)" for xs using ok by simp
  have src': "map_of (fs_nodes (s\<lparr>fs_faults := xs\<rparr>)) tmp = Some (File b t)" for xs using src by simp
  show ?thesis
    using run
  proof (cases rule: os_call_cases)
    case (ran xs)
    from rename_commits [OF k tmp ok' src' ran] show ?thesis
      using committed_quiet [OF quiet_faults] quiet_faults by blast
  next
    case (refused xs i)
    then show ?thesis by simp
  next
    case (lost xs i res')
    from rename_commits [OF k tmp ok' src' lost(2)] show ?thesis
      using committed_quiet [OF quiet_faults] quiet_faults lost(1) by blast
  qed
qed

lemma put_body_effect:
  assumes k: "object_key k" and tmp: "temp_path F tmp" and ok: "fs_ok F s"
    and run: "file_put_body H (object_path F k) tmp r c s = (res, s')"
    and b: "b = rd_bytes (limit_reader r (wrap64 (c_size c + 1)))"
  shows "(\<exists>e. res = Inl e) \<and> quiet F s s' \<or> matches H c b \<and> committed F k b s s'"
proof -
  let ?lr = "limit_reader r (wrap64 (c_size c + 1))"
  obtain w s1 where w: "os_call (os_write tmp b) s = (w, s1)" by fastforce
  have q1: "quiet F s s1" by (rule quiet_call [OF w]) (rule quiet_write_temp [OF tmp])
  show ?thesis
  proof (cases "case w of Inl e \<Rightarrow> Some e | Inr _ \<Rightarrow> rd_err ?lr")
    case (Some e)
    obtain r2 s2 where n: "os_call os_noop s1 = (r2, s2)" by fastforce
    from run w n Some have "\<exists>e. res = Inl e" "s' = s2" by (auto simp: file_put_body_def b)
    with quiet_trans [OF q1 quiet_noop_call [OF n]] show ?thesis by simp
  next
    case None
    then have wr: "w = Inr ()" by (cases w) auto
    obtain cl s2 where n: "os_call os_noop s1 = (cl, s2)" by fastforce
    have q2: "quiet F s s2" using quiet_trans [OF q1 quiet_noop_call [OF n]] .
    obtain ch s3 where h: "os_call os_noop s2 = (ch, s3)" by fastforce
    have q3: "quiet F s s3" using quiet_trans [OF q2 quiet_noop_call [OF h]] .
    obtain rn s4 where m: "os_call (os_rename tmp (object_path F k)) s3 = (rn, s4)" by fastforce
    consider "(\<exists>e. res = Inl e) \<and> (s' = s2 \<or> s' = s3)"
      | "matches H c b" "s' = s4" "(\<exists>e. res = Inl e) \<longleftrightarrow> (\<exists>e. rn = Inl e)"
      using run w n h m None
      by (auto simp: file_put_body_def b Let_def matches_def split: sum.splits if_splits)
    then show ?thesis
    proof cases
      case 1
      with q2 q3 show ?thesis by auto
    next
      case 2
      from w wr have "os_call (os_write tmp b) s = (Inr (), s1)" by simp
      then obtain xs where "os_write tmp b (s\<lparr>fs_faults := xs\<rparr>) = (Inr (), s1)" by (rule os_call_Inr)
      then have "map_of (fs_nodes s1) tmp = Some (File b (fs_now s))" by (auto simp: os_write_def)
      moreover obtain ys zs where "s2 = s1\<lparr>fs_faults := ys\<rparr>" "s3 = s2\<lparr>fs_faults := zs\<rparr>"
        using noop_call [OF n] noop_call [OF h] by metis
      ultimately have src: "map_of (fs_nodes s3) tmp = Some (File b (fs_now s))" by simp
      have ok3: "fs_ok F s3" using q3 ok by (simp add: quiet_def)
      from rename_call [OF k tmp ok3 src m] 2 show ?thesis
        using quiet_trans [OF q3] committed_quiet [OF q3] by blast
    qed
  qed
qed

lemma file_put_effect:
  assumes k: "object_key k" and ok: "fs_ok F s" and run: "file_put H F k r c opts s = (res, s')"
    and b: "b = rd_bytes (limit_reader r (wrap64 (c_size c + 1)))"
  shows "(\<exists>e. res = Inl e) \<and> quiet F s s' \<or> matches H c b \<and> committed F k b s s'"
proof -
  have F: "root_ok F" using ok by (simp add: fs_ok_def)
  obtain i f where dir: "path_dir (object_path F k) = object_dir F i"
    and i: "norm_comps (path_comps (fc_root F) @ [''_objects'', show_int i])"
    using F k by (rule object_path_dir)
  obtain mk s1 where m: "os_call (os_mkdir_all (object_dir F i)) s = (mk, s1)" by fastforce
  have q1: "quiet F s s1" by (rule quiet_call [OF m]) (rule quiet_mkdir_all [OF i])
  obtain ct s2 where t: "os_call (os_create_temp (object_dir F i)) s1 = (ct, s2)" by fastforce
  have q2: "quiet F s s2" by (rule quiet_trans [OF q1 quiet_call [OF t]]) (rule quiet_create_temp [OF i])
  note rk = resolve_key [OF F k]
  show ?thesis
  proof (cases mk)
    case (Inl e)
    with run m q1 show ?thesis by (auto simp: file_put_def rk dir)
  next
    case mk: (Inr u)
    show ?thesis
    proof (cases ct)
      case (Inl e)
      with run m t mk q2 show ?thesis by (auto simp: file_put_def rk dir)
    next
      case (Inr tmp)
      from t Inr obtain xs where "os_create_temp (object_dir F i) (s1\<lparr>fs_faults := xs\<rparr>) = (Inr tmp, s2)"
        using os_call_Inr by metis
      from create_temp_Inr [OF i this] have tmp: "temp_path F tmp" .
      obtain res' s3 where p: "file_put_body H (object_path F k) tmp r c s2 = (res', s3)" by fastforce
      obtain r4 s4 where d: "os_call (os_remove tmp) s3 = (r4, s4)" by fastforce
      have q4: "quiet F s3 s4" by (rule quiet_call [OF d]) (rule quiet_remove_temp [OF tmp])
      have fin: "res = res'" "s' = s4"
        using run m t mk Inr p d by (simp_all add: file_put_def rk dir)
      have ok2: "fs_ok F s2" using q2 ok by (simp add: quiet_def)
      from put_body_effect [OF k tmp ok2 p b] show ?thesis
        unfolding fin using quiet_trans [OF q2 quiet_trans [OF _ q4]]
          committed_quiet [OF q2 quiet_committed [OF _ q4]] by blast
    qed
  qed
qed

text \<open>A body that passes is the whole body: one byte more than declared would show.\<close>

lemma wrap64_step: "wrap64 (n + 1) \<noteq> n"
proof
  assume eq: "wrap64 (n + 1) = n"
  then have "in_int64 n" using wrap64_in_int64 [of "n + 1"] by simp
  show False
  proof (cases "in_int64 (n + 1)")
    case True
    with wrap64_id [OF True] eq show False by simp
  next
    case False
    with \<open>in_int64 n\<close> have "n = 2 ^ 63 - 1" by (simp add: in_int64_def)
    with eq show False by (simp add: wrap64_def)
  qed
qed

lemma whole_body:
  assumes "int (length b) = n" and "b = rd_bytes (limit_reader r (wrap64 (n + 1)))"
  shows "b = rd_bytes r"
proof (cases "int (length (rd_bytes r)) < wrap64 (n + 1)")
  case True
  with assms show ?thesis by (simp add: limit_reader_def)
next
  case False
  with assms(2) have "length b = nat (wrap64 (n + 1))" by (simp add: limit_reader_def)
  with assms(1) have w: "n = 0" "wrap64 (n + 1) \<le> 0" using wrap64_step [of n] by linarith+
  have "wrap64 1 = 1" by (rule wrap64_id) (simp add: in_int64_def)
  with w show ?thesis by simp
qed

subsection \<open>Deleting an object\<close>

definition removed :: "fconf \<Rightarrow> string \<Rightarrow> fstate \<Rightarrow> fstate \<Rightarrow> bool" where
  "removed F k s s' \<longleftrightarrow> (fs_ok F s \<longrightarrow> fs_ok F s' \<and> fs_stored F s' = (fs_stored F s)(k := None))"

lemma removed_quiet: "quiet F s t \<Longrightarrow> removed F k t u \<Longrightarrow> removed F k s u"
  by (simp add: quiet_def removed_def)

lemma quiet_removed: "removed F k s t \<Longrightarrow> quiet F t u \<Longrightarrow> removed F k s u"
  by (simp add: quiet_def removed_def)

lemma removed_nodes:
  assumes "fs_nodes s' = node_del (object_path F k) (fs_nodes s)"
  shows "removed F k s s'"
  using assms by (auto simp: removed_def fs_ok_def fs_stored_def fun_eq_iff object_path_inj node_del_def
      map_of_filter_ne file_bytes_def distinct_filter_fst)

lemma node_del_missing: "map_of ns p = None \<Longrightarrow> node_del p ns = ns"
  by (auto simp: node_del_def filter_id_conv map_of_eq_None_iff image_iff)

lemma os_remove_nodes: "os_remove p s = (r, s') \<Longrightarrow> s' = s \<or> fs_nodes s' = node_del p (fs_nodes s)"
  by (auto simp: os_remove_def split: if_splits option.splits node.splits)

lemma os_remove_ok: "os_remove p s = (Inr x, s') \<Longrightarrow> fs_nodes s' = node_del p (fs_nodes s) \<and> \<not> blocked p (fs_nodes s)"
  by (auto simp: os_remove_def split: if_splits option.splits node.splits)

lemma os_remove_missing:
  "os_remove p s = (Inl e, s') \<Longrightarrow> errors_is e NotExist \<Longrightarrow>
     s' = s \<and> map_of (fs_nodes s) p = None \<and> \<not> blocked p (fs_nodes s)"
  by (auto simp: os_remove_def enotdir_def split: if_splits option.splits node.splits)

lemma not_blocked_parent:
  assumes "norm_comps cs" "cs \<noteq> []" "norm_comp c" "\<not> blocked (abs_path (cs @ [c])) ns"
  shows "\<not> is_file (abs_path cs) ns"
proof -
  have n: "norm_comps (cs @ [c])" using assms by (simp add: norm_comps_append)
  have "ancestors (abs_path (cs @ [c])) = map (\<lambda>n. abs_path (take n (cs @ [c]))) ([1..<Suc (length cs)] @ [Suc (length cs)])"
    unfolding ancestors_abs [OF n] by simp
  then have "butlast (ancestors (abs_path (cs @ [c]))) = map (\<lambda>n. abs_path (take n (cs @ [c]))) [1..<Suc (length cs)]"
    by (simp add: butlast_append)
  moreover have "abs_path cs \<in> (\<lambda>n. abs_path (take n (cs @ [c]))) ` {1..<Suc (length cs)}"
    by (rule image_eqI [of _ _ "length cs"]) (use assms(2) in \<open>auto simp: Suc_le_eq\<close>)
  ultimately show ?thesis using assms(4) by (auto simp: blocked_def list_ex_iff)
qed

text \<open>Pruning the parent directory after a removal is quiet: the parent is not a file.\<close>

lemma quiet_prune:
  assumes "fs_ok F s" "clean_abs p" "\<not> blocked p (fs_nodes s)" and "os_remove (path_dir p) s = (r, s')"
  shows "quiet F s s'"
proof -
  from assms(2) obtain es where es: "norm_comps es" "p = abs_path es" by (auto simp: clean_abs_def)
  then obtain cs c where cs: "es = cs @ [c]" by (cases es rule: rev_cases) (auto simp: norm_comps_def)
  have c: "norm_comp c" using es cs by (simp add: norm_comps_def)
  have "map_of (fs_nodes s) (path_dir p) = None \<or> map_of (fs_nodes s) (path_dir p) = Some Dir"
  proof (cases "cs = []")
    case True
    with es cs c have "p = CHR ''/'' # c" by (simp add: abs_path_def)
    with c have "path_dir p = ''/''"
      by (simp add: path_dir_def norm_comp_def split_on_no_sep clean_path_def clean_elems_def clean_step_def Let_def)
    moreover have "\<not> clean_abs ''/''"
    proof
      assume "clean_abs ''/''"
      then obtain ds where "norm_comps ds" "''/'' = abs_path ds" by (auto simp: clean_abs_def)
      with last_abs_path [of ds] show False by (metis last.simps)
    qed
    ultimately have "map_of (fs_nodes s) (path_dir p) = None"
      using assms(1) by (metis fs_ok_def fst_conv map_of_SomeD not_Some_eq)
    then show ?thesis ..
  next
    case False
    have n: "norm_comps cs" using False es cs by (simp add: norm_comps_def)
    with path_dir_abs [OF n c] es cs have "path_dir p = abs_path cs" by simp
    moreover have "\<not> is_file (abs_path cs) (fs_nodes s)"
      using not_blocked_parent [OF n False c] assms(3) es cs by simp
    ultimately show ?thesis by (auto simp: is_file_def split: option.splits node.splits)
  qed
  then consider "s' = s" | "map_of (fs_nodes s) (path_dir p) = Some Dir" "fs_nodes s' = node_del (path_dir p) (fs_nodes s)"
  proof (elim disjE)
    assume "map_of (fs_nodes s) (path_dir p) = None"
    then have "s' = s" using assms(4) by (auto simp: os_remove_def split: if_splits)
    with that show thesis by blast
  next
    assume d: "map_of (fs_nodes s) (path_dir p) = Some Dir"
    then have "s' = s \<or> fs_nodes s' = node_del (path_dir p) (fs_nodes s)"
      using os_remove_nodes [OF assms(4)] by blast
    with d that show thesis by blast
  qed
  then show ?thesis
  proof cases
    case 2
    show ?thesis
    proof (rule quiet_nodes)
      show "\<forall>e \<in> set (fs_nodes s'). e \<in> set (fs_nodes s) \<or> clean_abs (fst e)"
        by (simp add: 2 node_del_def)
      show "distinct (map fst (fs_nodes s)) \<longrightarrow> distinct (map fst (fs_nodes s'))"
        by (simp add: 2)
      show "\<forall>k. object_key k \<longrightarrow> map_of (fs_nodes s') (object_path F k) = map_of (fs_nodes s) (object_path F k)"
        using 2 assms(1) by (auto simp: fs_ok_def)
    qed
  qed simp
qed

lemma blocked_del: "\<not> blocked p ns \<Longrightarrow> \<not> blocked p (node_del q ns)"
  by (auto simp: blocked_def list_ex_iff is_file_def split: option.splits node.splits if_splits)

lemma file_delete_effect:
  assumes rk: "resolve F k = Inr (object_path F k)" and p: "clean_abs (object_path F k)"
    and ok: "fs_ok F s" and run: "file_delete F k s = (res, s')"
  shows "(\<exists>e. res = Inl e) \<and> quiet F s s' \<or> removed F k s s'"
proof -
  let ?p = "object_path F k"
  obtain rm s1 where m: "os_call (os_remove ?p) s = (rm, s1)" by fastforce
  obtain r2 s2 where d: "os_call (os_remove (path_dir ?p)) s1 = (r2, s2)" by fastforce
  have q1: "quiet F s s1 \<or> removed F k s s1"
    by (rule os_call_rel [OF m]) (auto dest!: os_remove_nodes intro!: removed_nodes)
  show ?thesis
  proof (cases "\<exists>e. rm = Inl e \<and> \<not> errors_is e NotExist")
    case True
    with run m rk have "\<exists>e. res = Inl e" "s' = s1" by (auto simp: file_delete_def)
    with q1 show ?thesis by auto
  next
    case False
    then have fin: "s' = s2"
      using run m d rk by (auto simp: file_delete_def split: sum.splits)
    have r1: "removed F k s s1" and nb: "\<not> blocked ?p (fs_nodes s1)"
    proof -
      have "removed F k s s1 \<and> \<not> blocked ?p (fs_nodes s1)"
        using m
      proof (cases rule: os_call_cases)
        case (ran xs)
        show ?thesis
        proof (cases rm)
          case (Inl e)
          with False ran os_remove_missing [of ?p "s\<lparr>fs_faults := xs\<rparr>" e s1] have "s1 = s\<lparr>fs_faults := xs\<rparr>"
            "map_of (fs_nodes s) ?p = None" "\<not> blocked ?p (fs_nodes s)" by auto
          moreover from this have "fs_nodes s1 = node_del ?p (fs_nodes s)"
            by (auto simp: node_del_missing)
          ultimately show ?thesis by (auto intro: removed_nodes)
        next
          case (Inr u)
          with ran os_remove_ok [of ?p "s\<lparr>fs_faults := xs\<rparr>" u s1] have "fs_nodes s1 = node_del ?p (fs_nodes s)"
            "\<not> blocked ?p (fs_nodes s)" by auto
          then show ?thesis by (simp add: removed_nodes blocked_del)
        qed
      next
        case (refused xs i)
        with False show ?thesis by simp
      next
        case (lost xs i res')
        with False show ?thesis by simp
      qed
      then show "removed F k s s1" "\<not> blocked ?p (fs_nodes s1)" by auto
    qed
    have ok1: "fs_ok F s1" using r1 ok by (simp add: removed_def)
    have q2: "quiet F s1 s2"
      using d
    proof (cases rule: os_call_cases)
      case (ran xs)
      from quiet_trans [OF quiet_faults quiet_prune [OF _ p _ ran]] ok1 nb show ?thesis by simp
    next
      case (refused xs i)
      then show ?thesis by simp
    next
      case (lost xs i res')
      from quiet_trans [OF quiet_faults quiet_prune [OF _ p _ lost(2)]] ok1 nb show ?thesis by simp
    qed
    from quiet_removed [OF r1 q2] show ?thesis by (simp add: fin)
  qed
qed

text \<open>Any deletion keeps the invariant.\<close>

lemma os_remove_keeps: "os_remove p s = (r, s') \<Longrightarrow> fs_ok F s \<Longrightarrow> fs_ok F s'"
  by (drule os_remove_nodes) (auto simp: fs_ok_def node_del_def map_of_filter_ne distinct_filter_fst split: if_splits)

lemma remove_call_keeps: "os_call (os_remove p) s = (r, s') \<Longrightarrow> fs_ok F s \<Longrightarrow> fs_ok F s'"
  by (erule os_call_cases) (auto dest: os_remove_keeps [where F = F])

lemma file_delete_keeps: "fs_ok F s \<Longrightarrow> fs_ok F (snd (file_delete F k s))"
  by (auto simp: file_delete_def Let_def split: sum.splits prod.splits dest: remove_call_keeps [where F = F])

subsection \<open>Reads\<close>

lemma lookup_call: "os_call (os_lookup p) s = (r, s') \<Longrightarrow> \<exists>xs. s' = s\<lparr>fs_faults := xs\<rparr>"
  by (erule os_call_cases) (auto simp: os_lookup_def split: if_splits option.splits)

lemma lookup_call_Inr:
  assumes "os_call (os_lookup p) s = (Inr n, s')"
  shows "map_of (fs_nodes s) p = Some n"
proof -
  from assms obtain xs where "os_lookup p (s\<lparr>fs_faults := xs\<rparr>) = (Inr n, s')" by (rule os_call_Inr)
  then show ?thesis by (auto simp: os_lookup_def split: if_splits option.splits)
qed

text \<open>States that differ in the schedule only.\<close>

definition same_files :: "fstate \<Rightarrow> fstate \<Rightarrow> bool" where
  "same_files s s' \<longleftrightarrow> (\<exists>xs. s' = s\<lparr>fs_faults := xs\<rparr>)"

lemma same_files_quiet: "same_files s s' \<Longrightarrow> quiet F s s'"
  by (auto simp: same_files_def)

lemma same_files_refl [simp]: "same_files s s"
  unfolding same_files_def by (rule exI [of _ "fs_faults s"]) simp

lemma same_files_trans: "same_files s t \<Longrightarrow> same_files t u \<Longrightarrow> same_files s u"
  by (auto simp: same_files_def)

lemma lookup_same: "os_call (os_lookup p) s = (r, s') \<Longrightarrow> same_files s s'"
  unfolding same_files_def by (rule lookup_call)

lemma open_file_same: "open_file F k s = (r, s') \<Longrightarrow> same_files s s'"
  by (auto simp: open_file_def Let_def split: sum.splits prod.splits dest: lookup_same)

lemma file_open_same: "file_open F k s = (r, s') \<Longrightarrow> same_files s s'"
  by (auto simp: file_open_def Let_def split: prod.splits dest: open_file_same)

lemma file_verify_same: "file_verify F k c s = (r, s') \<Longrightarrow> same_files s s'"
  by (auto simp: file_verify_def Let_def split: sum.splits prod.splits if_splits dest: lookup_same)

lemma read_call_same: "os_call (\<lambda>s. (f s, s)) s = (r, s') \<Longrightarrow> same_files s s'"
  by (erule os_call_cases) (auto simp: same_files_def)

lemma file_head_same: "file_head F k n s = (r, s') \<Longrightarrow> same_files s s'"
  by (auto simp: file_head_def Let_def split: sum.splits prod.splits
      dest: open_file_same read_call_same intro: same_files_trans)

lemma file_verify_ok:
  assumes k: "object_key k" and ok: "fs_ok F s" and run: "file_verify F k c s = (Inr x, s')"
  shows "\<exists>b. fs_stored F s k = Some b \<and> int (length b) = c_size c"
proof -
  have "root_ok F" using ok by (simp add: fs_ok_def)
  from run obtain n where n: "os_call (os_lookup (object_path F k)) s = (Inr n, s')" "node_size s' n = c_size c"
    by (auto simp: file_verify_def resolve_key [OF \<open>root_ok F\<close> k] Let_def split: sum.splits prod.splits if_splits)
  from lookup_call_Inr [OF n(1)] ok k obtain b t where "n = File b t" "map_of (fs_nodes s) (object_path F k) = Some (File b t)"
    by (cases n) (auto simp: fs_ok_def)
  with n(2) k show ?thesis by (simp add: fs_stored_def file_bytes_def node_size_def)
qed

subsection \<open>Listing\<close>

lemma noop_same: "os_call os_noop s = (r, s') \<Longrightarrow> same_files s s'"
  by (auto simp: same_files_def elim: noop_call)

lemma walk_same:
  "walk t es s = ((ks, err), s') \<Longrightarrow> same_files s s' \<and> (\<forall>k \<in> set ks. \<exists>b u. (k, File b u) \<in> set es)"
proof (induction es arbitrary: s ks err s')
  case (Cons e es)
  obtain p n where e: "e = (p, n)" by (cases e)
  obtain r s1 where o: "os_call os_noop s = (r, s1)" by fastforce
  obtain ks' err' s2 where w: "walk t es s1 = ((ks', err'), s2)" by (metis surj_pair)
  from Cons.IH [OF w] same_files_trans [OF noop_same [OF o]] Cons.prems o w noop_same [OF o]
  show ?case unfolding e by (auto split: sum.splits if_splits node.splits; blast)
qed simp

lemma walk_entries_path:
  assumes "(k, n) \<in> set (walk_entries F ns)"
  shows "(object_path F k, n) \<in> set ns"
proof -
  from assms obtain p where e: "(p, n) \<in> set ns" "k = drop (length (fc_root F) + 1) p"
    "p = fc_root F @ ''/_objects'' \<or> prefix (fc_root F @ ''/_objects/'') p"
    by (auto simp: walk_entries_def)
  from e(3) obtain q where "p = fc_root F @ ''/'' @ q" by (auto elim!: prefixE)
  with e(1,2) show ?thesis by (auto simp: object_path_def)
qed

lemma file_expired_same:
  assumes "file_expired_objects F t s = ((ks, err), s')"
  shows "same_files s s' \<and> (\<forall>k \<in> set ks. \<exists>b u. (object_path F k, File b u) \<in> set (fs_nodes s))"
proof -
  obtain r s1 where l: "os_call (os_lookup (fc_root F)) s = (r, s1)" by fastforce
  from lookup_same [OF l] have s1: "same_files s s1" .
  then have n1: "fs_nodes s1 = fs_nodes s" by (auto simp: same_files_def)
  show ?thesis
  proof (cases "r = Inr Dir")
    case True
    with assms l have "walk t (walk_entries F (fs_nodes s)) s1 = ((ks, err), s')"
      by (simp add: file_expired_objects_def n1)
    from walk_same [OF this] same_files_trans [OF s1] walk_entries_path show ?thesis by blast
  next
    case False
    with assms l s1 show ?thesis
      by (auto simp: file_expired_objects_def split: sum.splits node.splits)
  qed
qed

lemma resolve_stored_path:
  assumes F: "root_ok F" and p: "clean_abs (object_path F k)"
  shows "resolve F k = Inr (object_path F k)"
proof -
  from F obtain rc where rc: "norm_comps rc" "fc_root F = abs_path rc" by (auto simp: root_ok_def clean_abs_def)
  from p obtain cs where cs: "norm_comps cs" "object_path F k = abs_path cs" by (auto simp: clean_abs_def)
  let ?ds = "split_on (CHR ''/'') k"
  have "object_path F k = join_with ''/'' (([] # rc) @ ?ds)"
    using rc by (simp add: object_path_def abs_path_def join_with_append join_with_Cons norm_comps_def)
  moreover have "\<forall>q \<in> set (([] # rc) @ ?ds). CHR ''/'' \<notin> set q"
    using rc(1) split_on_parts [of _ "CHR ''/''" k] by (auto simp: norm_comps_def norm_comp_def list_all_iff)
  ultimately have "split_on (CHR ''/'') (object_path F k) = ([] # rc) @ ?ds"
    using split_join [of "([] # rc) @ ?ds" "CHR ''/''"] by simp
  with cs split_abs_path [OF cs(1)] have "cs = rc @ ?ds" by simp
  with cs(1) have "list_all norm_comp ?ds" by (simp add: norm_comps_def)
  from resolve_clean [OF F this] show ?thesis by simp
qed

subsection \<open>The contract\<close>

lemma file_presign_put_state [simp]: "snd (file_presign_put C N F k c ttl s) = s"
  by (auto simp: file_presign_put_def split: sum.splits)

lemma file_begin_upload_state [simp]: "snd (file_begin_upload C N F k c s) = s"
  using file_presign_put_state [of C N F k c 0 s]
  by (auto simp: file_begin_upload_def simp del: file_presign_put_state split: prod.splits)

lemma file_put_law:
  assumes "fs_ok F s" "object_key k" "file_put H F k r c opts s = (res, s')"
  shows "fs_ok F s'"
    and "fs_stored F s' = fs_stored F s \<or> (\<exists>b. matches H c b \<and> fs_stored F s' = (fs_stored F s)(k \<mapsto> b))"
    and "res = Inr x \<Longrightarrow> matches H c (rd_bytes r) \<and> fs_stored F s' = (fs_stored F s)(k \<mapsto> rd_bytes r)"
proof -
  let ?b = "rd_bytes (limit_reader r (wrap64 (c_size c + 1)))"
  have eff: "(\<exists>e. res = Inl e) \<and> quiet F s s' \<or> matches H c ?b \<and> committed F k ?b s s'"
    by (rule file_put_effect [OF assms(2,1,3)]) simp
  with assms(1) show "fs_ok F s'" by (auto simp: quiet_def committed_def)
  from eff assms(1) show "fs_stored F s' = fs_stored F s \<or> (\<exists>b. matches H c b \<and> fs_stored F s' = (fs_stored F s)(k \<mapsto> b))"
    by (auto simp: quiet_def committed_def)
  assume "res = Inr x"
  with eff have m: "matches H c ?b" and "committed F k ?b s s'" by auto
  moreover have "?b = rd_bytes r" by (rule whole_body) (use m in \<open>auto simp: matches_def\<close>)
  ultimately show "matches H c (rd_bytes r) \<and> fs_stored F s' = (fs_stored F s)(k \<mapsto> rd_bytes r)"
    using assms(1) by (simp add: committed_def)
qed

lemma file_delete_law:
  assumes "fs_ok F s" "clean_abs (object_path F k)" "file_delete F k s = (res, s')"
  shows "fs_stored F s' = fs_stored F s \<or> fs_stored F s' = (fs_stored F s)(k := None)"
    and "res = Inr x \<Longrightarrow> fs_stored F s' = (fs_stored F s)(k := None)"
proof -
  have "root_ok F" using assms(1) by (simp add: fs_ok_def)
  note eff = file_delete_effect [OF resolve_stored_path [OF this assms(2)] assms(2,1,3)]
  with assms(1) show "fs_stored F s' = fs_stored F s \<or> fs_stored F s' = (fs_stored F s)(k := None)"
    by (auto simp: quiet_def removed_def)
  show "res = Inr x \<Longrightarrow> fs_stored F s' = (fs_stored F s)(k := None)"
    using eff assms(1) by (auto simp: removed_def)
qed

lemma fs_key_clean: "fs_ok F s \<Longrightarrow> object_key k \<Longrightarrow> clean_abs (object_path F k)"
  by (simp add: fs_ok_def object_path_clean)

lemma fs_listed_clean:
  assumes "fs_ok F s" "file_expired_objects F t s = ((ks, err), s')" "k \<in> set ks"
  shows "clean_abs (object_path F k)"
proof -
  obtain n where "(object_path F k, n) \<in> set (fs_nodes s)"
    using file_expired_same [OF assms(2)] assms(3) by blast
  with assms(1) show ?thesis by (force simp: fs_ok_def)
qed

lemma fs_listed_stored:
  assumes "fs_ok F s" "file_expired_objects F t s = ((ks, err), s')" "k \<in> set ks" "object_key k"
  shows "fs_stored F s k \<noteq> None"
proof -
  obtain b u where "(object_path F k, File b u) \<in> set (fs_nodes s)"
    using file_expired_same [OF assms(2)] assms(3) by blast
  then have "map_of (fs_nodes s) (object_path F k) = Some (File b u)"
    using assms(1) by (simp add: fs_ok_def)
  with assms(4) show ?thesis by (simp add: fs_stored_def file_bytes_def)
qed

lemma file_open_ok:
  assumes k: "object_key k" and ok: "fs_ok F s" and run: "file_open F k s = (Inr rd, s')"
  shows "\<exists>b. fs_stored F s k = Some b \<and> rd = bytes_reader b"
proof -
  have "root_ok F" using ok by (simp add: fs_ok_def)
  from run obtain n where n: "os_call (os_lookup (object_path F k)) s = (Inr n, s')" "rd = node_reader n"
    by (auto simp: file_open_def open_file_def resolve_key [OF \<open>root_ok F\<close> k] Let_def
        split: sum.splits prod.splits)
  from lookup_call_Inr [OF n(1)] ok k obtain b t where "n = File b t" "map_of (fs_nodes s) (object_path F k) = Some (File b t)"
    by (cases n) (auto simp: fs_ok_def)
  with n(2) k show ?thesis by (simp add: fs_stored_def file_bytes_def)
qed

lemma same_files_law: "fs_ok F s \<Longrightarrow> same_files s s' \<Longrightarrow> fs_stored F s' = fs_stored F s \<and> fs_ok F s'"
  using same_files_quiet by (auto simp: quiet_def)

lemmas file_reads_same = file_verify_same file_head_same file_open_same

lemmas file_backend_simps = file_backend_def backend.simps

text \<open>The file store has no multipart uploads: none is open and none is ever given out.\<close>

interpretation fs: multipart_contract "file_backend C N H F" H "fs_stored F" "fs_ok F" "matches H"
  "\<lambda>w k. {}" "\<lambda>w. {}" "\<lambda>c. False"
proof (unfold_locales, unfold file_backend_simps keeps_closed_def uploads_step_def)
  fix w w' v v' :: fstate and k r c opts res x t ks err rh ro ra ttl rt gopts ru n rl rd
  assume ok: "fs_ok F w"
  show "object_key k \<Longrightarrow> fs_ok F (snd (file_put H F k r c opts w))"
    using file_put_law(1) [OF ok _ prod.collapse [symmetric]] .
  show "object_key k \<Longrightarrow> file_put H F k r c opts w = (res, w') \<Longrightarrow>
      fs_stored F w' = fs_stored F w \<or> (\<exists>b. matches H c b \<and> fs_stored F w' = (fs_stored F w)(k \<mapsto> b))"
    using file_put_law(2) [OF ok] .
  show "object_key k \<Longrightarrow> matches H c (rd_bytes r) \<Longrightarrow> file_put H F k r c opts w = (Inr x, w') \<Longrightarrow>
      fs_stored F w' = (fs_stored F w)(k \<mapsto> rd_bytes r)"
    using file_put_law(3) [OF ok] by (auto simp: matches_def)
  show "fs_ok F (snd (file_delete F k w))" by (rule file_delete_keeps [OF ok])
  show "object_key k \<Longrightarrow> file_delete F k w = (res, w') \<Longrightarrow>
      fs_stored F w' = fs_stored F w \<or> fs_stored F w' = (fs_stored F w)(k := None)"
    using file_delete_law(1) [OF ok fs_key_clean [OF ok]] .
  show "file_expired_objects F t w = ((ks, err), w') \<Longrightarrow> k \<in> set ks \<Longrightarrow> fs_ok F v \<Longrightarrow>
      file_delete F k v = (res, v') \<Longrightarrow> fs_stored F v' = fs_stored F v \<or> fs_stored F v' = (fs_stored F v)(k := None)"
    using file_delete_law(1) fs_listed_clean [OF ok] by blast
  show "object_key k \<Longrightarrow> file_delete F k w = (Inr x, w') \<Longrightarrow> fs_stored F w' = (fs_stored F w)(k := None)"
    using file_delete_law(2) [OF ok fs_key_clean [OF ok]] by blast
  show "object_key k \<Longrightarrow> file_verify F k c w = (Inr x, w') \<Longrightarrow> \<exists>b. fs_stored F w k = Some b \<and> int (length b) = c_size c"
    using file_verify_ok [OF _ ok] .
  show "file_verify F k c w = (res, w') \<Longrightarrow> fs_stored F w' = fs_stored F w \<and> fs_ok F w'"
    "file_head F k n w = (rh, w') \<Longrightarrow> fs_stored F w' = fs_stored F w \<and> fs_ok F w'"
    "file_open F k w = (ro, w') \<Longrightarrow> fs_stored F w' = fs_stored F w \<and> fs_ok F w'"
    by (auto dest!: file_reads_same same_files_law [OF ok])
  show "file_begin_upload C N F k c w = (ra, w') \<Longrightarrow> fs_stored F w' = fs_stored F w \<and> fs_ok F w'"
    using ok file_begin_upload_state [of C N F k c w] by auto
  show "file_presign_put C N F k c ttl w = (rt, w') \<Longrightarrow> fs_stored F w' = fs_stored F w \<and> fs_ok F w'"
    using ok file_presign_put_state [of C N F k c ttl w] by auto
  show "file_presign_get C N F k ttl gopts w = (ru, w') \<Longrightarrow> fs_stored F w' = fs_stored F w \<and> fs_ok F w'"
    using ok by (auto simp: file_presign_get_def)
  show "file_expired_objects F t w = (rl, w') \<Longrightarrow> fs_stored F w' = fs_stored F w \<and> fs_ok F w'"
    using file_expired_same same_files_law [OF ok] by (metis surj_pair)
  show "object_key k \<Longrightarrow> file_open F k w = (Inr rd, w') \<Longrightarrow>
      \<exists>b. fs_stored F w k = Some b \<and> prefix (rd_bytes rd) b \<and> (rd_err rd = None \<longrightarrow> rd_bytes rd = b)"
    using file_open_ok [OF _ ok] by (fastforce simp: bytes_reader_def)
  show "file_expired_objects F t w = ((ks, err), w') \<Longrightarrow> k \<in> set ks \<Longrightarrow> object_key k \<Longrightarrow> fs_stored F w k \<noteq> None"
    using fs_listed_stored [OF ok] .
qed (auto simp: file_begin_upload_def Let_def split: prod.splits sum.splits)

end
