(* ===== verification/Transfers.thy ===== *)
theory Transfers
  imports Service FileStore
begin

text \<open>
  The HTTP side of the file store: the transfer endpoint that redeems capabilities
  (\<open>bloby/http.go\<close>), the serving of one key (\<open>bloby/serve.go\<close>) and the delivery of an object
  (\<open>bloby/delivery.go\<close>). A handler is a function from a request to the response it writes and
  the error it logs. \<open>http.ServeContent\<close>, with its ranges and conditional requests, is a
  parameter: a function of the headers set so far, the file name, the content and the request.
\<close>

record http_request =
  rq_method :: string
  rq_path :: string
  rq_cap :: string        \<comment> \<open>\<open>URL.Query().Get("cap")\<close>\<close>
  rq_body :: reader

record http_response =
  rs_status :: int
  rs_header :: "(string \<times> string) list"
  rs_body :: string

type_synonym httplib = "(string \<times> string) list \<Rightarrow> string \<Rightarrow> reader \<Rightarrow> http_request \<Rightarrow> http_response"

definition status_only :: "int \<Rightarrow> http_response" where
  "status_only n = \<lparr>rs_status = n, rs_header = [], rs_body = ''''\<rparr>"

record serve_options =
  so_ctype :: string
  so_filename :: string
  so_cache :: string
  so_etag :: string

definition serve_headers :: "serve_options \<Rightarrow> (string \<times> string) list" where
  "serve_headers o' =
     (if so_ctype o' \<noteq> '''' then [(''Content-Type'', so_ctype o')] else [])
     @ (if so_cache o' \<noteq> '''' then [(''Cache-Control'', so_cache o')] else [])
     @ (if so_etag o' \<noteq> '''' then [(''ETag'', so_etag o')] else [])"


definition serve_key ::
  "httplib \<Rightarrow> fconf \<Rightarrow> http_request \<Rightarrow> string \<Rightarrow> serve_options \<Rightarrow> fstate \<Rightarrow> (http_response \<times> goerr option) \<times> fstate" where
  "serve_key L F rq key o' s =
     (let (r, s') = open_file F key s in
      case r of
        Inl e \<Rightarrow>
          if errors_is e ErrObjectNotFound then ((status_only 404, None), s')
          else ((status_only 500, Some (Wrap ''open object'' [e])), s')
      | Inr n \<Rightarrow>
          let filename = (if so_filename o' = '''' then path_base key else so_filename o') in
          ((L (serve_headers o') filename (node_reader n) rq, None), s'))"

subsection \<open>The transfer endpoint\<close>

definition transfer_verify :: "crypto \<Rightarrow> fconf \<Rightarrow> http_request \<Rightarrow> string \<Rightarrow> int \<Rightarrow> int + claims" where
  "transfer_verify C F rq op now =
     (let requestKey = trim_prefix ''/storage/'' (rq_path rq) in
      case verify_capability C (fc_key F) (rq_cap rq) op now of
        Inl e \<Rightarrow> if errors_is e ErrExpiredCapability then Inl 410 else Inl 401
      | Inr c \<Rightarrow>
          if cl_key c = '''' \<or> requestKey \<noteq> cl_key c then Inl 401
          else if op = capability_put \<and> (cl_size c < 0 \<or> \<not> sha256_pattern (cl_sha256 c)) then Inl 401
          else Inr c)"

definition transfer_get ::
  "crypto \<Rightarrow> httplib \<Rightarrow> fconf \<Rightarrow> http_request \<Rightarrow> fstate \<Rightarrow> (http_response \<times> goerr option) \<times> fstate" where
  "transfer_get C L F rq s =
     (case transfer_verify C F rq capability_get (fs_now s) of
        Inl st \<Rightarrow> ((status_only st, None), s)
      | Inr c \<Rightarrow> serve_key L F rq (cl_key c)
          \<lparr>so_ctype = cl_ctype c, so_filename = '''', so_cache = '''', so_etag = ''''\<rparr> s)"

definition claimed_content :: "claims \<Rightarrow> content" where
  "claimed_content c = \<lparr>c_size = cl_size c, c_sha256 = cl_sha256 c, c_crc64 = ''''\<rparr>"

definition transfer_put ::
  "crypto \<Rightarrow> hashes \<Rightarrow> fconf \<Rightarrow> http_request \<Rightarrow> fstate \<Rightarrow> (http_response \<times> goerr option) \<times> fstate" where
  "transfer_put C H F rq s =
     (case transfer_verify C F rq capability_put (fs_now s) of
        Inl st \<Rightarrow> ((status_only st, None), s)
      | Inr c \<Rightarrow>
          (let (r, s') = file_put H F (cl_key c) (rq_body rq) (claimed_content c) \<lparr>po_ctype = ''''\<rparr> s in
           case r of
             Inl e \<Rightarrow>
               if errors_is e ErrContentMismatch then ((status_only 400, None), s')
               else ((status_only 500, Some e), s')
           | Inr _ \<Rightarrow> ((status_only 204, None), s')))"

definition transfer_http ::
  "crypto \<Rightarrow> hashes \<Rightarrow> httplib \<Rightarrow> fconf \<Rightarrow> http_request \<Rightarrow> fstate \<Rightarrow> (http_response \<times> goerr option) \<times> fstate" where
  "transfer_http C H L F rq s =
     (if rq_method rq = ''GET'' then transfer_get C L F rq s
      else if rq_method rq = ''PUT'' then transfer_put C H F rq s
      else ((status_only 405, None), s))"

text \<open>
  \<open>TransferHandler\<close>: the handler of a file store; without one every request is not found. The
  option stands for the type assertion \<open>s.backend.(*fileStore)\<close>.
\<close>

definition transfer_handler ::
  "crypto \<Rightarrow> hashes \<Rightarrow> httplib \<Rightarrow> fconf option \<Rightarrow> http_request \<Rightarrow> fstate \<Rightarrow> (http_response \<times> goerr option) \<times> fstate" where
  "transfer_handler C H L file rq s =
     (case file of None \<Rightarrow> ((status_only 404, None), s) | Some F \<Rightarrow> transfer_http C H L F rq s)"

subsection \<open>Delivery\<close>

definition redirect :: "string \<Rightarrow> http_response" where
  "redirect u = \<lparr>rs_status = 302, rs_header = [(''Location'', u)], rs_body = ''''\<rparr>"

definition deliver ::
  "httplib \<Rightarrow> fconf option \<Rightarrow> ('d, fstate) service \<Rightarrow> http_request \<Rightarrow> obj \<Rightarrow> string \<Rightarrow>
     ('d, fstate, http_response \<times> goerr option) oper" where
  "deliver L file S rq b cache =
     (if \<not> available b then State_Monad.return (status_only 404, Some (Sentinel ErrNotFound))
      else case file of
        Some F \<Rightarrow>
          on_be (serve_key L F rq (obj_stored_key b)
            \<lparr>so_ctype = ob_ctype b, so_filename = ob_filename b, so_cache = cache, so_etag = etag b\<rparr>)
      | None \<Rightarrow> do {
          u \<leftarrow> download_url S b 0 cache;
          State_Monad.return (case u of
            Inl e \<Rightarrow> (status_only 500, Some e)
          | Inr url \<Rightarrow> (redirect url, None)) })"

subsection \<open>What a request can reach\<close>

lemma transfer_verify_Inr:
  assumes "transfer_verify C F rq op now = Inr c"
  shows "authentic C (fc_key F) (rq_cap rq) c" "unix_seconds now < cl_exp c" "cl_op c = op"
    and "cl_key c \<noteq> ''''" "trim_prefix ''/storage/'' (rq_path rq) = cl_key c"
    and "op = capability_put \<Longrightarrow> 0 \<le> cl_size c \<and> sha256_pattern (cl_sha256 c)"
  using assms verify_capability_Inr [of C "fc_key F" "rq_cap rq" op now c]
  by (auto simp: transfer_verify_def Let_def split: sum.splits if_splits)

lemma transfer_verify_status: "transfer_verify C F rq op now = Inl st \<Longrightarrow> st = 410 \<or> st = 401"
  by (auto simp: transfer_verify_def Let_def split: sum.splits if_splits)

end
