(* ===== verification/Lifecycle.thy ===== *)
theory Lifecycle
  imports Serving PgxContract FileContract Transfers
begin

text \<open>
  The service on the PostgreSQL registry and the file store: the interpretation of the safety
  theory on the two implementations, the transfer endpoint as one more request within the rely,
  and the reachable states of the whole system as an inductive relation.
\<close>

subsection \<open>The service on its two stores\<close>

definition file_service ::
  "crypto \<Rightarrow> netlib \<Rightarrow> hashes \<Rightarrow> fconf \<Rightarrow> mime \<Rightarrow> int \<Rightarrow> string list \<Rightarrow> (db, fstate) service" where
  "file_service C N H F M ttl ps =
     \<lparr>sv_registry = pg_registry, sv_backend = file_backend C N H F, sv_mime = M, sv_hashes = H,
      sv_ttl = ttl, sv_prefixes = ps\<rparr>"

text \<open>
  The invariant and the rely of this system: the file store vouches for bytes that match their
  declaration, and has no multipart uploads. The promises \<open>G\<close> are the grants that were handed out.
\<close>

definition system_inv ::
  "hashes \<Rightarrow> fconf \<Rightarrow> (string \<times> content) set \<Rightarrow> history \<Rightarrow> db \<times> fstate \<Rightarrow> bool" where
  "system_inv H F G = store_inv db_view db_next db_ok (fs_stored F) (fs_ok F) (matches H) (\<lambda>f k. {}) (\<lambda>f. {}) (\<lambda>c. False) G"

definition system_evolves :: "hashes \<Rightarrow> fconf \<Rightarrow> history \<Rightarrow> db \<times> fstate \<Rightarrow> history \<Rightarrow> db \<times> fstate \<Rightarrow> bool" where
  "system_evolves H F = evolves db_view (fs_stored F) (matches H) (\<lambda>f k. {}) (\<lambda>f. {}) {}"

abbreviation system_within ::
  "hashes \<Rightarrow> fconf \<Rightarrow> (string \<times> content) set \<Rightarrow> (history, db, fstate) assertion \<Rightarrow> (db, fstate, 'a) oper \<Rightarrow>
     ('a \<Rightarrow> (history, db, fstate) assertion) \<Rightarrow> bool" where
  "system_within H F G \<equiv> within (system_inv H F G) (system_evolves H F) (system_evolves H F)"

lemmas file_service_simps = file_service_def service.simps

interpretation bloby: bloby_stores "file_service C N H F M ttl ps" db_view db_ok db_next "fs_stored F" "fs_ok F"
  "matches H" "\<lambda>f k. {}" "\<lambda>f. {}" "\<lambda>c. False" G "{}" "{}" 0
  for C :: crypto and N H F M ttl ps G
proof (intro bloby_stores.intro bloby_stores_axioms.intro)
  show "registry_fresh (sv_registry (file_service C N H F M ttl ps)) db_view db_ok db_next"
    unfolding file_service_simps by (rule pgf.registry_fresh_axioms)
  show "multipart_contract (sv_backend (file_service C N H F M ttl ps)) (sv_hashes (file_service C N H F M ttl ps))
      (fs_stored F) (fs_ok F) (matches H) (\<lambda>f k. {}) (\<lambda>f. {}) (\<lambda>c. False)"
    unfolding file_service_simps by (rule fs.multipart_contract_axioms)
qed simp_all

lemma hashes_S: "sv_hashes (file_service C N H F M ttl ps) = H"
  by (simp add: file_service_def)

lemmas system_folds = system_inv_def [symmetric] system_evolves_def [symmetric]

lemmas system_serve = bloby.w_serve [folded system_inv_def system_evolves_def]

subsection \<open>Transfers\<close>

text \<open>What the holder of a put capability may write.\<close>

definition put_granted :: "crypto \<Rightarrow> fconf \<Rightarrow> http_request \<Rightarrow> (string \<Rightarrow> content \<Rightarrow> bool) \<Rightarrow> bool" where
  "put_granted C F rq G \<longleftrightarrow>
     (\<forall>c. authentic C (fc_key F) (rq_cap rq) c \<longrightarrow> cl_op c = capability_put \<longrightarrow> G (cl_key c) (claimed_content c))"

lemma serve_key_same: "serve_key L F rq k o' s = (r, s') \<Longrightarrow> same_files s s'"
  by (auto simp: serve_key_def Let_def split: sum.splits prod.splits if_splits dest: open_file_same)

lemma transfer_get_same: "transfer_get C L F rq s = (r, s') \<Longrightarrow> same_files s s'"
  by (auto simp: transfer_get_def split: sum.splits dest: serve_key_same)

lemma transfer_effect:
  assumes ok: "fs_ok F s" and run: "transfer_http C H L F rq s = (r, s')"
    and G: "put_granted C F rq G" "\<And>k c. G k c \<Longrightarrow> object_key k"
  shows "fs_ok F s' \<and> (fs_stored F s' = fs_stored F s \<or>
    (\<exists>k c b. G k c \<and> matches H c b \<and> fs_stored F s' = (fs_stored F s)(k \<mapsto> b)))"
proof -
  have get: ?thesis if "same_files s s'"
    using same_files_law [OF ok that] by blast
  show ?thesis
  proof (cases "rq_method rq = ''PUT''")
    case False
    with run get show ?thesis
      by (auto simp: transfer_http_def split: if_splits dest: transfer_get_same)
  next
    case True
    with run have put: "transfer_put C H F rq s = (r, s')" by (simp add: transfer_http_def)
    show ?thesis
    proof (cases "transfer_verify C F rq capability_put (fs_now s)")
      case (Inl st)
      with put get show ?thesis by (simp add: transfer_put_def)
    next
      case (Inr c)
      obtain r0 s0 where p: "file_put H F (cl_key c) (rq_body rq) (claimed_content c) \<lparr>po_ctype = ''''\<rparr> s = (r0, s0)"
        by fastforce
      have s0: "s' = s0" using put Inr p by (auto simp: transfer_put_def split: sum.splits if_splits)
      have g: "G (cl_key c) (claimed_content c)"
        using G(1) transfer_verify_Inr(1,3) [OF Inr] by (simp add: put_granted_def)
      note law = file_put_law(1,2) [OF ok G(2) [OF g] p]
      with g show ?thesis unfolding s0 by blast
    qed
  qed
qed

text \<open>A request to the transfer endpoint redeems a grant or none.\<close>

lemma transfer_redeemed:
  assumes I: "system_inv H F G h (d, f)"
    and put: "put_granted C F rq (granted G)" and run: "transfer_http C H L F rq f = (r, f')"
  shows "system_inv H F G h (d, f') \<and> system_evolves H F h (d, f) h (d, f')"
proof -
  have ok: "fs_ok F f" and G: "promised G h" using I by (simp_all add: system_inv_def)
  have "fs_ok F f' \<and> (fs_stored F f' = fs_stored F f \<or> (\<exists>k c b. granted G k c \<and> matches H c b
      \<and> fs_stored F f' = (fs_stored F f)(k \<mapsto> b)))"
    by (rule transfer_effect [OF ok run put]) (use declared_granted [OF G] in \<open>auto simp: declared_def\<close>)
  then have "bloby.redeemed F G H f f'" unfolding bloby.redeemed_def uploads_step_def by simp
  from bloby.redeemed_within [unfolded hashes_S, OF I [unfolded system_inv_def] this] show ?thesis
    by (simp add: system_inv_def system_evolves_def)
qed

subsection \<open>Reachable states\<close>

text \<open>Time passes, calls fail, consumers attach and detach objects, temporary names are drawn.\<close>

definition db_environment :: "db \<Rightarrow> db \<Rightarrow> bool" where
  "db_environment d d' \<longleftrightarrow> (\<exists>t fks fls. d' = d\<lparr>db_now := t, db_fks := fks, db_faults := fls\<rparr>)"

definition fs_environment :: "fstate \<Rightarrow> fstate \<Rightarrow> bool" where
  "fs_environment f f' \<longleftrightarrow>
     (\<exists>t n sz fls. f' = f\<lparr>fs_now := t, fs_rand := n, fs_dir_size := sz, fs_faults := fls\<rparr>)"

text \<open>
  A put capability can be redeemed only if it was handed out: without the key nobody makes an
  authentication code. Requests run with any environment that stays within the rely.
\<close>

inductive reached ::
  "crypto \<Rightarrow> netlib \<Rightarrow> hashes \<Rightarrow> httplib \<Rightarrow> fconf \<Rightarrow> mime \<Rightarrow> int \<Rightarrow> string list \<Rightarrow>
     db \<Rightarrow> fstate \<Rightarrow> (string \<times> content) set \<Rightarrow> bool"
  for C N H L F M ttl ps where
  start: "db_ok d \<Longrightarrow> db_rows d = [] \<Longrightarrow> fs_ok F f \<Longrightarrow> fs_stored F f = Map.empty \<Longrightarrow>
    reached C N H L F M ttl ps d f {}"
| request: "reached C N H L F M ttl ps d f G \<Longrightarrow> admissible rq \<Longrightarrow>
    list_all (stays (system_inv H F G) (system_evolves H F)) env \<Longrightarrow>
    run_state (serve (file_service C N H F M ttl ps) rq) \<lparr>w_db = d, w_be = f, w_env = env\<rparr> = (G', w') \<Longrightarrow>
    reached C N H L F M ttl ps (w_db w') (w_be w') (G \<union> G')"
| transfer: "reached C N H L F M ttl ps d f G \<Longrightarrow> put_granted C F rq (granted G) \<Longrightarrow>
    transfer_http C H L F rq f = (resp, f') \<Longrightarrow> reached C N H L F M ttl ps d f' G"
| environment: "reached C N H L F M ttl ps d f G \<Longrightarrow> db_environment d d' \<Longrightarrow> fs_environment f f' \<Longrightarrow>
    reached C N H L F M ttl ps d' f' G"

inductive_cases reachedE: "reached C N H L F M ttl ps d f G"

subsection \<open>The invariant of reachable states\<close>

lemma system_evolves_le: "system_evolves H F h s h' s' \<Longrightarrow> history_le h h'"
  by (cases s; cases s') (simp add: system_evolves_def)

text \<open>The environment changes neither the rows nor the stored bytes.\<close>

lemma environment_inv:
  assumes "system_inv H F G h (d, f)" "db_environment d d'" "fs_environment f f'"
  shows "system_inv H F G h (d', f')"
proof -
  have d': "db_ok d' = db_ok d" "db_view d' = db_view d" "db_next d' = db_next d"
    using assms(2) by (auto simp: db_environment_def db_ok_def db_view_def)
  have f': "fs_ok F f' = fs_ok F f" "fs_stored F f' = fs_stored F f"
    using assms(3) by (auto simp: fs_environment_def fs_ok_def fs_stored_def fun_eq_iff)
  from assms(1) show ?thesis by (simp add: system_inv_def has_fit_def d' f')
qed

lemma environment_evolves:
  assumes "system_inv H F G h (d, f)" "db_environment d d'" "fs_environment f f'"
  shows "system_evolves H F h (d, f) h (d', f')"
proof -
  have same: "db_view d' = db_view d" "fs_stored F f' = fs_stored F f"
    using assms(2,3) by (auto simp: db_environment_def db_view_def fs_environment_def fs_stored_def fun_eq_iff)
  have "system_evolves H F h (d, f) h (d, f)"
    unfolding system_evolves_def by (rule bloby.evo_refl)
  then show ?thesis by (simp add: system_evolves_def same row_step_def closed_stay_def uploads_step_def has_fit_def)
qed

lemma reached_inv:
  assumes "reached C N H L F M ttl ps d f G"
  shows "\<exists>h. system_inv H F G h (d, f)"
  using assms
proof (induction rule: reached.induct)
  case (start d f)
  then have "db_view d = Map.empty" by (simp add: db_view_def fun_eq_iff)
  with start show ?case by (intro exI [of _ Map.empty]) (simp add: system_inv_def)
next
  case (request d f G rq env G' w')
  then obtain h where h: "system_inv H F G h (d, f)" by blast
  let ?w = "\<lparr>w_db = d, w_be = f, w_env = env\<rparr>"
  have g: "good (system_inv H F G) (system_evolves H F) h ?w" using h request.hyps by (simp add: good_def)
  obtain h' where h': "good (system_inv H F G) (system_evolves H F) h' w'" "promised G' h'"
    by (rule withinD [OF system_serve [OF request.hyps(2)] g TrueI request.hyps(4)])
  then have "system_inv H F (G \<union> G') h' (w_db w', w_be w')"
    by (simp add: good_def stores_def system_inv_def)
  then show ?case by blast
next
  case (transfer d f G rq resp f')
  then show ?case using transfer_redeemed by blast
next
  case (environment d f G d' f')
  then show ?case using environment_inv by blast
qed

subsection \<open>What may happen between the calls of a request\<close>

text \<open>
  Between two calls of a request, other requests run, signed uploads arrive, time passes and calls
  start to fail. A step is one of these; the uploads are those that redeem a grant of \<open>G\<close>, also
  after the row of the object is gone.
\<close>

datatype step =
    Served request
  | Transferred http_request
  | Passed "db \<Rightarrow> db" "fstate \<Rightarrow> fstate"

fun step_of ::
  "crypto \<Rightarrow> netlib \<Rightarrow> hashes \<Rightarrow> httplib \<Rightarrow> fconf \<Rightarrow> mime \<Rightarrow> int \<Rightarrow> string list \<Rightarrow> step \<Rightarrow>
     db \<times> fstate \<Rightarrow> db \<times> fstate" where
  "step_of C N H L F M ttl ps (Served rq) s = request_step (file_service C N H F M ttl ps) rq s"
| "step_of C N H L F M ttl ps (Transferred rq) s = (fst s, snd (transfer_http C H L F rq (snd s)))"
| "step_of C N H L F M ttl ps (Passed u v) s = (u (fst s), v (snd s))"

fun tolerated :: "crypto \<Rightarrow> fconf \<Rightarrow> (string \<times> content) set \<Rightarrow> step \<Rightarrow> bool" where
  "tolerated C F G (Served rq) = admissible rq"
| "tolerated C F G (Transferred rq) = put_granted C F rq (granted G)"
| "tolerated C F G (Passed u v) = ((\<forall>d. db_environment d (u d)) \<and> (\<forall>f. fs_environment f (v f)))"

lemma step_stays:
  assumes "tolerated C F G e"
  shows "stays (system_inv H F G) (system_evolves H F) (step_of C N H L F M ttl ps e)"
proof (cases e)
  case (Served rq)
  with assms have "admissible rq" by simp
  from bloby.request_stays [folded system_inv_def system_evolves_def, OF this] show ?thesis
    unfolding Served by (simp add: stays_def)
next
  case (Transferred rq)
  with assms have p: "put_granted C F rq (granted G)" by simp
  show ?thesis unfolding stays_def
  proof (intro allI impI)
    fix h and s :: "db \<times> fstate"
    assume "system_inv H F G h s"
    then have I: "system_inv H F G h (fst s, snd s)" by simp
    obtain r f' where run: "transfer_http C H L F rq (snd s) = (r, f')" by fastforce
    from transfer_redeemed [OF I p run]
    show "\<exists>h'. system_inv H F G h' (step_of C N H L F M ttl ps e s)
        \<and> system_evolves H F h s h' (step_of C N H L F M ttl ps e s)"
      by (auto simp: Transferred run)
  qed
next
  case (Passed u v)
  show ?thesis unfolding stays_def
  proof (intro allI impI)
    fix h and s :: "db \<times> fstate"
    assume "system_inv H F G h s"
    then have I: "system_inv H F G h (fst s, snd s)" by simp
    have "db_environment (fst s) (u (fst s))" "fs_environment (snd s) (v (snd s))"
      using assms by (simp_all add: Passed)
    note env = this
    from environment_inv [OF I env] environment_evolves [OF I env]
    show "\<exists>h'. system_inv H F G h' (step_of C N H L F M ttl ps e s)
        \<and> system_evolves H F h s h' (step_of C N H L F M ttl ps e s)"
      by (auto simp: Passed)
  qed
qed

lemma steps_stay:
  assumes "list_all (tolerated C F G) es"
  shows "list_all (stays (system_inv H F G) (system_evolves H F)) (map (step_of C N H L F M ttl ps) es)"
  using assms step_stays by (auto simp: list_all_iff)

end
