(* ===== verification/Demo.thy ===== *)
theory Demo
  imports Lifecycle
begin

text \<open>
  A concrete system, on which the hypotheses of the properties are met: toy checksums, an
  authentication code of one value, a codec of claims, an empty database and an empty
  directory, and what one \<open>Write\<close> leaves in them.
\<close>

subsection \<open>The parameters\<close>

definition demo_hashes :: hashes where
  "demo_hashes = \<lparr>h_sha256 = (\<lambda>s. replicate 31 (CHR 0x00) @ [char_of (length s)]),
     h_crc64 = (\<lambda>s. replicate 8 (CHR 0x00))\<rparr>"

definition demo_marshal :: "claims \<Rightarrow> string" where
  "demo_marshal c = join_with '','' [hex_encode (cl_op c), hex_encode (cl_key c), show_int (cl_exp c),
     hex_encode (cl_ctype c), show_int (cl_size c), hex_encode (cl_sha256 c)]"

definition demo_unmarshal :: "string \<Rightarrow> claims option" where
  "demo_unmarshal s =
     (case split_on (CHR '','') s of
        [a, b, c, d, e, f] \<Rightarrow>
          (case (hex_decode a, hex_decode b, parse_int c, hex_decode d, parse_int e, hex_decode f) of
             (Some a', Some b', Some c', Some d', Some e', Some f') \<Rightarrow>
               Some \<lparr>cl_op = a', cl_key = b', cl_exp = c', cl_ctype = d', cl_size = e', cl_sha256 = f'\<rparr>
           | _ \<Rightarrow> None)
      | _ \<Rightarrow> None)"

definition demo_crypto :: crypto where
  "demo_crypto = \<lparr>cr_hmac = (\<lambda>k m. ''mac''), cr_marshal = demo_marshal, cr_unmarshal = demo_unmarshal\<rparr>"

definition demo_net :: netlib where
  "demo_net = \<lparr>nl_scheme_host = (\<lambda>u. Some (''http'', ''h'')),
     nl_set_query = (\<lambda>u q v. Some (u @ ''?'' @ q @ ''='' @ v))\<rparr>"

definition demo_mime :: mime where
  "demo_mime = \<lparr>mi_parse = (\<lambda>s. if s = '''' then None else Some (s, [])), mi_format = (\<lambda>t ps. t),
     mi_detect = (\<lambda>s. ''text/plain'')\<rparr>"

definition demo_http :: httplib where
  "demo_http hs fn r rq = \<lparr>rs_status = 200, rs_header = hs, rs_body = rd_bytes r\<rparr>"

definition demo_conf :: fconf where
  "demo_conf = \<lparr>fc_root = ''/d'', fc_base_url = ''http://h'', fc_origin = ''http://h'',
     fc_key = ''k'', fc_ttl = 60000000000\<rparr>"

definition demo_db :: db where
  "demo_db = \<lparr>db_rows = [], db_next = 1, db_now = 7, db_fks = [], db_faults = []\<rparr>"

definition demo_fs :: fstate where
  "demo_fs = \<lparr>fs_nodes = [], fs_now = 7, fs_rand = 0, fs_dir_size = 4096, fs_faults = []\<rparr>"

definition demo_service :: "(db, fstate) service" where
  "demo_service = file_service demo_crypto demo_net demo_hashes demo_conf demo_mime 60 []"

definition demo_world :: "(db, fstate) world" where
  "demo_world = \<lparr>w_db = demo_db, w_be = demo_fs, w_env = []\<rparr>"

lemma demo_hashes_ok: "hashes_ok demo_hashes"
  by (simp add: hashes_ok_def demo_hashes_def)

lemma hex_no_comma: "CHR '','' \<notin> set (hex_encode s)"
  using hex_encode_lower [of s] by (auto simp: list_all_iff lower_hex_def Let_def)

lemma demo_round_trip: "claims_ok c \<Longrightarrow> demo_unmarshal (demo_marshal c) = Some c"
  unfolding demo_unmarshal_def demo_marshal_def claims_ok_def
  by (subst split_join) (auto simp: hex_no_comma not_in_show_int hex_decode_encode parse_show_int)

lemma demo_codec_ok: "codec_ok demo_crypto"
  by (auto simp: codec_ok_def demo_crypto_def demo_round_trip) (simp add: demo_marshal_def)

subsection \<open>A system in which one object was written\<close>

definition demo_sha :: string where
  "demo_sha = replicate 63 (CHR ''0'') @ ''1''"

definition demo_content :: content where
  "demo_content = \<lparr>c_size = 1, c_sha256 = demo_sha, c_crc64 = replicate 16 (CHR ''0'')\<rparr>"

definition demo_row :: row where
  "demo_row = \<lparr>ob_id = 1, ob_prefix = ''pkg'', ob_filename = ''f.txt'', ob_ctype = ''text/plain'',
     ob_size = Some 1, ob_sha256 = Some demo_sha, ob_crc64 = Some (replicate 16 (CHR ''0'')),
     ob_available_at = Some 7, ob_upload = None, ob_storage_key = Some ''_objects/1/f.txt'',
     ob_created = 7, ob_updated = 7, ro_expired = None\<rparr>"

definition demo_db1 :: db where
  "demo_db1 = \<lparr>db_rows = [demo_row], db_next = 2, db_now = 7, db_fks = [], db_faults = []\<rparr>"

definition demo_fs1 :: fstate where
  "demo_fs1 = \<lparr>fs_nodes = [(''/d/_objects/1/f.txt'', File ''x'' 7), (''/d/_objects/1'', Dir),
     (''/d/_objects'', Dir), (''/d'', Dir)], fs_now = 7, fs_rand = 1, fs_dir_size = 4096, fs_faults = []\<rparr>"

definition demo_write :: request where
  "demo_write = Write ''pkg'' ''f.txt'' ''text/plain'' ''x''"

definition demo_run :: "(string \<times> content) set \<times> db \<times> fstate" where
  "demo_run = (case run_state (serve demo_service demo_write) demo_world of (G, w) \<Rightarrow> (G, w_db w, w_be w))"

lemma demo_written: "demo_run = ({}, demo_db1, demo_fs1)"
  by code_simp

lemma demo_admissible: "admissible demo_write"
  by code_simp

lemma demo_db_ok: "db_ok demo_db" and demo_db1_ok: "db_ok demo_db1"
  by (simp_all add: db_ok_def demo_db_def demo_db1_def demo_row_def storage_keys_def) code_simp

lemma demo_root_ok: "root_ok demo_conf"
  unfolding root_ok_def clean_abs_def
  by (rule exI [of _ "[''d'']"]) (simp add: norm_comps_def norm_comp_def abs_path_def demo_conf_def)

lemma demo_fs_ok: "fs_ok demo_conf demo_fs"
  by (simp add: fs_ok_def demo_root_ok demo_fs_def)

lemma demo_fs_empty: "fs_stored demo_conf demo_fs = Map.empty"
  by (simp add: fs_stored_def demo_fs_def file_bytes_def fun_eq_iff)

abbreviation demo_reached :: "db \<Rightarrow> fstate \<Rightarrow> bool" where
  "demo_reached d f \<equiv>
     reached demo_crypto demo_net demo_hashes demo_http demo_conf demo_mime 60 [] d f {}"

lemma demo_start: "demo_reached demo_db demo_fs"
  by (rule reached.start) (simp_all add: demo_db_ok demo_fs_ok demo_fs_empty, simp add: demo_db_def)

lemma demo_later: "demo_reached demo_db1 demo_fs1"
proof -
  obtain w where w: "run_state (serve demo_service demo_write) demo_world = ({}, w)"
    "w_db w = demo_db1" "w_be w = demo_fs1"
    using demo_written by (auto simp: demo_run_def split: prod.splits)
  from reached.request [OF demo_start demo_admissible, of "[]" "{}" w] w show ?thesis
    unfolding demo_service_def demo_world_def by simp
qed

lemma demo_view: "db_view demo_db1 1 = Some demo_row"
  by (simp add: db_view_def demo_db1_def) (simp add: demo_row_def)

lemma demo_row_available: "available demo_row"
  by (simp add: available_def demo_row_def)

definition demo_world1 :: "(db, fstate) world" where
  "demo_world1 = \<lparr>w_db = demo_db1, w_be = demo_fs1, w_env = []\<rparr>"

text \<open>A second finalisation, and what it leaves.\<close>

definition demo_again :: "db \<times> fstate" where
  "demo_again = (case run_state (serve demo_service (Finalize 1 ''pkg'')) demo_world1 of (G, w) \<Rightarrow> (w_db w, w_be w))"

lemma demo_finalized: "demo_again = (demo_db1, demo_fs1)"
  by code_simp

definition demo_obj :: obj where
  "demo_obj = \<lparr>ob_id = 1, ob_prefix = ''pkg'', ob_filename = ''f.txt'', ob_ctype = ''text/plain'',
     ob_size = Some 1, ob_sha256 = Some demo_sha, ob_crc64 = Some (replicate 16 (CHR ''0'')),
     ob_available_at = Some 7, ob_upload = None, ob_storage_key = Some ''_objects/1/f.txt'',
     ob_created = 7, ob_updated = 7\<rparr>"

lemma demo_write_result:
  "fst (run_state (write_object demo_service ''pkg'' ''f.txt'' ''text/plain'' ''x'') demo_world) = Inr demo_obj"
  by code_simp

subsection \<open>A system in which one upload was begun\<close>

definition demo_claims :: claims where
  "demo_claims = put_claims demo_conf ''_objects/1/f.txt'' demo_content 0 7"

lemma demo_claims_ok: "claims_ok demo_claims"
  by (simp add: claims_ok_def) code_simp

definition demo_redeem :: http_request where
  "demo_redeem = \<lparr>rq_method = ''PUT'', rq_path = ''/storage/_objects/1/f.txt'',
     rq_cap = sign_capability demo_crypto (fc_key demo_conf) demo_claims, rq_body = bytes_reader ''x''\<rparr>"

definition demo_pending :: db where
  "demo_pending = \<lparr>db_rows = [demo_row\<lparr>ob_ctype := '''', ob_available_at := None, ob_storage_key := None\<rparr>],
     db_next = 2, db_now = 7, db_fks = [], db_faults = []\<rparr>"

definition demo_begin :: "(string \<times> content) set \<times> db \<times> fstate" where
  "demo_begin = (case run_state (serve demo_service (Begin ''pkg'' ''f.txt'' demo_content)) demo_world of
     (G, w) \<Rightarrow> (G, w_db w, w_be w))"

lemma demo_began: "demo_begin = ({(''_objects/1/f.txt'', demo_content)}, demo_pending, demo_fs)"
  by code_simp

lemma demo_pending_reached:
  "reached demo_crypto demo_net demo_hashes demo_http demo_conf demo_mime 60 [] demo_pending demo_fs
     {(''_objects/1/f.txt'', demo_content)}"
proof -
  obtain w where w: "run_state (serve demo_service (Begin ''pkg'' ''f.txt'' demo_content)) demo_world
      = ({(''_objects/1/f.txt'', demo_content)}, w)" "w_db w = demo_pending" "w_be w = demo_fs"
    using demo_began by (auto simp: demo_begin_def split: prod.splits)
  have "admissible (Begin ''pkg'' ''f.txt'' demo_content)" by code_simp
  from reached.request [OF demo_start this, of "[]", OF _ w(1) [unfolded demo_service_def demo_world_def]] w(2,3)
  show ?thesis by simp
qed

text \<open>The bytes of that upload arrive between the calls of its finalisation, a second late.\<close>

lemma demo_redeem_granted:
  "put_granted demo_crypto demo_conf demo_redeem (granted {(''_objects/1/f.txt'', demo_content)})"
  unfolding put_granted_def
proof (intro allI impI)
  fix c
  assume "authentic demo_crypto (fc_key demo_conf) (rq_cap demo_redeem) c"
  then have "c = demo_claims"
    using demo_codec_ok demo_claims_ok
    by (auto simp: authentic_def demo_redeem_def cut_signed b64url_decode_encode codec_ok_def)
  then show "granted {(''_objects/1/f.txt'', demo_content)} (cl_key c) (claimed_content c)"
    by (simp add: granted_def claimed_content_def demo_claims_def put_claims_def)
qed

definition demo_second_later :: step where
  "demo_second_later = Passed (\<lambda>d. d\<lparr>db_now := 1000000007\<rparr>) (\<lambda>f. f\<lparr>fs_now := 1000000007\<rparr>)"

definition demo_steps :: "step list" where
  "demo_steps = [demo_second_later, Transferred demo_redeem, Served (GetByID 1)]"

lemma demo_steps_tolerated:
  "list_all (tolerated demo_crypto demo_conf {(''_objects/1/f.txt'', demo_content)}) demo_steps"
proof -
  have "db_environment d (d\<lparr>db_now := t\<rparr>)" for d t
    unfolding db_environment_def by (intro exI [of _ t] exI [of _ "db_fks d"] exI [of _ "db_faults d"]) simp
  moreover have "fs_environment f (f\<lparr>fs_now := t\<rparr>)" for f t
    unfolding fs_environment_def
    by (intro exI [of _ t] exI [of _ "fs_rand f"] exI [of _ "fs_dir_size f"] exI [of _ "fs_faults f"]) simp
  ultimately show ?thesis
    by (simp add: demo_steps_def demo_second_later_def demo_redeem_granted)
qed

text \<open>The arrival of the bytes is computed once, from the store as it is a second later.\<close>

definition demo_late_fs :: fstate where
  "demo_late_fs = demo_fs1\<lparr>fs_nodes := [(''/d/_objects/1/f.txt'', File ''x'' 1000000007), (''/d/_objects/1'', Dir),
     (''/d/_objects'', Dir), (''/d'', Dir)], fs_now := 1000000007\<rparr>"

definition demo_arrival :: "db \<times> fstate \<Rightarrow> db \<times> fstate" where
  "demo_arrival = step_of demo_crypto demo_net demo_hashes demo_http demo_conf demo_mime 60 [] (Transferred demo_redeem)"

lemma demo_verified:
  assumes "t < 60000000000"
  shows "verify_capability demo_crypto ''k'' (sign_capability demo_crypto ''k'' demo_claims) ''put'' t = Inr demo_claims"
proof -
  have "cl_exp demo_claims = 60" "cl_op demo_claims = ''put''" by code_simp+
  moreover have "unix_seconds t < 60" using assms by (simp add: unix_seconds_def)
  ultimately show ?thesis by (simp add: verify_signed [OF demo_codec_ok demo_claims_ok])
qed

lemma demo_arrived:
  "snd (transfer_http demo_crypto demo_hashes demo_http demo_conf demo_redeem (demo_fs\<lparr>fs_now := 1000000007\<rparr>)) = demo_late_fs"
proof -
  have ver: "transfer_verify demo_crypto demo_conf demo_redeem capability_put 1000000007 = Inr demo_claims"
  proof -
    have "trim_prefix ''/storage/'' (rq_path demo_redeem) = cl_key demo_claims" "cl_key demo_claims \<noteq> ''''"
      "0 \<le> cl_size demo_claims" "sha256_pattern (cl_sha256 demo_claims)" "fc_key demo_conf = ''k''"
      "capability_put = ''put''" by code_simp+
    with demo_verified [of 1000000007] show ?thesis
      by (simp add: transfer_verify_def Let_def) (simp add: demo_redeem_def)
  qed
  have put: "snd (file_put demo_hashes demo_conf (cl_key demo_claims) (rq_body demo_redeem) (claimed_content demo_claims)
      \<lparr>po_ctype = ''''\<rparr> (demo_fs\<lparr>fs_now := 1000000007\<rparr>)) = demo_late_fs" by code_simp
  have "rq_method demo_redeem = ''PUT''" by (simp add: demo_redeem_def)
  then show ?thesis using put
    by (auto simp: transfer_http_def transfer_put_def ver split: prod.split sum.split)
qed

lemma demo_arrival_code [code]:
  "demo_arrival s = (if snd s = demo_fs\<lparr>fs_now := 1000000007\<rparr> then (fst s, demo_late_fs)
     else step_of demo_crypto demo_net demo_hashes demo_http demo_conf demo_mime 60 [] (Transferred demo_redeem) s)"
  by (simp add: demo_arrival_def demo_arrived)

definition demo_env :: "(db \<times> fstate \<Rightarrow> db \<times> fstate) list" where
  "demo_env = [step_of demo_crypto demo_net demo_hashes demo_http demo_conf demo_mime 60 [] demo_second_later,
     demo_arrival, step_of demo_crypto demo_net demo_hashes demo_http demo_conf demo_mime 60 [] (Served (GetByID 1))]"

lemma demo_env_steps:
  "demo_env = map (step_of demo_crypto demo_net demo_hashes demo_http demo_conf demo_mime 60 []) demo_steps"
  by (simp add: demo_env_def demo_steps_def demo_arrival_def)

definition demo_late_obj :: obj where
  "demo_late_obj = demo_obj\<lparr>ob_available_at := Some 1000000007, ob_updated := 1000000007\<rparr>"

end
