(* ===== verification/Guarantees.thy ===== *)
theory Guarantees
  imports Demo
begin

text \<open>
  What the service guarantees on its two stores, at every reachable state of the system and for
  every request, whatever the environment does between the calls of the request within the rely.
\<close>

subsection \<open>Requests from reachable states\<close>

text \<open>What \<open>within\<close> says of an operation that starts at a reachable state.\<close>

lemma reached_run:
  assumes w: "system_within H F G (\<lambda>s h. True) m Q"
    and r: "reached C N H L F M ttl ps d f G"
    and env: "list_all (stays (system_inv H F G) (system_evolves H F)) env"
    and run: "run_state m \<lparr>w_db = d, w_be = f, w_env = env\<rparr> = (x, w')"
  obtains h h' where "system_inv H F G h (d, f)" "good (system_inv H F G) (system_evolves H F) h' w'"
    "system_evolves H F h (d, f) h' (stores w')" "Q x (stores w') h'"
proof -
  obtain h where h: "system_inv H F G h (d, f)" using reached_inv [OF r] by blast
  let ?w = "\<lparr>w_db = d, w_be = f, w_env = env\<rparr>"
  have g: "good (system_inv H F G) (system_evolves H F) h ?w" using h env by (simp add: good_def)
  obtain h' where h': "good (system_inv H F G) (system_evolves H F) h' w'"
    "system_evolves H F h (stores ?w) h' (stores w')" "Q x (stores w') h'"
    by (rule withinD [OF w g TrueI run])
  with that h show ?thesis by simp
qed

lemma stored_key_available: "obj_ok r \<Longrightarrow> available r \<Longrightarrow> obj_stored_key r = obj_key r"
  by (auto simp: obj_ok_def obj_stored_key_def obj_key_def split: option.split)

text \<open>
  C1: At every reachable state, an object that is available has its bytes in the file store, and
  they are the bytes that its declaration names: their number is the declared size and their
  SHA-256 is the declared one. A published object never dangles and never serves other bytes.
\<close>

theorem available_bytes:
  assumes "reached C N H L F M ttl ps d f G" "db_view d i = Some r" "available r"
  shows "\<exists>c b. obj_content r = Inr c \<and> fs_stored F f (obj_stored_key r) = Some b \<and> matches H c b"
proof -
  obtain h where h: "system_inv H F G h (d, f)" using reached_inv [OF assms(1)] by blast
  then have "obj_ok r" "has_fit (matches H) (fs_stored F) f r"
    using assms(2,3) unfolding system_inv_def store_inv.simps by blast+
  then show ?thesis using stored_key_available [OF _ assms(3)] by (auto simp: has_fit_def)
qed

theorem available_bytes_witness:
  "\<exists>c b. obj_content demo_row = Inr c \<and> fs_stored demo_conf demo_fs1 (obj_stored_key demo_row) = Some b
     \<and> matches demo_hashes c b"
proof (rule available_bytes [OF demo_later])
  show "db_view demo_db1 1 = Some demo_row"
    by (simp add: db_view_def demo_db1_def) (simp add: demo_row_def)
  show "available demo_row" by (simp add: available_def demo_row_def)
qed

text \<open>
  C2: Publication is final and expiry is a fence. Across any request, interleaved with any other
  requests, a row keeps its prefix, file name and declared content; a row that was published is
  unchanged as long as it exists; and a row that cleanup has claimed stays claimed, so that no
  request publishes it any more.
\<close>

theorem published_once:
  assumes "reached C N H L F M ttl ps d f G" "admissible rq"
    and "list_all (stays (system_inv H F G) (system_evolves H F)) env"
    and "run_state (serve (file_service C N H F M ttl ps) rq) \<lparr>w_db = d, w_be = f, w_env = env\<rparr> = (g, w')"
    and "db_view d i = Some r" "db_view (w_db w') i = Some r'"
  shows "ob_prefix r' = ob_prefix r \<and> ob_filename r' = ob_filename r \<and> obj_content r' = obj_content r
    \<and> (available r \<longrightarrow> r' = r) \<and> (\<not> live r \<longrightarrow> \<not> live r' \<and> \<not> available r')"
proof -
  obtain h h' where h': "good (system_inv H F G) (system_evolves H F) h' w'"
    "system_evolves H F h (d, f) h' (stores w')"
    by (rule reached_run [OF within_conseq [OF system_serve [OF assms(2)]] assms(1,3,4)]) auto
  then have "row_step (matches H) (fs_stored F) f (w_be w') r r'"
    using assms(5,6) by (simp add: system_evolves_def stores_def)
  moreover have "available r' \<Longrightarrow> live r'"
    using h'(1) assms(6) by (auto simp: good_def stores_def system_inv_def)
  ultimately show ?thesis by (auto simp: row_step_def)
qed

theorem published_once_witness:
  "\<exists>g w'. run_state (serve demo_service (Finalize 1 ''pkg'')) demo_world1 = (g, w')
     \<and> available demo_row \<and> db_view (w_db w') 1 = Some demo_row"
proof -
  obtain g w' where w: "run_state (serve demo_service (Finalize 1 ''pkg'')) demo_world1 = (g, w')" by fastforce
  with demo_finalized obtain r' where v: "db_view (w_db w') 1 = Some r'"
    by (auto simp: demo_again_def demo_view)
  from published_once [OF demo_later _ _ _ demo_view v, of "Finalize 1 ''pkg''" "[]" g] w demo_row_available
  have "r' = demo_row" by (simp add: demo_service_def demo_world1_def)
  with w v demo_row_available show ?thesis by blast
qed

text \<open>
  C3: \<open>Write\<close> publishes what it was given. When it returns an object, whatever ran between its
  calls, the object is available under the key of its ID and file name, and its declared size,
  SHA-256 and CRC64NVME are those of the body.
\<close>

theorem write_publishes:
  assumes "reached C N H L F M ttl ps d f G" "\<not> temp_name (normalize_upload_filename fn)"
    and "list_all (stays (system_inv H F G) (system_evolves H F)) env"
    and "run_state (write_object (file_service C N H F M ttl ps) p fn ct body)
           \<lparr>w_db = d, w_be = f, w_env = env\<rparr> = (Inr b, w')"
  shows "available b \<and> obj_stored_key b = key_for (ob_id b) (ob_filename b)
    \<and> digest H (bytes_reader body) = obj_content b"
proof -
  obtain c where c: "digest H (bytes_reader body) = Inr c" by (auto simp: digest_def)
  have w: "system_within H F G (\<lambda>s h. True)
      (write_object (file_service C N H F M ttl ps) p fn ct body) (published (matches H) (fs_stored F) (\<lambda>f k. {}) c)"
    using bloby.w_write_object [unfolded hashes_S, folded system_inv_def system_evolves_def, OF assms(2) c] .
  obtain h' where "published (matches H) (fs_stored F) (\<lambda>f k. {}) c (Inr b) (stores w') h'" by (rule reached_run [OF w assms(1,3,4)])
  then have "obj_ok b" "available b" "obj_content b = Inr c" by (simp_all add: published_def knows_def)
  then show ?thesis using c stored_key_available [of b] by (simp add: obj_ok_def)
qed

theorem write_publishes_witness:
  "\<exists>b w'. run_state (write_object demo_service ''pkg'' ''f.txt'' ''text/plain'' ''x'') demo_world = (Inr b, w')
     \<and> available b \<and> obj_stored_key b = key_for (ob_id b) (ob_filename b)
     \<and> digest demo_hashes (bytes_reader ''x'') = obj_content b"
proof -
  obtain w' where w: "run_state (write_object demo_service ''pkg'' ''f.txt'' ''text/plain'' ''x'') demo_world
      = (Inr demo_obj, w')"
    using demo_write_result by (metis prod.collapse)
  from write_publishes [OF demo_start _ _ w [unfolded demo_service_def demo_world_def]] demo_admissible
  show ?thesis using w by (auto simp: demo_write_def)
qed

text \<open>
  C4: \<open>Finalize\<close> returns only published objects, and twice is as good as once: whatever ran
  between its calls, the object it returns is available, has declared content and is stored under
  the key of its ID and file name; while its row exists, the stored bytes match the declaration.
\<close>

theorem finalize_publishes:
  assumes "reached C N H L F M ttl ps d f G"
    and "list_all (stays (system_inv H F G) (system_evolves H F)) env"
    and "run_state (finalize (file_service C N H F M ttl ps) i p) \<lparr>w_db = d, w_be = f, w_env = env\<rparr> = (Inr b, w')"
  shows "available b \<and> obj_stored_key b = key_for (ob_id b) (ob_filename b)
    \<and> (\<exists>c. obj_content b = Inr c \<and>
         (\<forall>x. fs_stored F (w_be w') (obj_stored_key b) = Some x \<longrightarrow> matches H c x))"
proof -
  have w: "system_within H F G (\<lambda>s h. True)
      (finalize (file_service C N H F M ttl ps) i p) (finalized (matches H) (fs_stored F) (\<lambda>f k. {}))"
    using bloby.w_finalize [unfolded hashes_S, folded system_inv_def system_evolves_def] .
  obtain h' where "finalized (matches H) (fs_stored F) (\<lambda>f k. {}) (Inr b) (stores w') h'"
    and g: "good (system_inv H F G) (system_evolves H F) h' w'"
    by (rule reached_run [OF w assms])
  then have b: "obj_ok b" "recorded h' b" "available b" "settled (matches H) (fs_stored F) (\<lambda>f k. {}) b (stores w') h'"
    by (simp_all add: finalized_def knows_def)
  have k: "obj_stored_key b = obj_key b" by (rule stored_key_available [OF b(1,3)])
  have "system_inv H F G h' (stores w')" using g by (simp add: good_def)
  from settled_bytes [OF this [unfolded system_inv_def] b(1,4)] b(1,3) show ?thesis
    by (auto simp: obj_ok_def k stores_def)
qed

theorem finalize_publishes_witness:
  "\<exists>w'. run_state (finalize demo_service 1 ''pkg'') \<lparr>w_db = demo_pending, w_be = demo_fs, w_env = demo_env\<rparr>
       = (Inr demo_late_obj, w')
     \<and> available demo_late_obj \<and> obj_stored_key demo_late_obj = key_for (ob_id demo_late_obj) (ob_filename demo_late_obj)"
proof -
  let ?w = "\<lparr>w_db = demo_pending, w_be = demo_fs, w_env = demo_env\<rparr>"
  have "fst (run_state (finalize demo_service 1 ''pkg'') ?w) = Inr demo_late_obj" by code_simp
  then obtain w' where w: "run_state (finalize demo_service 1 ''pkg'') ?w = (Inr demo_late_obj, w')"
    by (metis prod.collapse)
  have env: "list_all (stays (system_inv demo_hashes demo_conf {(''_objects/1/f.txt'', demo_content)})
      (system_evolves demo_hashes demo_conf)) demo_env"
    unfolding demo_env_steps by (rule steps_stay [OF demo_steps_tolerated])
  from finalize_publishes [OF demo_pending_reached env w [unfolded demo_service_def]] show ?thesis
    using w by auto
qed

text \<open>
  C5: Reading back returns the declared bytes. Looking up an object and opening it, whatever ran
  in between, yields a reader over a prefix of bytes that match the object's declaration, and over
  all of them when the reader ends without an error; an object that was deleted meanwhile gives an
  error and never other bytes.
\<close>

theorem opened_bytes:
  assumes "reached C N H L F M ttl ps d f G"
    and "list_all (stays (system_inv H F G) (system_evolves H F)) env"
    and "run_state (read_back (file_service C N H F M ttl ps) i) \<lparr>w_db = d, w_be = f, w_env = env\<rparr> = (Inr (b, rd), w')"
  shows "\<exists>c x. obj_content b = Inr c \<and> matches H c x \<and> prefix (rd_bytes rd) x
    \<and> (rd_err rd = None \<longrightarrow> rd_bytes rd = x)"
proof -
  have "opened (matches H) (Inr (b, rd))"
    by (rule reached_run [OF bloby.w_read_back [folded system_inv_def system_evolves_def] assms]) simp
  then show ?thesis by (auto simp: opened_def reads_fit_def)
qed

theorem opened_bytes_witness:
  "\<exists>c x. obj_content demo_obj = Inr c \<and> matches demo_hashes c x \<and> ''x'' = x"
proof -
  have "fst (run_state (read_back demo_service 1) demo_world1) = Inr (demo_obj, bytes_reader ''x'')"
    by code_simp
  then obtain w' where w: "run_state (read_back demo_service 1) demo_world1 = (Inr (demo_obj, bytes_reader ''x''), w')"
    by (metis prod.collapse)
  from opened_bytes [OF demo_later _ w [unfolded demo_service_def demo_world1_def]] show ?thesis
    by (simp add: bytes_reader_def)
qed

text \<open>
  C6: The service is safe among its own requests. Other requests, signed uploads that redeem what was
  granted, the passing of time and failing calls, in any number and order, are steps that a request
  tolerates between its calls: what C1 to C5 suppose of the environment of a request holds when the
  environment is made of these.
\<close>

theorem requests_interleave:
  assumes "list_all (tolerated C F G) es"
  shows "list_all (stays (system_inv H F G) (system_evolves H F)) (map (step_of C N H L F M ttl ps) es)"
  by (rule steps_stay [OF assms])

theorem requests_interleave_witness:
  "list_all (stays (system_inv demo_hashes demo_conf {(''_objects/1/f.txt'', demo_content)})
      (system_evolves demo_hashes demo_conf)) demo_env
     \<and> (demo_env ! 1) (demo_pending, demo_fs\<lparr>fs_now := 1000000007\<rparr>) = (demo_pending, demo_late_fs)"
proof
  show "list_all (stays (system_inv demo_hashes demo_conf {(''_objects/1/f.txt'', demo_content)})
      (system_evolves demo_hashes demo_conf)) demo_env"
    unfolding demo_env_steps by (rule requests_interleave [OF demo_steps_tolerated])
  show "(demo_env ! 1) (demo_pending, demo_fs\<lparr>fs_now := 1000000007\<rparr>) = (demo_pending, demo_late_fs)"
    by (simp add: demo_env_def demo_arrival_def demo_arrived)
qed

end
