(* ===== verification/Laws.thy ===== *)
theory Laws
  imports Guarantees
begin

text \<open>
  What the parts guarantee on their own: transfer capabilities and the endpoint that redeems them,
  keys and file names, the file store, the PostgreSQL store, and the guards of the service.
\<close>

subsection \<open>Transfer capabilities\<close>

text \<open>
  C10: Signing and verifying are inverse. A signed token verifies to exactly the claims that were
  signed as long as it has not expired and is used for its own operation; afterwards it is
  reported as expired, and for another operation as invalid.
\<close>

theorem capability_round_trip:
  assumes "codec_ok C" "claims_ok c"
  shows "verify_capability C key (sign_capability C key c) op now =
    (if cl_exp c \<le> unix_seconds now then Inl (Sentinel ErrExpiredCapability)
     else if cl_op c \<noteq> op then Inl (Sentinel ErrInvalidCapability) else Inr c)"
  by (rule verify_signed [OF assms])

theorem capability_round_trip_witness:
  "verify_capability demo_crypto ''k'' (sign_capability demo_crypto ''k'' demo_claims) ''put'' 7 = Inr demo_claims
   \<and> verify_capability demo_crypto ''k'' (sign_capability demo_crypto ''k'' demo_claims) ''get'' 7
       = Inl (Sentinel ErrInvalidCapability)"
proof -
  have "\<not> cl_exp demo_claims \<le> unix_seconds 7" "cl_op demo_claims = ''put''"
    by (simp_all add: demo_claims_def put_claims_def capability_put_def unix_seconds_def file_expires_def
        ttl_or_default_def demo_conf_def)
  then show ?thesis by (simp add: capability_round_trip [OF demo_codec_ok demo_claims_ok])
qed

text \<open>
  C11: Nothing is accepted but the server's own tokens. A request that passes the checks of the
  transfer endpoint carries the server's authentication code over its claims, the claims have not
  expired, they are for the operation of the request and for the key of its path, and for an
  upload they name a size and a SHA-256; any other request is answered 401 or 410.
\<close>

theorem transfer_authorized:
  "case transfer_verify C F rq op now of
     Inl st \<Rightarrow> st \<in> {401, 410}
   | Inr c \<Rightarrow> authentic C (fc_key F) (rq_cap rq) c \<and> \<not> cl_exp c \<le> unix_seconds now \<and> cl_op c = op
       \<and> trim_prefix ''/storage/'' (rq_path rq) = cl_key c
       \<and> \<not> (op = capability_put \<and> (cl_size c < 0 \<or> \<not> sha256_pattern (cl_sha256 c)))"
proof (cases "transfer_verify C F rq op now")
  case (Inl st)
  then show ?thesis using transfer_verify_status [OF Inl] by auto
next
  case (Inr c)
  then show ?thesis using transfer_verify_Inr [OF Inr] by auto
qed

theorem transfer_authorized_witness:
  "transfer_verify demo_crypto demo_conf demo_redeem capability_put 7 = Inr demo_claims
   \<and> authentic demo_crypto ''k'' (rq_cap demo_redeem) demo_claims"
proof -
  have "cl_key demo_claims = ''_objects/1/f.txt''" "trim_prefix ''/storage/'' (rq_path demo_redeem) = ''_objects/1/f.txt''"
    "\<not> cl_size demo_claims < 0" "sha256_pattern (cl_sha256 demo_claims)"
    by (simp_all add: demo_redeem_def trim_prefix_def demo_claims_def put_claims_def) code_simp+
  then have v: "transfer_verify demo_crypto demo_conf demo_redeem capability_put 7 = Inr demo_claims"
    using demo_verified [of 7] by (simp add: transfer_verify_def demo_redeem_def demo_conf_def capability_put_def)
  with transfer_authorized [where C = demo_crypto and F = demo_conf and rq = demo_redeem and op = capability_put and now = 7] show ?thesis
    by (simp add: demo_conf_def)
qed

text \<open>
  C12: Without a put capability of the server the endpoint changes no file. A request whose token
  is not authentic for a put, or whose put token has expired, leaves every file and directory as it
  is, and if it is a PUT it is answered 401 or 410.
\<close>

theorem forged_transfer_harmless:
  assumes "\<And>c. authentic C (fc_key F) (rq_cap rq) c \<Longrightarrow> cl_op c = capability_put \<Longrightarrow>
      cl_exp c \<le> unix_seconds (fs_now s)"
    and "transfer_http C H L F rq s = (r, s')"
  shows "fs_nodes s' = fs_nodes s \<and> (rq_method rq = ''PUT'' \<longrightarrow> rs_status (fst r) \<in> {401, 410})"
proof (cases "rq_method rq = ''PUT''")
  case True
  obtain st where st: "transfer_verify C F rq capability_put (fs_now s) = Inl st"
    using transfer_verify_Inr(1-3) [of C F rq capability_put "fs_now s"] assms(1)
    by (cases "transfer_verify C F rq capability_put (fs_now s)") (auto simp: not_le [symmetric])
  with assms(2) True transfer_verify_status [OF st] show ?thesis
    by (auto simp: transfer_http_def transfer_put_def status_only_def)
next
  case False
  with assms(2) have "same_files s s'"
    by (auto simp: transfer_http_def split: if_splits dest: transfer_get_same)
  with False show ?thesis by (auto simp: same_files_def)
qed

definition demo_forged :: http_request where
  "demo_forged = \<lparr>rq_method = ''PUT'', rq_path = ''/storage/_objects/1/f.txt'', rq_cap = ''e30.bWFj'',
     rq_body = bytes_reader ''evil''\<rparr>"

theorem forged_transfer_harmless_witness:
  "fs_nodes (snd (transfer_http demo_crypto demo_hashes demo_http demo_conf demo_forged demo_fs1)) = fs_nodes demo_fs1"
proof -
  have "verify_capability demo_crypto ''k'' ''e30.bWFj'' ''put'' 7 = Inl (Sentinel ErrInvalidCapability)"
    by code_simp
  have n: "b64url_decode ''e30'' = Some ''{}''" "demo_unmarshal ''{}'' = None" "cut (CHR ''.'') ''e30.bWFj'' = (''e30'', ''bWFj'', True)"
    by code_simp+
  then have "\<not> authentic demo_crypto (fc_key demo_conf) (rq_cap demo_forged) c" for c
    by (simp add: authentic_def demo_forged_def demo_crypto_def)
  then have "fs_nodes s' = fs_nodes demo_fs1"
    if "transfer_http demo_crypto demo_hashes demo_http demo_conf demo_forged demo_fs1 = (r, s')" for r s'
    using forged_transfer_harmless [OF _ that] by blast
  then show ?thesis by (cases "transfer_http demo_crypto demo_hashes demo_http demo_conf demo_forged demo_fs1") simp
qed

text \<open>
  C13: What the service hands out can be redeemed. The token of a presigned upload, presented at the
  path of its key before it expires, passes the endpoint and yields the declared size and SHA-256.
\<close>

theorem presigned_put_redeems:
  assumes "codec_ok C" "claims_ok (put_claims F k c ttl t)" "k \<noteq> ''''" "0 \<le> c_size c" "sha256_pattern (c_sha256 c)"
    and "unix_seconds now < unix_seconds (t + file_expires F ttl)"
    and "rq_path rq = ''/storage/'' @ k" "rq_cap rq = sign_capability C (fc_key F) (put_claims F k c ttl t)"
  shows "transfer_verify C F rq capability_put now = Inr (put_claims F k c ttl t)
    \<and> claimed_content (put_claims F k c ttl t) = \<lparr>c_size = c_size c, c_sha256 = c_sha256 c, c_crc64 = ''''\<rparr>"
proof -
  have "trim_prefix ''/storage/'' (rq_path rq) = k" by (simp add: assms(7) trim_prefix_def)
  moreover have "verify_capability C (fc_key F) (rq_cap rq) capability_put now = Inr (put_claims F k c ttl t)"
    using assms(6) by (simp add: assms(8) verify_signed [OF assms(1,2)]) (simp add: put_claims_def)
  ultimately show ?thesis
    using assms(3-5) by (simp add: transfer_verify_def claimed_content_def) (simp add: put_claims_def)
qed

theorem presigned_put_redeems_witness:
  "transfer_verify demo_crypto demo_conf demo_redeem capability_put 7 = Inr demo_claims"
proof -
  have "0 \<le> c_size demo_content" "sha256_pattern (c_sha256 demo_content)" by code_simp+
  moreover have "unix_seconds 7 < unix_seconds (7 + file_expires demo_conf 0)" by code_simp
  ultimately show ?thesis
    using presigned_put_redeems [OF demo_codec_ok demo_claims_ok [unfolded demo_claims_def]]
    unfolding demo_claims_def by (simp add: demo_redeem_def demo_claims_def)
qed

subsection \<open>Keys and file names\<close>

text \<open>
  C18: The key of an object names its owner. From the key of an object that has not been published
  \<open>ownerID\<close> reads back its ID, so cleanup never takes the bytes of one object for those of
  another, and two such objects share a key only if they agree in ID and file name.
\<close>

theorem object_key_owner:
  assumes "in_int64 (ob_id a)" "ob_storage_key a = None" "ob_storage_key b = None"
  shows "owner_id (obj_key a) = Some (ob_id a)
    \<and> (obj_key a = obj_key b \<longleftrightarrow> ob_id a = ob_id b \<and> ob_filename a = ob_filename b)"
  using assms key_for_inj [of "ob_id a" "ob_filename a" "ob_id b" "ob_filename b"]
  by (auto simp: obj_key_pending owner_id_key_for)

theorem object_key_owner_witness:
  "owner_id (obj_key (demo_obj\<lparr>ob_storage_key := None\<rparr>)) = Some 1"
  using object_key_owner [of "demo_obj\<lparr>ob_storage_key := None\<rparr>" "demo_obj\<lparr>ob_storage_key := None\<rparr>"]
  by (simp add: demo_obj_def in_int64_def)

text \<open>
  C19: The validation of upload file names accepts exactly the safe ones. After normalisation a name
  passes iff it is one path element of valid UTF-8 that is not empty, not a dot name and free of
  control characters; a name with directories, of either slash, is reduced to its last element.
\<close>

theorem upload_filename_safe:
  "validate_upload_filename (normalize_upload_filename n) = None
     \<longleftrightarrow> safe_filename (normalize_upload_filename n)"
proof
  let ?f = "normalize_upload_filename n"
  assume safe: "safe_filename ?f"
  then obtain rs where rs: "runes ?f = Some rs" by (auto simp: safe_filename_def utf8_valid_def)
  have "\<not> (r < 0x20 \<or> r = 0x7F)" if r: "r \<in> set rs" for r
  proof (cases "r < 0x80")
    case True
    then have "r \<in> set (map of_char ?f)" using utf8_rune_ascii [OF rs [unfolded runes_def] r] by simp
    then obtain c where "c \<in> set ?f" "r = of_char c" by auto
    with safe show ?thesis by (auto simp: safe_filename_def not_less)
  qed simp
  with safe rs show "validate_upload_filename ?f = None"
    by (auto simp: validate_upload_filename_None safe_filename_def)
qed (rule validated_filename_safe)

subsection \<open>The file store\<close>

text \<open>
  C17: No key leaves the root of the file store. Whatever the key, the path it resolves to is a
  clean absolute path, without dot elements, that is the root itself or lies below it.
\<close>

theorem resolve_confined:
  assumes "root_ok F" "resolve F key = Inr p"
  shows "clean_abs p \<and> (p = fc_root F \<or> prefix (fc_root F @ ''/'') p)"
proof -
  obtain r where r: "fc_root F = CHR ''/'' # r"
    using assms(1) by (auto simp: root_ok_def clean_abs_def abs_path_def)
  have p: "p = clean_path (fc_root F @ ''/'' @ key) \<or> key = [] \<and> p = clean_path (fc_root F)"
    and b: "p = fc_root F \<or> prefix (fc_root F @ ''/'') p"
    using assms(2) r by (auto simp: resolve_def path_join_def Let_def split: if_splits)
  from p r have "p = ''/'' \<or> clean_abs p" using clean_path_abs by auto
  moreover have "p \<noteq> ''/''"
  proof
    assume "p = ''/''"
    with b r have "fc_root F = ''/''" by (auto elim: prefixE)
    with assms(1) obtain cs where "norm_comps cs" "''/'' = abs_path cs" by (auto simp: root_ok_def clean_abs_def)
    with last_abs_path [of cs] show False by (metis last.simps)
  qed
  ultimately show ?thesis using b by blast
qed

theorem resolve_confined_witness:
  "\<exists>p. resolve demo_conf ''_objects//./1/f.txt'' = Inr p \<and> p = ''/d/_objects/1/f.txt'' \<and> clean_abs p"
proof -
  have "resolve demo_conf ''_objects//./1/f.txt'' = Inr ''/d/_objects/1/f.txt''" by code_simp
  with resolve_confined [OF demo_root_ok this] show ?thesis by blast
qed

text \<open>
  C14: \<open>Put\<close> is all or nothing. Under any schedule of faults the stored bytes of all objects are as
  before, or those of the key became bytes that match the declaration; when it reports success
  they are exactly the bytes of the reader.
\<close>

theorem put_all_or_nothing:
  assumes "fs_ok F s" "object_key k" "file_put H F k r c opts s = (res, s')"
  shows "fs_ok F s' \<and>
    (case res of
       Inr _ \<Rightarrow> matches H c (rd_bytes r) \<and> fs_stored F s' = (fs_stored F s)(k \<mapsto> rd_bytes r)
     | Inl _ \<Rightarrow> fs_stored F s' = fs_stored F s
         \<or> (\<exists>b. matches H c b \<and> fs_stored F s' = (fs_stored F s)(k \<mapsto> b)))"
  using file_put_law [OF assms] by (cases res) auto

lemma demo_object_key: "object_key ''_objects/1/f.txt''"
proof -
  have "safe_filename ''f.txt''" "\<not> temp_name ''f.txt''" by code_simp+
  then have "object_key (key_for 1 ''f.txt'')" by (intro object_keyI) (simp_all add: in_int64_def)
  moreover have "key_for 1 ''f.txt'' = ''_objects/1/f.txt''" by code_simp
  ultimately show ?thesis by simp
qed

theorem put_all_or_nothing_witness:
  "\<exists>s'. file_put demo_hashes demo_conf ''_objects/1/f.txt'' (bytes_reader ''x'') demo_content \<lparr>po_ctype = ''''\<rparr> demo_fs
      = (Inr (), s') \<and> fs_stored demo_conf s' ''_objects/1/f.txt'' = Some ''x''"
proof -
  let ?put = "file_put demo_hashes demo_conf ''_objects/1/f.txt'' (bytes_reader ''x'') demo_content \<lparr>po_ctype = ''''\<rparr> demo_fs"
  have "fst ?put = Inr ()" by code_simp
  then obtain s' where s': "?put = (Inr (), s')" by (metis prod.collapse)
  from put_all_or_nothing [OF demo_fs_ok demo_object_key s'] have
    "fs_stored demo_conf s' ''_objects/1/f.txt'' = Some ''x''" by (simp add: bytes_reader_def)
  with s' show ?thesis by blast
qed

lemma hex_val_upper: "n < 16 \<Longrightarrow> hex_val (upper_hex_char n) = Some n"
  by (auto simp: hex_val_def upper_hex_char_def Let_def)

lemma unescape_escape: "path_unescape (path_escape s) = Some s"
proof (induction s)
  case (Cons c s)
  have "c \<noteq> CHR ''%''" if "path_unreserved c" using that by (auto simp: path_unreserved_def Let_def)
  with Cons show ?case by (auto simp: Let_def hex_val_upper div16_less)
qed simp

definition escaped_char :: "char \<Rightarrow> bool" where
  "escaped_char c \<longleftrightarrow> path_unreserved c \<or> c = CHR ''%''"

lemma upper_hex_unreserved: "n < 16 \<Longrightarrow> path_unreserved (upper_hex_char n)"
  by (auto simp: path_unreserved_def upper_hex_char_def Let_def)

lemma path_escape_chars: "list_all escaped_char (path_escape s)"
  by (induction s) (auto simp: escaped_char_def Let_def upper_hex_unreserved div16_less)

lemma set_join_with: "set (join_with sep ps) \<subseteq> set sep \<union> (\<Union>p \<in> set ps. set p)"
  by (induction sep ps rule: join_with.induct) auto

lemma slash_reserved: "\<not> escaped_char (CHR ''/'')"
  by (simp add: escaped_char_def path_unreserved_def)

text \<open>
  Escaping is lossless and keeps the structure of a key. Splitting an escaped key at its slashes
  and unescaping each part gives the parts of the key, and an escaped key holds only unreserved
  characters, slashes and percent escapes, so that it cannot end a path or start a query.
\<close>

theorem escape_path_round_trip:
  "map path_unescape (split_on (CHR ''/'') (escape_path s)) = map Some (split_on (CHR ''/'') s)
   \<and> list_all (\<lambda>c. path_unreserved c \<or> c \<in> set ''%/'') (escape_path s)"
proof -
  let ?ps = "map path_escape (split_on (CHR ''/'') s)"
  have sp: "split_on (CHR ''/'') (escape_path s) = ?ps"
    unfolding escape_path_def using path_escape_chars slash_reserved
    by (intro split_join) (auto simp: list_all_iff)
  have "set (escape_path s) \<subseteq> {CHR ''/''} \<union> (\<Union>p \<in> set ?ps. set p)"
    unfolding escape_path_def using set_join_with [of "''/''" ?ps] by simp
  then have "list_all (\<lambda>c. escaped_char c \<or> c = CHR ''/'') (escape_path s)"
    using path_escape_chars by (fastforce simp: list_all_iff)
  then show ?thesis unfolding sp by (auto simp: list_all_iff escaped_char_def unescape_escape)
qed

subsection \<open>Declarations and sizes\<close>

text \<open>
  \<open>Digest\<close> declares what it reads. Over any reader that ends without an error it gives a
  declaration that the service accepts, and bytes of the same length pass it only if they have the
  same SHA-256; a reader that fails gives its error.
\<close>

theorem digest_declares:
  assumes "hashes_ok H"
  shows "case rd_err r of
      Some e \<Rightarrow> digest H r = Inl e
    | None \<Rightarrow> (\<exists>c. digest H r = Inr c \<and> validate_content c = None
        \<and> (\<forall>b. matches H c b \<longleftrightarrow> length b = length (rd_bytes r) \<and> h_sha256 H b = h_sha256 H (rd_bytes r)))"
proof (cases "rd_err r")
  case None
  then obtain c where c: "digest H r = Inr c" by (auto simp: digest_def read_all_def)
  have "matches H c b \<longleftrightarrow> length b = length (rd_bytes r) \<and> h_sha256 H b = h_sha256 H (rd_bytes r)" for b
    using c None hex_encode_inj by (auto simp: digest_def read_all_def matches_def)
  with None c digest_valid [OF assms c] show ?thesis by auto
qed (simp add: digest_def read_all_def)

theorem digest_declares_witness:
  "\<exists>c. digest demo_hashes (bytes_reader ''x'') = Inr c \<and> validate_content c = None"
  using digest_declares [OF demo_hashes_ok, of "bytes_reader ''x''"] by (auto simp: bytes_reader_def)

text \<open>
  C24: The size in kibibytes is rounded up, and it wraps around at the top. For sizes up to
  \<open>2 ^ 63 - 1024\<close> it is the least number of kibibytes that holds the object; for the 1023 larger
  values of \<open>int64\<close> the sum overflows and the result is negative.
\<close>

theorem size_kb_rounds_up:
  "case ob_size b of
     None \<Rightarrow> size_kb_value b = 0
   | Some n \<Rightarrow>
       if n \<le> 0 then size_kb_value b = 0
       else if n \<le> 2 ^ 63 - 1024 then 1024 * (size_kb_value b - 1) < n \<and> n \<le> 1024 * size_kb_value b
       else if n < 2 ^ 63 then size_kb_value b < 0
       else True"
proof (cases "ob_size b")
  case (Some n)
  consider "n \<le> 0" | "0 < n" "n \<le> 2 ^ 63 - 1024" | "2 ^ 63 - 1024 < n" "n < 2 ^ 63" | "2 ^ 63 \<le> n"
    by linarith
  then show ?thesis
  proof cases
    case 2
    then have "wrap64 (n + 1023) = n + 1023" by (intro wrap64_id) (simp add: in_int64_def)
    then have "size_kb_value b = (n + 1023) div 1024"
      using Some 2 by (simp add: size_kb_value_def size_bytes_value_def go_div_def)
    moreover have "1024 * ((n + 1023) div 1024) = n + 1023 - (n + 1023) mod 1024"
      by (simp add: minus_mod_eq_mult_div)
    moreover have "- 1 < (n + 1023) mod 1024" "(n + 1023) mod 1024 \<le> 1023"
      using pos_mod_bound [of 1024 "n + 1023"] pos_mod_sign [of 1024 "n + 1023"] by linarith+
    ultimately show ?thesis using Some 2 by (simp add: right_diff_distrib)
  next
    case 3
    have "wrap64 (n + 1023) = n + 1023 - 2 ^ 64"
      using 3 by (intro wrap64_top) (simp_all)
    then have "size_kb_value b = - ((2 ^ 64 - (n + 1023)) div 1024)"
      using Some 3 by (simp add: size_kb_value_def size_bytes_value_def go_div_def)
    moreover have "1024 \<le> 2 ^ 64 - (n + 1023)" using 3 by simp
    ultimately have "size_kb_value b < 0" by (simp add: pos_imp_zdiv_pos_iff)
    with Some 3 show ?thesis by simp
  qed (simp_all add: Some size_kb_value_def size_bytes_value_def)
qed (simp add: size_kb_value_def size_bytes_value_def)

theorem size_kb_rounds_up_witness:
  "size_kb_value (demo_obj\<lparr>ob_size := Some 1025\<rparr>) = 2 \<and> size_kb_value (demo_obj\<lparr>ob_size := Some (2 ^ 63 - 1)\<rparr>) < 0"
proof -
  have "size_kb_value (demo_obj\<lparr>ob_size := Some 1025\<rparr>) = 2"
    using size_kb_rounds_up [of "demo_obj\<lparr>ob_size := Some 1025\<rparr>"] by simp
  moreover have "size_kb_value (demo_obj\<lparr>ob_size := Some (2 ^ 63 - 1)\<rparr>) < 0"
    using size_kb_rounds_up [of "demo_obj\<lparr>ob_size := Some (2 ^ 63 - 1)\<rparr>"] by simp
  ultimately show ?thesis ..
qed

text \<open>
  What a temporary file name among the file names would break. When the random name that \<open>Put\<close> draws
  for its temporary file is the name of the object itself, the rename moves the file onto itself and
  the deferred removal deletes it: \<open>Put\<close> reports success and stores nothing. The safety theorems
  leave such file names out.
\<close>

lemma temp_name_put_loses:
  "fst (file_put demo_hashes demo_conf ''_objects/1/.upload-0'' (bytes_reader ''x'') demo_content \<lparr>po_ctype = ''''\<rparr> demo_fs)
     = Inr ()"
  "map_of (fs_nodes (snd (file_put demo_hashes demo_conf ''_objects/1/.upload-0'' (bytes_reader ''x'') demo_content
     \<lparr>po_ctype = ''''\<rparr> demo_fs))) ''/d/_objects/1/.upload-0'' = None"
  "validate_upload_filename ''.upload-0'' = None"
  by code_simp+


text \<open>A store on the root of the file system is constructed, and then refuses every key of an object.\<close>

lemma root_store_refuses:
  "fst (new_file_store demo_net (Inr ''/'') ''/'' ''http://h'' (concat (replicate 32 ''6b'')) 60 demo_fs)
     = Inr \<lparr>fc_root = ''/'', fc_base_url = ''http://h'', fc_origin = ''http://h'', fc_key = replicate 32 (CHR ''k''), fc_ttl = 60\<rparr>"
  "resolve (demo_conf\<lparr>fc_root := ''/''\<rparr>) ''_objects/1/f.txt'' = Inl (Opaque ''invalid storage key'')"
  by code_simp+

end
