(* ===== verification/PgxLaws.thy ===== *)
theory PgxLaws
  imports Laws "HOL-Library.Multiset"
begin

text \<open>
  What the statements of the PostgreSQL store do when no call fails, on every branch: publication
  and its retry, the fence of a claim, deletion under foreign keys, and the three listings.
\<close>

subsection \<open>Statements that run\<close>

lemma run_works: "db_faults d = [] \<Longrightarrow> run_sql s d = s d"
  by (simp add: run_sql_def)

lemma filter_row:
  assumes "db_ok d" "db_view d i = Some r"
  shows "filter (\<lambda>q. ob_id q = i \<and> Q q) (db_rows d) = (if Q r then [r] else [])"
  using filter_id [OF assms(1), of "\<lambda>q. ob_id q = i \<and> Q q" i] assms db_view_Some [OF assms(2)] by auto

lemma filter_no_row:
  assumes "db_ok d" "\<forall>r. db_view d i = Some r \<longrightarrow> \<not> Q r"
  shows "filter (\<lambda>q. ob_id q = i \<and> Q q) (db_rows d) = []"
  using assms db_view_in [OF assms(1)] by (auto simp: filter_empty_conv)

lemma update_none:
  assumes "db_ok d" "filter P (db_rows d) = []"
  shows "sql_update P f d = (Inr [], d)"
proof -
  have "map (\<lambda>r. if P r then f r else r) (db_rows d) = db_rows d"
    using assms(2) by (auto simp: filter_empty_conv intro: map_idI)
  with assms show ?thesis by (simp add: sql_update_def Let_def db_ok_def)
qed

lemma pg_get_works:
  assumes "db_ok d" "db_faults d = []"
  shows "pg_get i d = (case db_view d i of
      Some r \<Rightarrow> if live r then Inr (row_obj r) else Inl (Sentinel ErrNotFound)
    | None \<Rightarrow> Inl (Sentinel ErrNotFound), d)"
proof (cases "\<exists>r. db_view d i = Some r \<and> live r")
  case True
  then obtain r where r: "db_view d i = Some r" "live r" by blast
  with filter_row [OF assms(1) r(1), of "\<lambda>q. ro_expired q = None"] assms(2) show ?thesis
    by (simp add: pg_get_def get_object_def run_works sql_select_def live_def)
next
  case False
  then have "filter (\<lambda>q. ob_id q = i \<and> ro_expired q = None) (db_rows d) = []"
    by (intro filter_no_row [OF assms(1)]) (auto simp: live_def)
  with assms(2) False show ?thesis
    by (auto simp: pg_get_def get_object_def run_works sql_select_def get_error_def split: option.splits)
qed

lemma pg_mark_not_pending:
  assumes "db_ok d" "db_faults d = []" "\<forall>r. db_view d i = Some r \<longrightarrow> \<not> pending r"
  shows "pg_mark_available i ct k d = (case db_view d i of
      Some r \<Rightarrow> if live r \<and> available r then Inr (row_obj r) else Inl (Sentinel ErrNotFound)
    | None \<Rightarrow> Inl (Sentinel ErrNotFound), d)"
proof -
  have "filter (\<lambda>q. ob_id q = i \<and> ob_available_at q = None \<and> ro_expired q = None) (db_rows d) = []"
    using assms(3) by (intro filter_no_row [OF assms(1)]) (simp add: pending_def)
  note none = update_none [OF assms(1) this]
  show ?thesis
    using assms(3)
    by (auto simp: pg_mark_available_def get_object_def run_works [OF assms(2)] none get_error_def
        pg_get_works [OF assms(1,2)] live_def pending_def available_def split: option.splits)
qed

subsection \<open>Publication\<close>

text \<open>
  Publication can be retried. After \<open>MarkAvailable\<close> returned an object, and also after it ran
  but its response was lost, calling it again with any type and key returns the published object
  as it is and changes nothing.
\<close>

theorem publish_retry:
  assumes "db_ok d" "db_faults d = []" "db_view d i = Some r" "available r" "live r"
  shows "pg_mark_available i ct k d = (Inr (row_obj r), d)"
  using pg_mark_not_pending [OF assms(1,2), of i ct k] assms(3-5) by (simp add: pending_def available_def)

theorem publish_retry_witness:
  "pg_mark_available 1 ''other/type'' ''other key'' demo_db1 = (Inr (row_obj demo_row), demo_db1)"
  by (rule publish_retry [OF demo_db1_ok _ demo_view demo_row_available])
     (simp_all add: demo_db1_def live_def demo_row_def)

lemma gone_row:
  assumes "db_ok d" "db_faults d = []" "\<forall>r. db_view d i = Some r \<longrightarrow> \<not> live r"
  shows "pg_get i d = (Inl (Sentinel ErrNotFound), d)"
    and "pg_refresh_pending i d = (Inl (Sentinel ErrNotFound), d)"
    and "pg_mark_available i ct k d = (Inl (Sentinel ErrNotFound), d)"
proof -
  have "filter (\<lambda>q. ob_id q = i \<and> ob_available_at q = None \<and> ro_expired q = None) (db_rows d) = []"
    using assms(3) by (intro filter_no_row [OF assms(1)]) (simp add: live_def)
  note none = update_none [OF assms(1) this]
  show "pg_refresh_pending i d = (Inl (Sentinel ErrNotFound), d)"
    by (simp add: pg_refresh_pending_def get_object_def run_works [OF assms(2)] none get_error_def)
  show "pg_get i d = (Inl (Sentinel ErrNotFound), d)"
    using assms(3) by (auto simp: pg_get_works [OF assms(1,2)] split: option.splits)
  have "\<forall>r. db_view d i = Some r \<longrightarrow> \<not> pending r" using assms(3) pending_live by blast
  from pg_mark_not_pending [OF assms(1,2) this] assms(3)
  show "pg_mark_available i ct k d = (Inl (Sentinel ErrNotFound), d)"
    by (auto split: option.splits)
qed

text \<open>
  C20: A claim fences publication. Once \<open>ClaimExpiredPending\<close> has returned an object, the object is
  not found by any publication, refresh or lookup, and they change nothing; the bytes can be
  removed without a race.
\<close>

theorem claim_fences:
  assumes "db_ok d" "pg_claim_expired ub rb n d = (Inr bs, d')" "b \<in> set bs" "db_faults d' = []"
  shows "\<not> available b \<and> pg_get (ob_id b) d' = (Inl (Sentinel ErrNotFound), d')
    \<and> pg_refresh_pending (ob_id b) d' = (Inl (Sentinel ErrNotFound), d')
    \<and> pg_mark_available (ob_id b) ct k d' = (Inl (Sentinel ErrNotFound), d')"
proof -
  note law = pg_claim_law [OF assms(1,2)]
  have ok: "db_ok d'" using pg.ok_claim [of d ub rb n] assms(1,2) by (simp add: pg_registry_def)
  have cl: "v_claimed (db_view d) (ob_id ` set bs) (db_view d')
      \<and> (\<forall>b \<in> set bs. \<exists>r. db_view d (ob_id b) = Some r \<and> b = row_obj r)"
    using pg.claim_ok [of d ub rb n bs d'] assms(1,2) by (simp add: pg_registry_def)
  then have "\<forall>r. db_view d' (ob_id b) = Some r \<longrightarrow> \<not> live r" and "\<not> available b"
    using assms(3) by (force simp: v_claimed_def live_def)+
  with gone_row [OF ok assms(4)] show ?thesis by blast
qed

definition demo_stale :: db where
  "demo_stale = \<lparr>db_rows = [demo_row\<lparr>ob_ctype := '''', ob_available_at := None, ob_storage_key := None\<rparr>],
     db_next = 2, db_now = 100, db_fks = [], db_faults = []\<rparr>"

theorem claim_fences_witness:
  "\<exists>b d'. pg_claim_expired 50 50 100 demo_stale = (Inr [b], d') \<and> ob_id b = 1
     \<and> fst (pg_mark_available 1 ''t'' ''k'' d') = Inl (Sentinel ErrNotFound)"
proof -
  let ?c = "pg_claim_expired 50 50 100 demo_stale"
  have ok: "db_ok demo_stale" by code_simp
  have "map_sum id (map ob_id) (fst ?c) = Inr [1]" "db_faults (snd ?c) = []" by code_simp+
  then obtain b d' where c: "?c = (Inr [b], d')" "ob_id b = 1" "db_faults d' = []"
    by (cases ?c; cases "fst ?c") auto
  from claim_fences [OF ok c(1) _ c(3), of b "''t''" "''k''"] c show ?thesis by auto
qed

subsection \<open>Deletion\<close>

definition held :: "db \<Rightarrow> int \<Rightarrow> bool" where
  "held d i \<longleftrightarrow> (\<exists>k \<in> set (db_fks d). fk_action k \<in> {NoAction, Restrict} \<and> i \<in> set (fk_refs k))"

text \<open>
  C21: A referenced object is not deleted. While a foreign key that restricts deletion holds the ID of
  an object, \<open>Delete\<close> reports a conflict and changes nothing; without such a reference the object
  is removed and returned, and references that cascade or are set to null let go of it.
\<close>

theorem delete_respects_references:
  assumes "db_ok d" "db_faults d = []" "db_view d i = Some r" "live r"
  shows "if held d i
    then (\<exists>e. pg_delete i d = (Inl e, d) \<and> errors_is e ErrConflict)
    else (\<exists>d'. pg_delete i d = (Inr (row_obj r), d') \<and> db_view d' = (db_view d)(i := None)
            \<and> (\<forall>k \<in> set (db_fks d'). i \<notin> set (fk_refs k)))"
proof -
  have gone: "filter (\<lambda>q. ob_id q = i \<and> ro_expired q = None) (db_rows d) = [r]"
    using filter_row [OF assms(1,3), of "\<lambda>q. ro_expired q = None"] assms(4) by (simp add: live_def)
  have ids: "ob_id r = i" using db_view_Some [OF assms(3)] by simp
  have held: "held d i \<longleftrightarrow> list_ex (blocks Restrict [r]) (db_fks d) \<or> list_ex (blocks NoAction [r]) (db_fks d)"
    by (auto simp: held_def list_ex_iff blocks_def ids)
  show ?thesis
  proof (cases "held d i")
    case True
    then show ?thesis
      using held by (auto simp: pg_delete_def get_object_def run_works [OF assms(2)] sql_delete_def gone
          delete_conflict_def sql_state_def get_error_def Let_def)
  next
    case False
    define d' where "d' = d\<lparr>db_rows := filter (\<lambda>q. \<not> (ob_id q = i \<and> ro_expired q = None)) (db_rows d),
        db_fks := map (\<lambda>k. k\<lparr>fk_refs := filter (\<lambda>j. j \<notin> ob_id ` set [r]) (fk_refs k)\<rparr>) (db_fks d)\<rparr>"
    have run: "pg_delete i d = (Inr (row_obj r), d')"
      using False held by (simp add: pg_delete_def get_object_def run_works [OF assms(2)] sql_delete_def gone
          Let_def d'_def)
    have "db_view d' = (db_view d)(i := None)"
      using pg.unlink_ok [of d i "row_obj r" d'] assms(1) run by (auto simp: pg_registry_def v_deleted_def)
    with run False ids show ?thesis by (auto simp: d'_def)
  qed
qed

definition demo_held :: db where
  "demo_held = demo_db1\<lparr>db_fks := [\<lparr>fk_single = True, fk_on_id = True, fk_action = Restrict, fk_refs = [1]\<rparr>]\<rparr>"

theorem delete_respects_references_witness:
  "(\<exists>e. pg_delete 1 demo_held = (Inl e, demo_held) \<and> errors_is e ErrConflict)
   \<and> (\<exists>d'. pg_delete 1 demo_db1 = (Inr (row_obj demo_row), d') \<and> db_view d' 1 = None)"
proof -
  have ok: "db_ok demo_held" using demo_db1_ok by (simp add: db_ok_def demo_held_def)
  have v: "db_view demo_held 1 = Some demo_row" using demo_view by (simp add: demo_held_def db_view_def)
  have l: "live demo_row" by (simp add: live_def demo_row_def)
  have "held demo_held 1" "\<not> held demo_db1 1" by (simp_all add: held_def demo_held_def demo_db1_def)
  with delete_respects_references [OF ok _ v l] delete_respects_references [OF demo_db1_ok _ demo_view l]
  show ?thesis by (auto simp: demo_held_def demo_db1_def)
qed

subsection \<open>Listings\<close>

definition of_prefix :: "string \<Rightarrow> row \<Rightarrow> bool" where
  "of_prefix p r \<longleftrightarrow> ob_prefix r = p \<and> available r \<and> live r"

definition page_of :: "db \<Rightarrow> string \<Rightarrow> nat \<Rightarrow> nat \<Rightarrow> obj list" where
  "page_of d p n j = (case fst (pg_list_by_prefix p \<lparr>lo_limit = int n, lo_offset = int (n * j)\<rparr> d) of
     Inr (bs, _) \<Rightarrow> bs | Inl _ \<Rightarrow> [])"

lemma list_by_prefix_works:
  assumes "db_faults d = []"
  shows "pg_list_by_prefix p opts d =
    (Inr (map row_obj (take (nat (lo_limit opts)) (drop (nat (lo_offset opts))
            (newest_first (filter (of_prefix p) (db_rows d))))),
          int (length (filter (of_prefix p) (db_rows d)))), d)"
proof -
  have P: "(\<lambda>r :: row. ob_prefix r = p \<and> ob_available_at r \<noteq> None \<and> ro_expired r = None) = of_prefix p"
    by (auto simp: of_prefix_def available_def live_def)
  show ?thesis unfolding pg_list_by_prefix_def P Let_def by (simp add: run_works [OF assms])
qed

lemma take_pages: "concat (map (\<lambda>j. take n (drop (n * j) xs)) [0..<m]) = take (n * m) xs"
  by (induction m) (simp_all add: take_add add.commute [of n])

text \<open>
  C22: The pages of \<open>ListByPrefix\<close> partition the available objects of a prefix. Asked page after
  page, it returns each of them once, newest first and by descending ID among equals, and every
  page carries their total number.
\<close>

theorem list_by_prefix_pages:
  assumes "db_faults d = []" "length (db_rows d) \<le> n * m"
  shows "concat (map (page_of d p n) [0..<m]) = map row_obj (newest_first (filter (of_prefix p) (db_rows d)))
    \<and> mset (newest_first (filter (of_prefix p) (db_rows d))) = mset (filter (of_prefix p) (db_rows d))
    \<and> sorted (map (\<lambda>r. (- ob_created r, - ob_id r)) (newest_first (filter (of_prefix p) (db_rows d))))
    \<and> (\<forall>opts. map_sum id snd (fst (pg_list_by_prefix p opts d))
           = Inr (int (length (filter (of_prefix p) (db_rows d)))))"
proof -
  let ?rows = "newest_first (filter (of_prefix p) (db_rows d))"
  have page: "page_of d p n = (\<lambda>j. map row_obj (take n (drop (n * j) ?rows)))"
    by (rule ext) (simp add: page_of_def list_by_prefix_works [OF assms(1)] nat_mult_distrib)
  have "concat (map (page_of d p n) [0..<m]) = map row_obj (concat (map (\<lambda>j. take n (drop (n * j) ?rows)) [0..<m]))"
    unfolding page by (simp add: map_concat o_def)
  moreover have "length ?rows \<le> n * m"
    using order_trans [OF length_filter_le assms(2)] by (simp add: newest_first_def)
  ultimately show ?thesis
    by (simp add: take_pages list_by_prefix_works [OF assms(1)]) (simp add: newest_first_def)
qed

theorem list_by_prefix_pages_witness:
  "concat (map (page_of demo_db1 ''pkg'' 1) [0..<1]) = [row_obj demo_row]"
proof -
  have "newest_first (filter (of_prefix ''pkg'') (db_rows demo_db1)) = [demo_row]"
    using demo_row_available by (simp add: newest_first_def demo_db1_def of_prefix_def live_def)
      (simp add: demo_row_def)
  with list_by_prefix_pages [of demo_db1 1 1 "''pkg''"] show ?thesis by (simp add: demo_db1_def)
qed

text \<open>
  C23: What \<open>ListUnreferenced\<close> returns may be deleted. With foreign keys of one column on the ID, every
  object it lists has one of the prefixes, has been available since before the given time and is
  in no foreign key, so that \<open>Delete\<close> removes it without a conflict; it lists at most as many as
  asked for.
\<close>

theorem unreferenced_deletable:
  assumes "db_ok d" "db_faults d = []" "list_all fk_single (db_fks d)"
    and "pg_list_unreferenced ps t n d = (Inr bs, d')" "b \<in> set bs"
  shows "d' = d \<and> length bs \<le> nat n \<and> ob_prefix b \<in> set ps \<and> (\<exists>a. ob_available_at b = Some a \<and> a < t)
    \<and> (\<exists>d2. pg_delete (ob_id b) d = (Inr b, d2) \<and> db_view d2 = (db_view d)(ob_id b := None))"
proof -
  have single: "filter fk_single (db_fks d) = db_fks d"
    using assms(3) by (simp add: list_all_iff filter_id_conv)
  let ?P = "\<lambda>r. ob_prefix r \<in> set ps
     \<and> (case ob_available_at r of None \<Rightarrow> False | Some a \<Rightarrow> a < t)
     \<and> ro_expired r = None \<and> list_all (\<lambda>k. ob_id r \<notin> set (fk_refs k)) (db_fks d)"
  have bs: "bs = map row_obj (take (nat n) (sort_key ob_id (filter ?P (db_rows d))))" "d' = d"
    using assms(4) by (auto simp: pg_list_unreferenced_def run_works [OF assms(2)] single unreferenced_rows_def
        split: if_splits)
  then obtain r where r: "b = row_obj r" "r \<in> set (db_rows d)" "?P r"
    using assms(5) by (auto dest!: in_set_takeD)
  have v: "db_view d (ob_id r) = Some r" by (rule db_view_in [OF assms(1) r(2)])
  have "\<not> held d (ob_id r)" using r(3) by (auto simp: held_def list_all_iff)
  then obtain d2 where "pg_delete (ob_id r) d = (Inr (row_obj r), d2)" "db_view d2 = (db_view d)(ob_id r := None)"
    using delete_respects_references [OF assms(1,2) v] r(3) by (auto simp: live_def)
  with bs r show ?thesis by (auto split: option.splits)
qed

theorem unreferenced_deletable_witness:
  "\<exists>b d2. pg_list_unreferenced [''pkg''] 50 100 demo_db1 = (Inr [b], demo_db1) \<and> ob_prefix b \<in> {''pkg''}
     \<and> pg_delete (ob_id b) demo_db1 = (Inr b, d2)"
proof -
  let ?l = "pg_list_unreferenced [''pkg''] 50 100 demo_db1"
  have "map_sum id (map ob_id) (fst ?l) = Inr [1]" by code_simp
  then obtain b d' where l: "?l = (Inr [b], d')" by (cases ?l; cases "fst ?l") auto
  from unreferenced_deletable [OF demo_db1_ok _ _ l, of b] l show ?thesis
    by (auto simp: demo_db1_def)
qed

end
