(* ===== verification/S3Store.thy ===== *)
theory S3Store
  imports Service
begin

text \<open>
  \<open>bloby/s3.go\<close>: the backend that keeps objects in an S3 bucket. The client of the AWS SDK is a
  parameter, a record of the calls that the store makes, on a world of any type. An optional field
  of a request or a response is an option, as it is a pointer in the SDK. A paginator is the list
  of what its \<open>NextPage\<close> returns, page after page. Signing a request is a call that returns a URL
  and the headers that were signed.
\<close>

subsection \<open>The client\<close>

record get_input =
  gi_bucket :: string
  gi_key :: string
  gi_range :: "string option"
  gi_ctype :: "string option"
  gi_cache :: "string option"

record put_input =
  pi_bucket :: string
  pi_key :: string
  pi_body :: "string option"
  pi_length :: "int option"
  pi_ctype :: "string option"
  pi_sha256 :: string

text \<open>\<open>HeadObjectOutput\<close>: what the provider records of an object.\<close>

record head_output =
  ho_length :: "int option"
  ho_type :: string
  ho_sha256 :: "string option"
  ho_crc64 :: "string option"

record s3part =
  pt_number :: "int option"
  pt_size :: "int option"
  pt_etag :: "string option"
  pt_crc64 :: "string option"

record completed_part =
  cp_number :: "int option"
  cp_etag :: "string option"
  cp_crc64 :: "string option"

record listed_object =
  lt_key :: "string option"
  lt_modified :: "int option"

record listed_upload =
  lu_key :: "string option"
  lu_id :: "string option"
  lu_initiated :: "int option"

record part_input =
  ui_bucket :: string
  ui_key :: string
  ui_upload :: string
  ui_number :: int
  ui_crc64 :: "string option"

record signed =
  sg_url :: string
  sg_headers :: "(string \<times> string list) list"

record 'w s3client =
  sc_get :: "get_input \<Rightarrow> 'w \<Rightarrow> reader result \<times> 'w"
  sc_put :: "put_input \<Rightarrow> 'w \<Rightarrow> unit result \<times> 'w"
  sc_delete :: "string \<Rightarrow> string \<Rightarrow> 'w \<Rightarrow> unit result \<times> 'w"
  sc_head :: "string \<Rightarrow> string \<Rightarrow> 'w \<Rightarrow> head_output result \<times> 'w"
  sc_create :: "string \<Rightarrow> string \<Rightarrow> 'w \<Rightarrow> string option result \<times> 'w"
  sc_parts :: "string \<Rightarrow> string \<Rightarrow> string \<Rightarrow> 'w \<Rightarrow> s3part list result list \<times> 'w"
  sc_complete :: "string \<Rightarrow> string \<Rightarrow> string \<Rightarrow> completed_part list \<Rightarrow> 'w \<Rightarrow> unit result \<times> 'w"
  sc_abort :: "string \<Rightarrow> string \<Rightarrow> string \<Rightarrow> 'w \<Rightarrow> unit result \<times> 'w"
  sc_objects :: "string \<Rightarrow> string \<Rightarrow> 'w \<Rightarrow> listed_object list result list \<times> 'w"
  sc_uploads :: "string \<Rightarrow> 'w \<Rightarrow> listed_upload list result list \<times> 'w"
  sc_sign_get :: "get_input \<Rightarrow> int \<Rightarrow> 'w \<Rightarrow> signed result \<times> 'w"
  sc_sign_put :: "put_input \<Rightarrow> int \<Rightarrow> 'w \<Rightarrow> signed result \<times> 'w"
  sc_sign_part :: "part_input \<Rightarrow> int \<Rightarrow> 'w \<Rightarrow> signed result \<times> 'w"

text \<open>\<open>aws.ToString\<close> and \<open>aws.ToInt64\<close> read a missing field as the zero value.\<close>

definition to_string :: "string option \<Rightarrow> string" where
  "to_string s = (case s of None \<Rightarrow> '''' | Some x \<Rightarrow> x)"

definition to_int64 :: "int option \<Rightarrow> int" where
  "to_int64 n = (case n of None \<Rightarrow> 0 | Some x \<Rightarrow> x)"

definition if_set :: "string \<Rightarrow> string option" where
  "if_set s = (if s \<noteq> '''' then Some s else None)"

subsection \<open>Errors of the API\<close>

definition s3_not_found :: "goerr \<Rightarrow> bool" where
  "s3_not_found e =
     (case as_api_error e of
        None \<Rightarrow> False
      | Some c \<Rightarrow> c = ''NotFound'' \<or> c = ''NoSuchKey'' \<or> c = ''404'')"

definition s3_no_such_upload :: "goerr \<Rightarrow> bool" where
  "s3_no_such_upload e = (as_api_error e = Some ''NoSuchUpload'')"

subsection \<open>The store\<close>

record 'w s3store =
  ss_bucket :: string
  ss_origin :: string
  ss_ttl :: int
  ss_client :: "'w s3client"

definition s3_threshold :: int where
  "s3_threshold = 100 * 1024 * 1024"

definition s3_expires :: "'w s3store \<Rightarrow> int \<Rightarrow> int" where
  "s3_expires S ttl = ttl_or_default ttl (ss_ttl S)"

definition upload_headers :: "(string \<times> string list) list \<Rightarrow> (string \<times> string) list" where
  "upload_headers hs =
     List.map_filter (\<lambda>(k, vs).
       if k = ''Host'' \<or> k = ''Content-Length'' \<or> vs = [] then None else Some (k, hd vs)) hs"

definition object_input :: "'w s3store \<Rightarrow> string \<Rightarrow> get_input" where
  "object_input S key = \<lparr>gi_bucket = ss_bucket S, gi_key = key, gi_range = None, gi_ctype = None, gi_cache = None\<rparr>"

definition s3_open :: "'w s3store \<Rightarrow> string \<Rightarrow> 'w \<Rightarrow> reader result \<times> 'w" where
  "s3_open S key w =
     (let (r, w') = sc_get (ss_client S) (object_input S key) w in
      (case r of
         Inl e \<Rightarrow> if s3_not_found e then Inl (Sentinel ErrObjectNotFound) else Inl (Wrap ''get'' [e])
       | Inr rd \<Rightarrow> Inr rd, w'))"

definition s3_put :: "'w s3store \<Rightarrow> string \<Rightarrow> reader \<Rightarrow> content \<Rightarrow> put_options \<Rightarrow> 'w \<Rightarrow> unit result \<times> 'w" where
  "s3_put S key r c opts w =
     (case read_all r of
        Inl e \<Rightarrow> (Inl (Wrap ''read body'' [e]), w)
      | Inr body \<Rightarrow>
          (let (p, w') = sc_put (ss_client S)
                 \<lparr>pi_bucket = ss_bucket S, pi_key = key, pi_body = Some body, pi_length = None,
                  pi_ctype = if_set (po_ctype opts), pi_sha256 = base64_digest (c_sha256 c)\<rparr> w
           in (case p of Inl e \<Rightarrow> Inl (Wrap ''put'' [e]) | Inr _ \<Rightarrow> Inr (), w')))"

definition s3_delete :: "'w s3store \<Rightarrow> string \<Rightarrow> 'w \<Rightarrow> unit result \<times> 'w" where
  "s3_delete S key w =
     (let (r, w') = sc_delete (ss_client S) (ss_bucket S) key w in
      (case r of Inl e \<Rightarrow> Inl (Wrap ''delete'' [e]) | Inr _ \<Rightarrow> Inr (), w'))"

definition s3_presign_get :: "'w s3store \<Rightarrow> string \<Rightarrow> int \<Rightarrow> get_options \<Rightarrow> 'w \<Rightarrow> string result \<times> 'w" where
  "s3_presign_get S key ttl opts w =
     (let (r, w') = sc_sign_get (ss_client S)
            ((object_input S key)\<lparr>gi_ctype := if_set (go_ctype opts), gi_cache := if_set (go_cache opts)\<rparr>)
            (s3_expires S ttl) w
      in (case r of Inl e \<Rightarrow> Inl (Wrap ''presign get'' [e]) | Inr s \<Rightarrow> Inr (sg_url s), w'))"

definition signed_target :: "signed \<Rightarrow> upload_target" where
  "signed_target s = \<lparr>ut_url = sg_url s, ut_method = ''PUT'', ut_headers = upload_headers (sg_headers s)\<rparr>"

definition s3_presign_put :: "'w s3store \<Rightarrow> string \<Rightarrow> content \<Rightarrow> int \<Rightarrow> 'w \<Rightarrow> upload_target result \<times> 'w" where
  "s3_presign_put S key c ttl w =
     (let (r, w') = sc_sign_put (ss_client S)
            \<lparr>pi_bucket = ss_bucket S, pi_key = key, pi_body = None, pi_length = Some (c_size c),
             pi_ctype = None, pi_sha256 = base64_digest (c_sha256 c)\<rparr>
            (s3_expires S ttl) w
      in (case r of Inl e \<Rightarrow> Inl (Wrap ''presign put'' [e]) | Inr s \<Rightarrow> Inr (signed_target s), w'))"

definition s3_begin_upload :: "'w s3store \<Rightarrow> string \<Rightarrow> content \<Rightarrow> 'w \<Rightarrow> upload_action result \<times> 'w" where
  "s3_begin_upload S key c w =
     (if c_size c > s3_threshold then (Inr \<lparr>ua_strategy = StrategyMultipart, ua_target = None\<rparr>, w)
      else (let (r, w') = s3_presign_put S key c 0 w in
            (case r of
               Inl e \<Rightarrow> Inl e
             | Inr t \<Rightarrow> Inr \<lparr>ua_strategy = StrategyDirectPut, ua_target = Some t\<rparr>, w')))"

subsection \<open>Verification\<close>

text \<open>One turn of the loop over the two checksums: the state is whether one was compared.\<close>

fun check_sums :: "(string \<times> string) list \<Rightarrow> bool \<Rightarrow> bool result" where
  "check_sums [] verified = Inr verified"
| "check_sums ((stored, declared) # cs) verified =
     (if stored = '''' then check_sums cs verified
      else if stored \<noteq> declared then Inl (content_mismatch ''storage does not hold the declared checksum'')
      else check_sums cs True)"

definition checksum_composite :: string where "checksum_composite = ''COMPOSITE''"

definition s3_judge :: "head_output \<Rightarrow> content \<Rightarrow> unit result" where
  "s3_judge ob c =
     (if to_int64 (ho_length ob) \<noteq> c_size c then Inl (content_mismatch ''storage holds other bytes than declared'')
      else case (if ho_type ob \<noteq> checksum_composite
                 then check_sums [(to_string (ho_sha256 ob), base64_digest (c_sha256 c)),
                                  (to_string (ho_crc64 ob), base64_digest (c_crc64 c))] False
                 else Inr False) of
        Inl e \<Rightarrow> Inl e
      | Inr verified \<Rightarrow>
          if \<not> verified then Inl (Opaque ''storage reported no full-object SHA-256 or CRC64NVME'')
          else Inr ())"

definition s3_verify :: "'w s3store \<Rightarrow> string \<Rightarrow> content \<Rightarrow> 'w \<Rightarrow> unit result \<times> 'w" where
  "s3_verify S key c w =
     (let (r, w') = sc_head (ss_client S) (ss_bucket S) key w in
      (case r of
         Inl e \<Rightarrow> if s3_not_found e then Inl (Sentinel ErrObjectNotFound) else Inl (Wrap ''head'' [e])
       | Inr ob \<Rightarrow> s3_judge ob c, w'))"

definition range_header :: "int \<Rightarrow> string" where
  "range_header n = ''bytes=0-'' @ show_int (n - 1)"

definition s3_head :: "'w s3store \<Rightarrow> string \<Rightarrow> int \<Rightarrow> 'w \<Rightarrow> string result \<times> 'w" where
  "s3_head S key n w =
     (let (r, w') = sc_get (ss_client S) ((object_input S key)\<lparr>gi_range := Some (range_header n)\<rparr>) w in
      (case r of
         Inl e \<Rightarrow> if s3_not_found e then Inl (Sentinel ErrObjectNotFound) else Inl (Wrap ''get head'' [e])
       | Inr rd \<Rightarrow>
           (case read_all (limit_reader rd n) of
              Inl e \<Rightarrow> Inl (Wrap ''read head'' [Wrap '''' [e]])
            | Inr b \<Rightarrow> Inr b), w'))"

subsection \<open>Multipart uploads\<close>

definition s3_create_multipart :: "'w s3store \<Rightarrow> string \<Rightarrow> 'w \<Rightarrow> string result \<times> 'w" where
  "s3_create_multipart S key w =
     (let (r, w') = sc_create (ss_client S) (ss_bucket S) key w in
      (case r of
         Inl e \<Rightarrow> Inl (Wrap ''create multipart upload'' [e])
       | Inr u \<Rightarrow>
           if to_string u = '''' then Inl (Opaque ''provider returned an empty upload ID'')
           else Inr (to_string u), w'))"

definition s3_presign_part ::
  "'w s3store \<Rightarrow> string \<Rightarrow> string \<Rightarrow> int \<Rightarrow> string \<Rightarrow> int \<Rightarrow> 'w \<Rightarrow> upload_target result \<times> 'w" where
  "s3_presign_part S key u part crc ttl w =
     (let (r, w') = sc_sign_part (ss_client S)
            \<lparr>ui_bucket = ss_bucket S, ui_key = key, ui_upload = u, ui_number = part,
             ui_crc64 = Some (base64_digest crc)\<rparr> (s3_expires S ttl) w
      in (case r of Inl e \<Rightarrow> Inl (Wrap ''presign multipart part'' [e]) | Inr s \<Rightarrow> Inr (signed_target s), w'))"

definition completed :: "s3part \<Rightarrow> completed_part" where
  "completed p = \<lparr>cp_number = pt_number p, cp_etag = pt_etag p, cp_crc64 = pt_crc64 p\<rparr>"

text \<open>The loop over the pages of parts; their total size is an \<open>int64\<close>.\<close>

fun collect_parts :: "s3part list result list \<Rightarrow> completed_part list \<Rightarrow> int \<Rightarrow> (completed_part list \<times> int) result" where
  "collect_parts [] parts n = Inr (parts, n)"
| "collect_parts (Inl e # pages) parts n =
     (if s3_no_such_upload e then Inl (Sentinel ErrMultipartUploadNotFound)
      else Inl (Wrap ''list multipart parts'' [e]))"
| "collect_parts (Inr ps # pages) parts n =
     collect_parts pages (parts @ map completed ps) (fold (\<lambda>p t. wrap64 (t + to_int64 (pt_size p))) ps n)"

definition s3_complete :: "'w s3store \<Rightarrow> string \<Rightarrow> string \<Rightarrow> int \<Rightarrow> 'w \<Rightarrow> unit result \<times> 'w" where
  "s3_complete S key u bytes w =
     (let (pages, w1) = sc_parts (ss_client S) (ss_bucket S) key u w in
      case collect_parts pages [] 0 of
        Inl e \<Rightarrow> (Inl e, w1)
      | Inr (parts, n) \<Rightarrow>
          if parts = []
          then (Inl (Wrap ''upload has not arrived'' [Sentinel ErrInvalidInput, Sentinel ErrObjectNotFound]), w1)
          else if n \<noteq> bytes
          then (Inl (content_mismatch ''uploaded parts n other bytes than declared''), w1)
          else (let (r, w2) = sc_complete (ss_client S) (ss_bucket S) key u parts w1 in
                (case r of
                   Inl e \<Rightarrow>
                     if s3_no_such_upload e then Inl (Sentinel ErrMultipartUploadNotFound)
                     else Inl (Wrap ''complete multipart upload'' [e])
                 | Inr _ \<Rightarrow> Inr (), w2)))"

definition s3_abort :: "'w s3store \<Rightarrow> string \<Rightarrow> string \<Rightarrow> 'w \<Rightarrow> unit result \<times> 'w" where
  "s3_abort S key u w =
     (let (r, w') = sc_abort (ss_client S) (ss_bucket S) key u w in
      (case r of
         Inl e \<Rightarrow>
           if s3_no_such_upload e then Inl (Sentinel ErrMultipartUploadNotFound)
           else Inl (Wrap ''abort multipart upload'' [e])
       | Inr _ \<Rightarrow> Inr (), w'))"

subsection \<open>Listings\<close>

text \<open>All pages, or the first error.\<close>

fun all_pages :: "'a list result list \<Rightarrow> 'a list result" where
  "all_pages [] = Inr []"
| "all_pages (Inl e # ps) = Inl e"
| "all_pages (Inr xs # ps) = (case all_pages ps of Inl e \<Rightarrow> Inl e | Inr ys \<Rightarrow> Inr (xs @ ys))"

definition older :: "int option \<Rightarrow> int \<Rightarrow> bool" where
  "older t before = (case t of None \<Rightarrow> False | Some x \<Rightarrow> x < before)"

definition s3_expired_objects :: "'w s3store \<Rightarrow> int \<Rightarrow> 'w \<Rightarrow> (string list \<times> goerr option) \<times> 'w" where
  "s3_expired_objects S before w =
     (let (pages, w') = sc_objects (ss_client S) (ss_bucket S) object_prefix w in
      (case all_pages pages of
         Inl e \<Rightarrow> ([], Some (Wrap ''list objects'' [e]))
       | Inr xs \<Rightarrow> (map (\<lambda>x. to_string (lt_key x)) (filter (\<lambda>x. older (lt_modified x) before) xs), None), w'))"

definition s3_expired_uploads :: "'w s3store \<Rightarrow> int \<Rightarrow> 'w \<Rightarrow> multipart_upload list result \<times> 'w" where
  "s3_expired_uploads S before w =
     (let (pages, w') = sc_uploads (ss_client S) (ss_bucket S) w in
      (case all_pages pages of
         Inl e \<Rightarrow> Inl (Wrap ''list incomplete uploads'' [e])
       | Inr xs \<Rightarrow> Inr (map (\<lambda>x. \<lparr>mu_key = to_string (lu_key x), mu_id = to_string (lu_id x)\<rparr>)
                      (filter (\<lambda>x. older (lu_initiated x) before) xs)), w'))"

definition s3_backend :: "'w s3store \<Rightarrow> 'w backend" where
  "s3_backend S =
     \<lparr>be_open = s3_open S, be_put = s3_put S, be_delete = s3_delete S, be_presign_get = s3_presign_get S,
      be_presign_put = s3_presign_put S, be_transfer_origin = ss_origin S,
      be_begin_upload = s3_begin_upload S, be_verify = s3_verify S, be_head = s3_head S,
      be_expired_objects = s3_expired_objects S,
      be_multipart = Some \<lparr>mp_create = s3_create_multipart S, mp_presign_part = s3_presign_part S,
        mp_complete = s3_complete S, mp_abort = s3_abort S, mp_expired_uploads = s3_expired_uploads S\<rparr>\<rparr>"

end
