(* ===== verification/S3Laws.thy ===== *)
theory S3Laws
  imports S3Store Laws
begin

text \<open>
  What the S3 store guarantees over a provider that checks the checksum named on a write and
  reports the checksums of what it holds (\<open>provider_ok\<close>, the documented behaviour of S3). A bucket in
  memory, with the checks of the test fixture, shows that there is such a provider.
\<close>

subsection \<open>Checksums in base64\<close>

lemma b64_std_distinct: "distinct b64_std" "CHR ''='' \<notin> set b64_std" "length b64_std = 64"
  by code_simp+

lemma map_nth_inj:
  assumes "distinct xs" "\<forall>i \<in> set ws. i < length xs" "\<forall>i \<in> set vs. i < length xs"
    and "map (\<lambda>i. xs ! i) ws = map (\<lambda>i. xs ! i) vs"
  shows "ws = vs"
proof -
  have "inj_on (\<lambda>i. xs ! i) (set ws \<union> set vs)"
    using assms(1-3) by (auto simp: inj_on_def nth_eq_iff_index_eq)
  with assms(4) show ?thesis by (rule map_inj_on)
qed

lemma b64std_encode_inj:
  assumes "b64std_encode s = b64std_encode t"
  shows "s = t"
proof -
  let ?w = "\<lambda>s :: string. b64_sextets (map of_char s :: nat list)"
  have cut: "takeWhile (\<lambda>c. c \<noteq> CHR ''='') (b64std_encode s) = map (\<lambda>i. b64_std ! i) (?w s)" for s
  proof -
    have "\<forall>i \<in> set (?w s). i < 64" by (rule b64_sextets_bound [OF of_chars_bound])
    then have "\<forall>c \<in> set (map (\<lambda>i. b64_std ! i) (?w s)). c \<noteq> CHR ''=''"
      using b64_std_distinct(2,3) by (metis (no_types, lifting) image_iff list.set_map nth_mem)
    then show ?thesis by (simp add: b64std_encode_def takeWhile_append)
  qed
  have "map (\<lambda>i. b64_std ! i) (?w s) = map (\<lambda>i. b64_std ! i) (?w t)"
    using assms cut by metis
  then have "?w s = ?w t"
    using b64_sextets_bound [OF of_chars_bound] b64_std_distinct by (intro map_nth_inj) auto
  then have eq: "map of_char s = (map of_char t :: nat list)"
    using b64_octets_sextets [OF of_chars_bound [of s]] b64_octets_sextets [OF of_chars_bound [of t]]
    by (metis option.inject)
  have "map char_of (map of_char u :: nat list) = u" for u by (simp add: o_def)
  with eq show ?thesis by metis
qed

lemma lower_hex_val:
  assumes "lower_hex c"
  obtains n where "hex_val c = Some n" "n < 16" "hex_char n = c"
proof -
  let ?n = "of_char c :: nat"
  from assms have "48 \<le> ?n \<and> ?n \<le> 57 \<or> 97 \<le> ?n \<and> ?n \<le> 102" by (simp add: lower_hex_def Let_def)
  then show thesis
  proof
    assume n: "48 \<le> ?n \<and> ?n \<le> 57"
    then have "?n - 48 < 10" by linarith
    with n have "hex_char (?n - 48) = c" by (simp add: hex_char_def)
    moreover have "?n - 48 < 16" using n by linarith
    ultimately show thesis using that [of "?n - 48"] n by (simp add: hex_val_def Let_def)
  next
    assume n: "97 \<le> ?n \<and> ?n \<le> 102"
    then have "\<not> ?n - 87 < 10" by linarith
    with n have "hex_char (?n - 87) = c" by (simp add: hex_char_def)
    moreover have "?n - 87 < 16" using n by linarith
    ultimately show thesis using that [of "?n - 87"] n by (simp add: hex_val_def Let_def)
  qed
qed

lemma hex_encode_decode_prefix:
  "list_all lower_hex s \<Longrightarrow> even (length s) \<Longrightarrow> hex_encode (hex_decode_prefix s) = s"
proof (induction s rule: hex_decode_prefix.induct)
  case (1 a b cs)
  have h: "lower_hex a" "lower_hex b" using 1 by simp_all
  obtain x where "hex_val a = Some x" "x < 16" "hex_char x = a" by (rule lower_hex_val [OF h(1)])
  moreover obtain y where "hex_val b = Some y" "y < 16" "hex_char y = b" by (rule lower_hex_val [OF h(2)])
  ultimately show ?case using 1 by (simp add: Let_def)
qed auto

lemma digest_named:
  assumes "list_all lower_hex d" "even (length d)" "b64std_encode s = base64_digest d"
  shows "hex_encode s = d"
  using b64std_encode_inj [OF assms(3) [unfolded base64_digest_def]] hex_encode_decode_prefix [OF assms(1,2)] by simp

subsection \<open>The provider\<close>

text \<open>
  \<open>held\<close> says which bytes a bucket has under a key. A write that names a checksum is refused when the
  body has another, and has its effect or none when its response is lost; the record of an object
  carries its length and, unless it is a checksum of the parts only, true checksums or none.
\<close>

definition reports :: "string option \<Rightarrow> string \<Rightarrow> bool" where
  "reports stored h \<longleftrightarrow> to_string stored = '''' \<or> stored = Some (b64std_encode h)"

definition provider_ok :: "'w s3client \<Rightarrow> hashes \<Rightarrow> ('w \<Rightarrow> string \<times> string \<Rightarrow> string option) \<Rightarrow> bool" where
  "provider_ok K H held \<longleftrightarrow>
     (\<forall>i w res w'. sc_put K i w = (res, w') \<longrightarrow>
        (held w' = held w \<and> (\<exists>e. res = Inl e)) \<or>
        (\<exists>b. pi_body i = Some b \<and> b64std_encode (h_sha256 H b) = pi_sha256 i
           \<and> held w' = (held w)((pi_bucket i, pi_key i) := Some b)))
     \<and> (\<forall>bucket key w ob w'. sc_head K bucket key w = (Inr ob, w') \<longrightarrow>
        (\<exists>b. held w (bucket, key) = Some b \<and> ho_length ob = Some (int (length b))
           \<and> (ho_type ob = checksum_composite
              \<or> reports (ho_sha256 ob) (h_sha256 H b) \<and> reports (ho_crc64 ob) (h_crc64 H b))))"

lemma s3_judge_Inr:
  assumes "s3_judge ob c = Inr x"
  shows "to_int64 (ho_length ob) = c_size c" "ho_type ob \<noteq> checksum_composite"
    and "to_string (ho_sha256 ob) = base64_digest (c_sha256 c) \<and> to_string (ho_sha256 ob) \<noteq> ''''
      \<or> to_string (ho_crc64 ob) = base64_digest (c_crc64 c) \<and> to_string (ho_crc64 ob) \<noteq> ''''"
    and "to_string (ho_sha256 ob) \<in> {'''', base64_digest (c_sha256 c)}"
  using assms by (auto simp: s3_judge_def split: if_splits sum.splits)

lemma declared_patterns:
  assumes "validate_content c = None"
  shows "list_all lower_hex (c_sha256 c)" "even (length (c_sha256 c))"
    "list_all lower_hex (c_crc64 c)" "even (length (c_crc64 c))"
  using assms by (auto simp: validate_content_None sha256_pattern_def crc64_pattern_def)

text \<open>What a successful verification says of the bucket.\<close>

lemma verify_vouches:
  assumes "provider_ok (ss_client S) H held" "validate_content c = None" "s3_verify S key c w = (Inr x, w')"
  shows "\<exists>b. held w (ss_bucket S, key) = Some b \<and> int (length b) = c_size c
    \<and> (hex_encode (h_sha256 H b) = c_sha256 c \<or> hex_encode (h_crc64 H b) = c_crc64 c)"
proof -
  obtain ob where ob: "sc_head (ss_client S) (ss_bucket S) key w = (Inr ob, w')" "s3_judge ob c = Inr x"
    using assms(3) by (auto simp: s3_verify_def split: prod.splits sum.splits if_splits)
  note j = s3_judge_Inr [OF ob(2)]
  obtain b where b: "held w (ss_bucket S, key) = Some b" "ho_length ob = Some (int (length b))"
    "reports (ho_sha256 ob) (h_sha256 H b)" "reports (ho_crc64 ob) (h_crc64 H b)"
    using assms(1) ob(1) j(2) unfolding provider_ok_def by blast
  have "int (length b) = c_size c" using j(1) b(2) by (simp add: to_int64_def)
  moreover have "hex_encode (h_sha256 H b) = c_sha256 c \<or> hex_encode (h_crc64 H b) = c_crc64 c"
    using j(3)
  proof
    assume "to_string (ho_sha256 ob) = base64_digest (c_sha256 c) \<and> to_string (ho_sha256 ob) \<noteq> ''''"
    with b(3) have "b64std_encode (h_sha256 H b) = base64_digest (c_sha256 c)"
      by (auto simp: reports_def to_string_def)
    with declared_patterns [OF assms(2)] show ?thesis using digest_named by blast
  next
    assume "to_string (ho_crc64 ob) = base64_digest (c_crc64 c) \<and> to_string (ho_crc64 ob) \<noteq> ''''"
    with b(4) have "b64std_encode (h_crc64 H b) = base64_digest (c_crc64 c)"
      by (auto simp: reports_def to_string_def)
    with declared_patterns [OF assms(2)] show ?thesis using digest_named by blast
  qed
  ultimately show ?thesis using b(1) by blast
qed

text \<open>
  C26: \<open>verify\<close> on S3 vouches for the bytes. When it accepts a declaration, the bucket holds bytes of
  the declared size whose SHA-256 or whose CRC64NVME is the declared one, and an object whose
  provider reports a SHA-256 is accepted only with the declared SHA-256.
\<close>

theorem s3_verify_sound:
  assumes "provider_ok (ss_client S) H held" "validate_content c = None" "s3_verify S key c w = (Inr x, w')"
  shows "\<exists>b. held w (ss_bucket S, key) = Some b \<and> int (length b) = c_size c
    \<and> (hex_encode (h_sha256 H b) = c_sha256 c \<or> hex_encode (h_crc64 H b) = c_crc64 c)"
  by (rule verify_vouches [OF assms])

text \<open>
  \<open>Put\<close> on S3 stores only bytes of the declared SHA-256. Whatever the outcome, the bucket is as
  before or holds the whole body under the key, and then the body has the declared SHA-256; when
  \<open>Put\<close> succeeds it does.
\<close>

theorem s3_put_admits:
  assumes "provider_ok (ss_client S) H held" "validate_content c = None" "s3_put S key r c opts w = (res, w')"
  shows "(held w' = held w \<and> (\<exists>e. res = Inl e))
    \<or> (hex_encode (h_sha256 H (rd_bytes r)) = c_sha256 c \<and> rd_err r = None
       \<and> held w' = (held w)((ss_bucket S, key) := Some (rd_bytes r)))"
proof (cases "rd_err r")
  case None
  let ?i = "\<lparr>pi_bucket = ss_bucket S, pi_key = key, pi_body = Some (rd_bytes r), pi_length = None,
      pi_ctype = if_set (po_ctype opts), pi_sha256 = base64_digest (c_sha256 c)\<rparr>"
  obtain p where p: "sc_put (ss_client S) ?i w = (p, w')" "\<forall>e. p = Inl e \<longrightarrow> (\<exists>e'. res = Inl e')"
    using assms(3) None by (auto simp: s3_put_def read_all_def Let_def split: prod.splits sum.splits)
  have "(held w' = held w \<and> (\<exists>e. p = Inl e)) \<or> (\<exists>b. pi_body ?i = Some b
      \<and> b64std_encode (h_sha256 H b) = pi_sha256 ?i \<and> held w' = (held w)((pi_bucket ?i, pi_key ?i) := Some b))"
    using assms(1) p(1) unfolding provider_ok_def by blast
  then show ?thesis
    using p(2) None digest_named [OF declared_patterns(1,2) [OF assms(2)], of "h_sha256 H (rd_bytes r)"] by auto
qed (use assms(3) in \<open>auto simp: s3_put_def read_all_def\<close>)

subsection \<open>Multipart uploads\<close>

lemma wrap64_add: "wrap64 (wrap64 a + b) = wrap64 (a + b)"
  by (simp add: wrap64_def flip: wi_hom_add)

lemma part_sizes: "fold (\<lambda>p t. wrap64 (t + to_int64 (pt_size p))) ps (wrap64 n)
    = wrap64 (n + sum_list (map (\<lambda>p. to_int64 (pt_size p)) ps))"
  by (induction ps arbitrary: n) (simp_all add: wrap64_add add.assoc)

lemma collect_all: "collect_parts (map Inr pss) parts (wrap64 n) =
    Inr (parts @ map completed (concat pss), wrap64 (n + sum_list (map (\<lambda>p. to_int64 (pt_size p)) (concat pss))))"
  by (induction pss arbitrary: parts n) (simp_all add: part_sizes add.assoc)

lemma collect_all0: "collect_parts (map Inr pss) [] 0 =
    Inr (map completed (concat pss), wrap64 (sum_list (map (\<lambda>p. to_int64 (pt_size p)) (concat pss))))"
  using collect_all [of pss "[]" 0] wrap64_id [of 0] by (simp add: in_int64_def)

text \<open>
  C27: A multipart upload is assembled from all its parts or not at all. The parts of all pages, in
  the order of the listing, go into the completion when there is one and their sizes add up to the
  declared size; without parts the upload has not arrived, with another total the content does not
  match, and in both cases the provider is not asked to complete anything. An upload that the
  provider no longer has is reported as such.
\<close>

theorem s3_complete_all_parts:
  assumes "sc_parts (ss_client S) (ss_bucket S) key u w = (map Inr pss, w1)"
  shows "if concat pss = [] then
      (\<exists>e. s3_complete S key u n w = (Inl e, w1) \<and> errors_is e ErrObjectNotFound \<and> errors_is e ErrInvalidInput)
    else if wrap64 (sum_list (map (\<lambda>p. to_int64 (pt_size p)) (concat pss))) \<noteq> n then
      (\<exists>e. s3_complete S key u n w = (Inl e, w1) \<and> errors_is e ErrContentMismatch)
    else case sc_complete (ss_client S) (ss_bucket S) key u (map completed (concat pss)) w1 of
      (Inr _, w2) \<Rightarrow> s3_complete S key u n w = (Inr (), w2)
    | (Inl e, w2) \<Rightarrow> (\<exists>e'. s3_complete S key u n w = (Inl e', w2)
        \<and> (s3_no_such_upload e \<longrightarrow> e' = Sentinel ErrMultipartUploadNotFound))"
  by (auto simp: s3_complete_def assms collect_all0 content_mismatch_def split: prod.splits sum.splits)

subsection \<open>A bucket in memory\<close>

record bucket =
  bk_objects :: "string \<times> string \<Rightarrow> string option"
  bk_parts :: "s3part list list"

definition fixture_put :: "hashes \<Rightarrow> put_input \<Rightarrow> bucket \<Rightarrow> unit result \<times> bucket" where
  "fixture_put H i w =
     (case pi_body i of
        None \<Rightarrow> (Inl (ApiError ''IncompleteBody''), w)
      | Some b \<Rightarrow>
          if b64std_encode (h_sha256 H b) \<noteq> pi_sha256 i then (Inl (ApiError ''BadDigest''), w)
          else (Inr (), w\<lparr>bk_objects := (bk_objects w)((pi_bucket i, pi_key i) := Some b)\<rparr>))"

definition fixture_head :: "hashes \<Rightarrow> string \<Rightarrow> string \<Rightarrow> bucket \<Rightarrow> head_output result \<times> bucket" where
  "fixture_head H bucket key w =
     (case bk_objects w (bucket, key) of
        None \<Rightarrow> (Inl (ApiError ''NotFound''), w)
      | Some b \<Rightarrow> (Inr \<lparr>ho_length = Some (int (length b)), ho_type = ''FULL_OBJECT'',
                     ho_sha256 = Some (b64std_encode (h_sha256 H b)), ho_crc64 = None\<rparr>, w))"

definition fixture_get :: "get_input \<Rightarrow> bucket \<Rightarrow> reader result \<times> bucket" where
  "fixture_get i w =
     (case bk_objects w (gi_bucket i, gi_key i) of
        None \<Rightarrow> (Inl (ApiError ''NoSuchKey''), w) | Some b \<Rightarrow> (Inr (bytes_reader b), w))"

definition fixture_client :: "hashes \<Rightarrow> bucket s3client" where
  "fixture_client H =
     \<lparr>sc_get = fixture_get, sc_put = fixture_put H,
      sc_delete = (\<lambda>b k w. (Inr (), w\<lparr>bk_objects := (bk_objects w)((b, k) := None)\<rparr>)),
      sc_head = fixture_head H, sc_create = (\<lambda>b k w. (Inr (Some ''u''), w)),
      sc_parts = (\<lambda>b k u w. (map Inr (bk_parts w), w)), sc_complete = (\<lambda>b k u ps w. (Inr (), w)),
      sc_abort = (\<lambda>b k u w. (Inl (ApiError ''NoSuchUpload''), w)),
      sc_objects = (\<lambda>b p w. ([], w)), sc_uploads = (\<lambda>b w. ([], w)),
      sc_sign_get = (\<lambda>i t w. (Inr \<lparr>sg_url = ''https://s3/get'', sg_headers = []\<rparr>, w)),
      sc_sign_put = (\<lambda>i t w. (Inr \<lparr>sg_url = ''https://s3/put'', sg_headers = [(''Host'', [''s3'']),
        (''X-Amz-Checksum-Sha256'', [pi_sha256 i])]\<rparr>, w)),
      sc_sign_part = (\<lambda>i t w. (Inr \<lparr>sg_url = ''https://s3/part'', sg_headers = []\<rparr>, w))\<rparr>"

definition fixture_store :: "bucket s3store" where
  "fixture_store = \<lparr>ss_bucket = ''b'', ss_origin = ''https://s3'', ss_ttl = 60000000000,
     ss_client = fixture_client demo_hashes\<rparr>"

definition fixture_bucket :: bucket where
  "fixture_bucket = \<lparr>bk_objects = (\<lambda>k. if k = (''b'', ''_objects/1/f.txt'') then Some ''x'' else None), bk_parts =
     [[\<lparr>pt_number = Some 1, pt_size = Some 5, pt_etag = Some ''a'', pt_crc64 = None\<rparr>],
      [\<lparr>pt_number = Some 2, pt_size = Some 3, pt_etag = Some ''b'', pt_crc64 = None\<rparr>]]\<rparr>"

lemma fixture_ok: "provider_ok (fixture_client H) H bk_objects"
  by (auto simp: provider_ok_def fixture_client_def fixture_put_def fixture_head_def reports_def to_string_def
      split: option.splits if_splits)

lemma fixture_store_ok: "provider_ok (ss_client fixture_store) demo_hashes bk_objects"
  by (simp add: fixture_store_def fixture_ok)

lemma demo_content_valid: "validate_content demo_content = None"
  by code_simp

theorem s3_verify_sound_witness:
  "fst (s3_verify fixture_store ''_objects/1/f.txt'' demo_content fixture_bucket) = Inr ()
   \<and> (\<exists>b. bk_objects fixture_bucket (''b'', ''_objects/1/f.txt'') = Some b \<and> int (length b) = c_size demo_content)"
proof -
  let ?v = "s3_verify fixture_store ''_objects/1/f.txt'' demo_content fixture_bucket"
  have "fst ?v = Inr ()" by code_simp
  then obtain w' where v: "?v = (Inr (), w')" by (metis prod.collapse)
  from s3_verify_sound [OF fixture_store_ok demo_content_valid v] v show ?thesis
    by (auto simp: fixture_store_def)
qed

theorem s3_put_admits_witness:
  "\<exists>w'. s3_put fixture_store ''k'' (bytes_reader ''x'') demo_content \<lparr>po_ctype = ''''\<rparr> fixture_bucket = (Inr (), w')
     \<and> bk_objects w' (''b'', ''k'') = Some ''x''"
proof -
  let ?p = "s3_put fixture_store ''k'' (bytes_reader ''x'') demo_content \<lparr>po_ctype = ''''\<rparr> fixture_bucket"
  have "fst ?p = Inr ()" by code_simp
  then obtain w' where p: "?p = (Inr (), w')" by (metis prod.collapse)
  from s3_put_admits [OF fixture_store_ok demo_content_valid p] p show ?thesis
    by (auto simp: fixture_store_def bytes_reader_def)
qed

theorem s3_complete_all_parts_witness:
  "s3_complete fixture_store ''k'' ''u'' 8 fixture_bucket = (Inr (), fixture_bucket)
   \<and> (\<exists>e. s3_complete fixture_store ''k'' ''u'' 9 fixture_bucket = (Inl e, fixture_bucket) \<and> errors_is e ErrContentMismatch)"
proof -
  have p: "sc_parts (ss_client fixture_store) (ss_bucket fixture_store) ''k'' ''u'' fixture_bucket
      = (map Inr (bk_parts fixture_bucket), fixture_bucket)"
    by (simp add: fixture_store_def fixture_client_def)
  have "wrap64 8 = 8" by (rule wrap64_id) (simp add: in_int64_def)
  then show ?thesis
    using s3_complete_all_parts [OF p, of 8] s3_complete_all_parts [OF p, of 9]
    by (simp add: fixture_bucket_def to_int64_def fixture_store_def fixture_client_def)
qed

subsection \<open>Uploads through the service\<close>

text \<open>
  What an upload to S3 is bound to. Above 100 MiB \<open>beginUpload\<close> selects a multipart upload and signs
  nothing; otherwise it signs a PUT for the declared length and SHA-256 and the configured lifetime, and
  the target carries every signed header but those that the HTTP client sets itself.
\<close>

theorem s3_begin_binds:
  "if c_size c > 100 * 1024 * 1024
   then s3_begin_upload S key c w = (Inr \<lparr>ua_strategy = StrategyMultipart, ua_target = None\<rparr>, w)
   else case sc_sign_put (ss_client S) \<lparr>pi_bucket = ss_bucket S, pi_key = key, pi_body = None,
          pi_length = Some (c_size c), pi_ctype = None, pi_sha256 = base64_digest (c_sha256 c)\<rparr>
          (ss_ttl S) w of
     (Inl e, w') \<Rightarrow> (\<exists>e'. s3_begin_upload S key c w = (Inl e', w'))
   | (Inr sg, w') \<Rightarrow> (\<exists>t. s3_begin_upload S key c w = (Inr \<lparr>ua_strategy = StrategyDirectPut, ua_target = Some t\<rparr>, w')
       \<and> ut_url t = sg_url sg \<and> ut_method t = ''PUT''
       \<and> set (ut_headers t) = {(k, hd vs) | k vs. (k, vs) \<in> set (sg_headers sg) \<and> vs \<noteq> [] \<and> k \<notin> {''Host'', ''Content-Length''}})"
proof -
  have hs: "set (upload_headers hs) = {(k, hd vs) | k vs. (k, vs) \<in> set hs \<and> vs \<noteq> [] \<and> k \<notin> {''Host'', ''Content-Length''}}" for hs
    by (force simp: upload_headers_def List.map_filter_def image_iff split: if_splits)
  show ?thesis
    by (auto simp: s3_begin_upload_def s3_presign_put_def s3_threshold_def s3_expires_def ttl_or_default_def
        signed_target_def hs split: prod.splits sum.splits)
qed

subsection \<open>The end of an upload\<close>

text \<open>
  C25: A claimed upload cannot arrive any more. The row of an upload is touched before each of its URLs is
  signed. When \<open>ClaimExpiredPending\<close> may claim the row, every URL that was signed up to an hour after
  the last touch (for a lifetime below 24 hours, up to 24 hours less the lifetime after it) has
  expired: strictly before the claim for the file store's capabilities, which its endpoint then
  refuses, and for what is presigned on S3, single requests and parts. No lifetime up to the largest
  duration less an hour overflows.
\<close>

theorem abandoned_after_expiry:
  assumes "0 < ttl" "ttl \<le> 2 ^ 63 - 1 - hour" "fc_ttl F = ttl" "ss_ttl T = ttl"
    and "claimable (now - pending_upload_max_age ttl) retry r" "ro_expired r = None"
    and "issued \<le> ob_updated r + (if 24 * hour \<le> ttl then hour else 24 * hour - ttl)"
  shows "issued + file_expires F 0 < now \<and> cl_exp (put_claims F k c 0 issued) \<le> unix_seconds now
    \<and> issued + s3_expires T 0 < now"
proof -
  have age: "pending_upload_max_age ttl = ttl + (if 24 * hour \<le> ttl then hour else 24 * hour - ttl)"
  proof (cases "24 * hour \<le> ttl")
    case True
    have "wrap64 (ttl + hour) = ttl + hour"
      by (rule wrap64_id) (use assms(1,2) in \<open>simp add: in_int64_def hour_def\<close>)
    with True show ?thesis by (simp add: pending_upload_max_age_def min_pending_age_def)
  qed (simp add: pending_upload_max_age_def min_pending_age_def)
  have "ob_updated r < now - pending_upload_max_age ttl" using assms(5,6) by (simp add: claimable_def)
  with assms(7) age have gone: "issued + ttl < now" by linarith
  then have "unix_seconds (issued + ttl) \<le> unix_seconds now"
    unfolding unix_seconds_def by (intro zdiv_mono1) simp_all
  with gone show ?thesis
    using assms(1,3,4) by (simp add: put_claims_def file_expires_def s3_expires_def ttl_or_default_def)
qed

theorem abandoned_after_expiry_witness:
  "\<exists>r. claimable (7 + 25 * hour - pending_upload_max_age 60000000000) 0 r \<and> ob_updated r = 7
     \<and> cl_exp (put_claims demo_conf ''_objects/1/f.txt'' demo_content 0 (7 + 23 * hour)) \<le> unix_seconds (7 + 25 * hour)
     \<and> 7 + 23 * hour + s3_expires fixture_store 0 < 7 + 25 * hour"
proof -
  let ?r = "demo_row\<lparr>ob_available_at := None\<rparr>"
  have t: "(0 :: int) < 60000000000" "(60000000000 :: int) \<le> 2 ^ 63 - 1 - hour" by (simp_all add: hour_def)
  have r: "claimable (7 + 25 * hour - pending_upload_max_age 60000000000) 0 ?r" "ro_expired ?r = None" "ob_updated ?r = 7"
    by (simp_all add: claimable_def demo_row_def pending_upload_max_age_def min_pending_age_def hour_def)
  have i: "7 + 23 * hour \<le> ob_updated ?r + (if 24 * hour \<le> 60000000000 then hour else 24 * hour - 60000000000)"
    by (simp add: demo_row_def hour_def)
  have s: "fc_ttl demo_conf = 60000000000" "ss_ttl fixture_store = 60000000000"
    by (simp_all add: demo_conf_def fixture_store_def)
  from abandoned_after_expiry [OF t s r(1,2) i, of "''_objects/1/f.txt''" demo_content] r show ?thesis by blast
qed

end
