(* ===== verification/S3Lifecycle.thy ===== *)
theory S3Lifecycle
  imports S3Laws
begin

text \<open>
  The service on the PostgreSQL registry and an S3 bucket: the documented behaviour of the bucket as
  a named hypothesis (\<open>bucket_ok\<close>), the safety theory for this pair of stores, with multipart uploads
  and the redemption of signed requests, and the reachable states of the system.
\<close>

subsection \<open>The bucket\<close>

text \<open>
  What is observed of the provider's world: the bytes under every key of every bucket, the multipart
  uploads that are open there, and the IDs of uploads that were ever given out.
\<close>

record 'w bucket_view =
  bv_held :: "'w \<Rightarrow> string \<times> string \<Rightarrow> string option"
  bv_open :: "'w \<Rightarrow> string \<times> string \<Rightarrow> string set"
  bv_issued :: "'w \<Rightarrow> string set"

definition uploads_kept :: "'w bucket_view \<Rightarrow> 'w \<Rightarrow> 'w \<Rightarrow> bool" where
  "uploads_kept v w w' \<longleftrightarrow> bv_issued v w \<subseteq> bv_issued v w'
     \<and> (\<forall>k u. u \<in> bv_issued v w \<longrightarrow> u \<notin> bv_open v w k \<longrightarrow> u \<notin> bv_open v w' k)"

text \<open>A call that stores and removes nothing.\<close>

definition quiet_call :: "'w bucket_view \<Rightarrow> ('w \<Rightarrow> 'a \<times> 'w) \<Rightarrow> bool" where
  "quiet_call v g \<longleftrightarrow> (\<forall>w r w'. g w = (r, w') \<longrightarrow> bv_held v w' = bv_held v w \<and> uploads_kept v w w')"

definition reads_only :: "'w s3client \<Rightarrow> 'w bucket_view \<Rightarrow> bool" where
  "reads_only A v \<longleftrightarrow>
     (\<forall>i. quiet_call v (sc_get A i)) \<and> (\<forall>b k. quiet_call v (sc_head A b k))
     \<and> (\<forall>i t. quiet_call v (sc_sign_get A i t)) \<and> (\<forall>i t. quiet_call v (sc_sign_put A i t))
     \<and> (\<forall>i t. quiet_call v (sc_sign_part A i t)) \<and> (\<forall>b k u. quiet_call v (sc_parts A b k u))
     \<and> (\<forall>b k u. quiet_call v (sc_abort A b k u)) \<and> (\<forall>b p. quiet_call v (sc_objects A b p))
     \<and> (\<forall>b. quiet_call v (sc_uploads A b)) \<and> (\<forall>b k. quiet_call v (sc_create A b k))"

text \<open>Reads return bytes that the bucket holds, and the listing names objects that it holds.\<close>

definition reads_held :: "'w s3client \<Rightarrow> 'w bucket_view \<Rightarrow> bool" where
  "reads_held A v \<longleftrightarrow> (\<forall>i w rd w'. sc_get A i w = (Inr rd, w') \<longrightarrow> gi_range i = None \<longrightarrow>
     (\<exists>x. bv_held v w (gi_bucket i, gi_key i) = Some x \<and> prefix (rd_bytes rd) x
        \<and> (rd_err rd = None \<longrightarrow> rd_bytes rd = x)))"

definition lists_held :: "'w s3client \<Rightarrow> 'w bucket_view \<Rightarrow> bool" where
  "lists_held A v \<longleftrightarrow> (\<forall>b p w pages w' xs x. sc_objects A b p w = (pages, w') \<longrightarrow> Inr xs \<in> set pages \<longrightarrow>
     x \<in> set xs \<longrightarrow> (\<exists>k. lt_key x = Some k \<and> bv_held v w (b, k) \<noteq> None))"

text \<open>A deletion removes at most the object that it names.\<close>

definition deletes_named :: "'w s3client \<Rightarrow> 'w bucket_view \<Rightarrow> bool" where
  "deletes_named A v \<longleftrightarrow> (\<forall>b k w r w'. sc_delete A b k w = (r, w') \<longrightarrow> uploads_kept v w w'
     \<and> (bv_held v w' = (bv_held v w)((b, k) := None) \<or> bv_held v w' = bv_held v w \<and> (\<exists>e. r = Inl e)))"

text \<open>
  An upload that was given out and is not open stays so. Its completion stores at most what the open
  upload has, under the key that it names, and closes it.
\<close>

definition uploads_ok :: "'w s3client \<Rightarrow> 'w bucket_view \<Rightarrow> bool" where
  "uploads_ok A v \<longleftrightarrow>
     (\<forall>i w r w'. sc_put A i w = (r, w') \<longrightarrow> uploads_kept v w w')
     \<and> (\<forall>b k w u w'. sc_create A b k w = (Inr (Some u), w') \<longrightarrow> u \<in> bv_issued v w')
     \<and> (\<forall>b k u ps w r w'. sc_complete A b k u ps w = (r, w') \<longrightarrow> uploads_kept v w w'
          \<and> (bv_held v w' = bv_held v w
             \<or> (\<exists>x. u \<in> bv_open v w (b, k) \<and> u \<notin> bv_open v w' (b, k)
                  \<and> bv_held v w' = (bv_held v w)((b, k) := Some x))))"

definition bucket_ok :: "'w s3client \<Rightarrow> hashes \<Rightarrow> 'w bucket_view \<Rightarrow> bool" where
  "bucket_ok A H v \<longleftrightarrow> provider_ok A H (bv_held v) \<and> reads_only A v \<and> reads_held A v \<and> lists_held A v
     \<and> deletes_named A v \<and> uploads_ok A v"

subsection \<open>The store over the bucket\<close>

definition s3_stored :: "'w bucket_view \<Rightarrow> 'w s3store \<Rightarrow> 'w \<Rightarrow> string \<rightharpoonup> string" where
  "s3_stored v T w k = bv_held v w (ss_bucket T, k)"

definition s3_open_at :: "'w bucket_view \<Rightarrow> 'w s3store \<Rightarrow> 'w \<Rightarrow> string \<Rightarrow> string set" where
  "s3_open_at v T w k = bv_open v w (ss_bucket T, k)"

text \<open>
  What the store vouches for: the size, and the SHA-256 of what it signed or sent in one piece; an
  object large enough for a multipart upload may have the declared CRC64NVME instead.
\<close>

definition s3_multi :: "content \<Rightarrow> bool" where
  "s3_multi c \<longleftrightarrow> c_size c > s3_threshold"

definition s3_fits :: "hashes \<Rightarrow> content \<Rightarrow> string \<Rightarrow> bool" where
  "s3_fits H c b \<longleftrightarrow> int (length b) = c_size c
     \<and> (hex_encode (h_sha256 H b) = c_sha256 c \<or> s3_multi c \<and> hex_encode (h_crc64 H b) = c_crc64 c)"

lemma uploads_kept_step:
  "uploads_kept v w w' \<Longrightarrow> uploads_step (s3_open_at v T) (bv_issued v) w w'"
  by (auto simp: uploads_kept_def uploads_step_def s3_open_at_def)

lemma uploads_kept_refl [simp]: "uploads_kept v w w"
  by (simp add: uploads_kept_def)

lemma uploads_kept_trans: "uploads_kept v w x \<Longrightarrow> uploads_kept v x y \<Longrightarrow> uploads_kept v w y"
  unfolding uploads_kept_def by blast

lemma s3_stored_cong: "bv_held v w' = bv_held v w \<Longrightarrow> s3_stored v T w' = s3_stored v T w"
  by (simp add: s3_stored_def fun_eq_iff)

lemma s3_stored_upd:
  "bv_held v w' = (bv_held v w)((ss_bucket T, k) := y) \<Longrightarrow> s3_stored v T w' = (s3_stored v T w)(k := y)"
  by (simp add: s3_stored_def fun_eq_iff)

lemma quiet_callD:
  "quiet_call v g \<Longrightarrow> g w = (r, w') \<Longrightarrow> bv_held v w' = bv_held v w \<and> uploads_kept v w w'"
  by (auto simp: quiet_call_def)

text \<open>The calls of the client that the store's operations make.\<close>

lemma bucket_quiet:
  assumes "bucket_ok A H v"
  shows "quiet_call v (sc_get A i)" "quiet_call v (sc_head A b k)" "quiet_call v (sc_sign_get A i t)"
    "quiet_call v (sc_sign_put A j t)" "quiet_call v (sc_sign_part A p t)" "quiet_call v (sc_parts A b k u)"
    "quiet_call v (sc_abort A b k u)" "quiet_call v (sc_objects A b q)" "quiet_call v (sc_uploads A b)"
    "quiet_call v (sc_create A b k)"
  using assms by (simp_all add: bucket_ok_def reads_only_def)

lemma bucket_provider: "bucket_ok A H v \<Longrightarrow> provider_ok A H (bv_held v)"
  by (simp add: bucket_ok_def)

lemma bucket_put: "bucket_ok A H v \<Longrightarrow> sc_put A i w = (r, w') \<Longrightarrow> uploads_kept v w w'"
  unfolding bucket_ok_def uploads_ok_def by blast

lemma bucket_delete:
  "bucket_ok A H v \<Longrightarrow> sc_delete A b k w = (r, w') \<Longrightarrow> uploads_kept v w w'
     \<and> (bv_held v w' = (bv_held v w)((b, k) := None) \<or> bv_held v w' = bv_held v w \<and> (\<exists>e. r = Inl e))"
  unfolding bucket_ok_def deletes_named_def by blast

lemma bucket_create: "bucket_ok A H v \<Longrightarrow> sc_create A b k w = (Inr (Some u), w') \<Longrightarrow> u \<in> bv_issued v w'"
  unfolding bucket_ok_def uploads_ok_def by blast

lemma bucket_get:
  "bucket_ok A H v \<Longrightarrow> sc_get A i w = (Inr rd, w') \<Longrightarrow> gi_range i = None \<Longrightarrow>
     \<exists>x. bv_held v w (gi_bucket i, gi_key i) = Some x \<and> prefix (rd_bytes rd) x \<and> (rd_err rd = None \<longrightarrow> rd_bytes rd = x)"
  unfolding bucket_ok_def reads_held_def by blast

lemma bucket_complete:
  "bucket_ok A H v \<Longrightarrow> sc_complete A b k u ps w = (r, w') \<Longrightarrow> uploads_kept v w w'
     \<and> (bv_held v w' = bv_held v w
        \<or> (\<exists>x. u \<in> bv_open v w (b, k) \<and> u \<notin> bv_open v w' (b, k) \<and> bv_held v w' = (bv_held v w)((b, k) := Some x)))"
  unfolding bucket_ok_def uploads_ok_def by blast

lemma bucket_list:
  "bucket_ok A H v \<Longrightarrow> sc_objects A b p w = (pages, w') \<Longrightarrow> Inr xs \<in> set pages \<Longrightarrow> x \<in> set xs \<Longrightarrow>
     \<exists>k. lt_key x = Some k \<and> bv_held v w (b, k) \<noteq> None"
  unfolding bucket_ok_def lists_held_def by blast

subsection \<open>Operations that store nothing\<close>

lemma quiet_then:
  assumes "quiet_call v g" and "\<And>w. f w = (let (r, w') = g w in (F r, w'))"
  shows "quiet_call v f"
  unfolding quiet_call_def
proof (intro allI impI)
  fix w r w'
  assume "f w = (r, w')"
  then obtain x where "g w = (x, w')" using assms(2) [of w] by (auto split: prod.splits)
  with assms(1) show "bv_held v w' = bv_held v w \<and> uploads_kept v w w'" by (rule quiet_callD)
qed

lemma s3_quiet:
  assumes "bucket_ok (ss_client T) H v"
  shows "quiet_call v (s3_open T k)" "quiet_call v (s3_head T k n)" "quiet_call v (s3_verify T k c)"
    "quiet_call v (s3_presign_get T k ttl opts)" "quiet_call v (s3_presign_put T k c ttl)"
    "quiet_call v (s3_presign_part T k u part crc ttl)" "quiet_call v (s3_create_multipart T k)"
    "quiet_call v (s3_abort T k u)" "quiet_call v (s3_expired_objects T before)"
    "quiet_call v (s3_expired_uploads T before)"
proof -
  note q = bucket_quiet [OF assms]
  show "quiet_call v (s3_open T k)" by (rule quiet_then [OF q(1)], rule s3_open_def)
  show "quiet_call v (s3_head T k n)" by (rule quiet_then [OF q(1)], rule s3_head_def)
  show "quiet_call v (s3_verify T k c)" by (rule quiet_then [OF q(2)], rule s3_verify_def)
  show "quiet_call v (s3_presign_get T k ttl opts)" by (rule quiet_then [OF q(3)], rule s3_presign_get_def)
  show "quiet_call v (s3_presign_put T k c ttl)" by (rule quiet_then [OF q(4)], rule s3_presign_put_def)
  show "quiet_call v (s3_presign_part T k u part crc ttl)" by (rule quiet_then [OF q(5)], rule s3_presign_part_def)
  show "quiet_call v (s3_create_multipart T k)" by (rule quiet_then [OF q(10)], rule s3_create_multipart_def)
  show "quiet_call v (s3_abort T k u)" by (rule quiet_then [OF q(7)], rule s3_abort_def)
  show "quiet_call v (s3_expired_objects T before)" by (rule quiet_then [OF q(8)], rule s3_expired_objects_def)
  show "quiet_call v (s3_expired_uploads T before)" by (rule quiet_then [OF q(9)], rule s3_expired_uploads_def)
qed

lemma s3_begin_quiet:
  assumes "bucket_ok (ss_client T) H v"
  shows "quiet_call v (s3_begin_upload T k c)"
  unfolding quiet_call_def
proof (intro allI impI)
  fix w r w'
  assume "s3_begin_upload T k c w = (r, w')"
  then consider "w' = w" | q where "s3_presign_put T k c 0 w = (q, w')"
    by (auto simp: s3_begin_upload_def split: if_splits prod.splits)
  then show "bv_held v w' = bv_held v w \<and> uploads_kept v w w'"
    by cases (auto dest: quiet_callD [OF s3_quiet(5) [OF assms]])
qed

subsection \<open>The contract of the store\<close>

lemma quiet_laws:
  assumes "quiet_call v g"
  shows "g w = (r, w') \<Longrightarrow> s3_stored v T w' = s3_stored v T w \<and> True"
    and "keeps_closed (\<lambda>w. True) (s3_open_at v T) (bv_issued v) g"
proof -
  show "s3_stored v T w' = s3_stored v T w \<and> True" if "g w = (r, w')"
    using s3_stored_cong [OF conjunct1 [OF quiet_callD [OF assms that]]] by simp
  have "uploads_kept v w (snd (g w))" for w using quiet_callD [OF assms, of w "fst (g w)" "snd (g w)"] by simp
  then show "keeps_closed (\<lambda>w. True) (s3_open_at v T) (bv_issued v) g"
    by (simp add: keeps_closed_def uploads_kept_step)
qed

lemma s3_put_law:
  assumes ok: "bucket_ok (ss_client T) H v" and c: "validate_content c = None"
    and run: "s3_put T k r c opts w = (res, w')"
  shows "(s3_stored v T w' = s3_stored v T w \<and> (\<exists>e. res = Inl e))
      \<or> s3_stored v T w' = (s3_stored v T w)(k \<mapsto> rd_bytes r)"
proof -
  from s3_put_admits [OF bucket_provider [OF ok] c run]
  consider "bv_held v w' = bv_held v w \<and> (\<exists>e. res = Inl e)"
    | "bv_held v w' = (bv_held v w)((ss_bucket T, k) := Some (rd_bytes r))" by blast
  then show "(s3_stored v T w' = s3_stored v T w \<and> (\<exists>e. res = Inl e))
      \<or> s3_stored v T w' = (s3_stored v T w)(k \<mapsto> rd_bytes r)"
    by cases (auto dest: s3_stored_cong s3_stored_upd)
qed

lemma s3_put_kept: "bucket_ok (ss_client T) H v \<Longrightarrow> s3_put T k r c opts w = (res, w') \<Longrightarrow> uploads_kept v w w'"
  by (auto simp: s3_put_def split: sum.splits prod.splits dest: bucket_put)

lemma s3_delete_law:
  assumes ok: "bucket_ok (ss_client T) H v" and run: "s3_delete T k w = (res, w')"
  shows "s3_stored v T w' = (s3_stored v T w)(k := None) \<or> s3_stored v T w' = s3_stored v T w \<and> (\<exists>e. res = Inl e)"
    and "uploads_kept v w w'"
proof -
  obtain r where d: "sc_delete (ss_client T) (ss_bucket T) k w = (r, w')" "\<forall>e. r = Inl e \<longrightarrow> (\<exists>e'. res = Inl e')"
    using run by (auto simp: s3_delete_def split: prod.splits sum.splits)
  note e = bucket_delete [OF ok d(1)]
  show "uploads_kept v w w'" using e by blast
  show "s3_stored v T w' = (s3_stored v T w)(k := None) \<or> s3_stored v T w' = s3_stored v T w \<and> (\<exists>e. res = Inl e)"
    using e d(2) s3_stored_cong [of v w' w T] s3_stored_upd [of v w' w T k None] by metis
qed

lemma s3_open_law:
  assumes ok: "bucket_ok (ss_client T) H v" and run: "s3_open T k w = (Inr rd, w')"
  shows "\<exists>b. s3_stored v T w k = Some b \<and> prefix (rd_bytes rd) b \<and> (rd_err rd = None \<longrightarrow> rd_bytes rd = b)"
proof -
  have "sc_get (ss_client T) (object_input T k) w = (Inr rd, w')"
    using run by (auto simp: s3_open_def split: prod.splits sum.splits if_splits)
  from bucket_get [OF ok this] show ?thesis by (simp add: object_input_def s3_stored_def)
qed

lemma s3_verify_size:
  assumes ok: "bucket_ok (ss_client T) H v" and run: "s3_verify T k c w = (Inr x, w')"
  shows "\<exists>b. s3_stored v T w k = Some b \<and> int (length b) = c_size c"
proof -
  obtain ob where ob: "sc_head (ss_client T) (ss_bucket T) k w = (Inr ob, w')" "s3_judge ob c = Inr x"
    using run by (auto simp: s3_verify_def split: prod.splits sum.splits if_splits)
  from bucket_provider [OF ok] ob(1) obtain b where "bv_held v w (ss_bucket T, k) = Some b"
    "ho_length ob = Some (int (length b))"
    unfolding provider_ok_def by blast
  with s3_judge_Inr(1) [OF ob(2)] show ?thesis by (auto simp: s3_stored_def to_int64_def)
qed

lemma all_pages_Inr: "all_pages ps = Inr xs \<Longrightarrow> x \<in> set xs \<Longrightarrow> \<exists>ys. Inr ys \<in> set ps \<and> x \<in> set ys"
proof (induction ps arbitrary: xs rule: all_pages.induct)
  case (3 ys ps)
  then obtain zs where "all_pages ps = Inr zs" "xs = ys @ zs" by (auto split: sum.splits)
  with 3 show ?case by fastforce
qed auto

lemma s3_list_law:
  assumes ok: "bucket_ok (ss_client T) H v" and run: "s3_expired_objects T before w = ((ks, err), w')" and k: "k \<in> set ks"
  shows "s3_stored v T w k \<noteq> None"
proof -
  obtain pages where p: "sc_objects (ss_client T) (ss_bucket T) object_prefix w = (pages, w')"
    and e: "(case all_pages pages of
         Inl e \<Rightarrow> ([], Some (Wrap ''list objects'' [e]))
       | Inr xs \<Rightarrow> (map (\<lambda>x. to_string (lt_key x)) (filter (\<lambda>x. older (lt_modified x) before) xs), None)) = (ks, err)"
    using run by (auto simp: s3_expired_objects_def split: prod.splits)
  from e k obtain xs x where x: "all_pages pages = Inr xs" "x \<in> set xs" "k = to_string (lt_key x)"
    by (auto split: sum.splits)
  from all_pages_Inr [OF x(1,2)] obtain ys where "Inr ys \<in> set pages" "x \<in> set ys" by blast
  from bucket_list [OF ok p this] x(3) show ?thesis by (auto simp: s3_stored_def to_string_def)
qed

lemma s3_create_law:
  assumes ok: "bucket_ok (ss_client T) H v" and run: "s3_create_multipart T k w = (Inr u, w')"
  shows "u \<in> bv_issued v w'"
proof -
  obtain r where "sc_create (ss_client T) (ss_bucket T) k w = (Inr (Some u), w')"
    using run by (auto simp: s3_create_multipart_def to_string_def split: prod.splits sum.splits if_splits option.splits)
  from bucket_create [OF ok this] show ?thesis .
qed

lemma s3_complete_law:
  assumes ok: "bucket_ok (ss_client T) H v" and u: "u \<in> bv_issued v w" and run: "s3_complete T k u n w = (res, w')"
  shows "uploads_kept v w w' \<and> (s3_stored v T w' = s3_stored v T w
      \<or> (\<exists>b. u \<in> s3_open_at v T w k \<and> u \<notin> s3_open_at v T w' k \<and> s3_stored v T w' = (s3_stored v T w)(k \<mapsto> b)))"
proof -
  obtain pages w1 where p: "sc_parts (ss_client T) (ss_bucket T) k u w = (pages, w1)" by fastforce
  note q = quiet_callD [OF bucket_quiet(6) [OF ok] p]
  from run p consider "w' = w1"
    | parts r where "sc_complete (ss_client T) (ss_bucket T) k u parts w1 = (r, w')"
    by (auto simp: s3_complete_def split: sum.splits prod.splits if_splits)
  then show ?thesis
  proof cases
    case 1
    show ?thesis unfolding 1 using s3_stored_cong [OF conjunct1 [OF q]] q by blast
  next
    case (2 parts r)
    note e = bucket_complete [OF ok 2]
    have kept: "uploads_kept v w w'" by (rule uploads_kept_trans [OF conjunct2 [OF q] conjunct1 [OF e]])
    have w1: "s3_stored v T w1 = s3_stored v T w" by (rule s3_stored_cong [OF conjunct1 [OF q]])
    have op: "u \<in> bv_open v w (ss_bucket T, k)" if "u \<in> bv_open v w1 (ss_bucket T, k)"
      using that conjunct2 [OF q] u by (auto simp: uploads_kept_def)
    from e consider "bv_held v w' = bv_held v w1"
      | x where "u \<in> bv_open v w1 (ss_bucket T, k)" "u \<notin> bv_open v w' (ss_bucket T, k)"
          "bv_held v w' = (bv_held v w1)((ss_bucket T, k) := Some x)" by blast
    then show ?thesis
    proof cases
      case 1
      from s3_stored_cong [OF this] kept w1 show ?thesis by simp
    next
      case (2 x)
      have "s3_stored v T w' = (s3_stored v T w)(k \<mapsto> x)" using s3_stored_upd [OF 2(3)] w1 by simp
      with kept 2 op show ?thesis by (auto simp: s3_open_at_def)
    qed
  qed
qed

lemma s3_complete_kept:
  assumes ok: "bucket_ok (ss_client T) H v" and run: "s3_complete T k u n w = (res, w')"
  shows "uploads_kept v w w'"
proof -
  obtain pages w1 where p: "sc_parts (ss_client T) (ss_bucket T) k u w = (pages, w1)" by fastforce
  have q: "uploads_kept v w w1" using quiet_callD [OF bucket_quiet(6) [OF ok] p] by blast
  from run p consider "w' = w1"
    | parts r where "sc_complete (ss_client T) (ss_bucket T) k u parts w1 = (r, w')"
    by (auto simp: s3_complete_def split: sum.splits prod.splits if_splits)
  then show ?thesis
    by cases (use q in \<open>auto dest: bucket_complete [OF ok] intro: uploads_kept_trans\<close>)
qed

lemma s3_ops:
  "be_open (s3_backend T) = s3_open T" "be_put (s3_backend T) = s3_put T" "be_delete (s3_backend T) = s3_delete T"
  "be_presign_get (s3_backend T) = s3_presign_get T" "be_presign_put (s3_backend T) = s3_presign_put T"
  "be_begin_upload (s3_backend T) = s3_begin_upload T" "be_verify (s3_backend T) = s3_verify T"
  "be_head (s3_backend T) = s3_head T" "be_expired_objects (s3_backend T) = s3_expired_objects T"
  by (simp_all add: s3_backend_def)

lemma s3_mp:
  assumes "be_multipart (s3_backend T) = Some m"
  shows "mp_create m = s3_create_multipart T" "mp_presign_part m = s3_presign_part T" "mp_complete m = s3_complete T"
    "mp_abort m = s3_abort T" "mp_expired_uploads m = s3_expired_uploads T"
  using assms by (auto simp: s3_backend_def)

lemma keeps_closedI:
  "(\<And>w r w'. g w = (r, w') \<Longrightarrow> uploads_kept v w w') \<Longrightarrow> keeps_closed (\<lambda>w. True) (s3_open_at v T) (bv_issued v) g"
  unfolding keeps_closed_def by (metis uploads_kept_step prod.collapse)

lemma s3_backend_contract:
  assumes ok: "bucket_ok (ss_client T) H v"
  shows "backend_contract (s3_backend T) H (s3_stored v T) (\<lambda>w. True) (s3_fits H)"
proof (unfold_locales, unfold s3_ops)
  fix w w' v' v'' :: 'a and k r c opts res x t ks err rh ro ra ttl rt gopts ru n rl rd b
  show "matches H c b \<Longrightarrow> s3_fits H c b" by (simp add: s3_fits_def matches_def)
  show "s3_stored v T w' = s3_stored v T w \<or> (\<exists>b. s3_fits H c b \<and> s3_stored v T w' = (s3_stored v T w)(k \<mapsto> b))"
    if "validate_content c = None" "matches H c (rd_bytes r)" "s3_put T k r c opts w = (res, w')"
    using s3_put_law [OF ok that(1,3)] that(2) by (auto simp: s3_fits_def matches_def)
  show "s3_stored v T w' = (s3_stored v T w)(k \<mapsto> rd_bytes r)"
    if "validate_content c = None" "s3_put T k r c opts w = (Inr x, w')"
    using s3_put_law [OF ok that] by simp
  show "s3_delete T k w = (res, w') \<Longrightarrow> s3_stored v T w' = s3_stored v T w \<or> s3_stored v T w' = (s3_stored v T w)(k := None)"
    using s3_delete_law(1) [OF ok] by blast
  show "s3_delete T k v' = (res, v'') \<Longrightarrow> s3_stored v T v'' = s3_stored v T v' \<or> s3_stored v T v'' = (s3_stored v T v')(k := None)"
    using s3_delete_law(1) [OF ok] by blast
  show "s3_delete T k w = (Inr x, w') \<Longrightarrow> s3_stored v T w' = (s3_stored v T w)(k := None)"
    using s3_delete_law(1) [OF ok] by blast
  show "s3_verify T k c w = (Inr x, w') \<Longrightarrow> \<exists>b. s3_stored v T w k = Some b \<and> int (length b) = c_size c"
    by (rule s3_verify_size [OF ok])
  show "s3_open T k w = (Inr rd, w') \<Longrightarrow>
      \<exists>b. s3_stored v T w k = Some b \<and> prefix (rd_bytes rd) b \<and> (rd_err rd = None \<longrightarrow> rd_bytes rd = b)"
    by (rule s3_open_law [OF ok])
  show "s3_expired_objects T t w = ((ks, err), w') \<Longrightarrow> k \<in> set ks \<Longrightarrow> s3_stored v T w k \<noteq> None"
    by (rule s3_list_law [OF ok])
qed (rule TrueI | rule quiet_laws(1), rule s3_quiet [OF ok] s3_begin_quiet [OF ok], assumption)+

lemma s3_contract:
  assumes ok: "bucket_ok (ss_client T) H v"
  shows "multipart_contract (s3_backend T) H (s3_stored v T) (\<lambda>w. True) (s3_fits H) (s3_open_at v T) (bv_issued v) s3_multi"
proof (intro multipart_contract.intro s3_backend_contract [OF ok], unfold_locales, unfold s3_ops)
  fix w w' :: 'a and k r c opts res x t ra ttl gopts n u p crc m rc a rt rl
  show "s3_begin_upload T k c w = (Inr a, w') \<Longrightarrow> (ua_strategy a = StrategyMultipart) = s3_multi c"
    by (auto simp: s3_begin_upload_def s3_multi_def split: if_splits prod.splits sum.splits)
  show "\<exists>b. s3_stored v T w k = Some b \<and> s3_fits H c b"
    if "validate_content c = None" "s3_multi c" "s3_verify T k c w = (Inr x, w')"
    using verify_vouches [OF bucket_provider [OF ok] that(1,3)] that(2) by (simp add: s3_stored_def s3_fits_def)
  show "keeps_closed (\<lambda>w. True) (s3_open_at v T) (bv_issued v) (s3_put T k r c opts)"
    by (rule keeps_closedI) (rule s3_put_kept [OF ok])
  show "keeps_closed (\<lambda>w. True) (s3_open_at v T) (bv_issued v) (s3_delete T k)"
    by (rule keeps_closedI) (rule s3_delete_law(2) [OF ok])
  assume m: "be_multipart (s3_backend T) = Some m"
  note mp = s3_mp [OF m]
  show "keeps_closed (\<lambda>w. True) (s3_open_at v T) (bv_issued v) (mp_complete m k u n)"
    unfolding mp by (rule keeps_closedI) (rule s3_complete_kept [OF ok])
  show "u \<in> bv_issued v w \<Longrightarrow> mp_complete m k u n w = (res, w') \<Longrightarrow>
      True \<and> (s3_stored v T w' = s3_stored v T w \<or> (\<exists>b. u \<in> s3_open_at v T w k \<and> u \<notin> s3_open_at v T w' k
      \<and> s3_stored v T w' = (s3_stored v T w)(k \<mapsto> b)))"
    unfolding mp using s3_complete_law [OF ok] by blast
  show "mp_create m k w = (rc, w') \<Longrightarrow> s3_stored v T w' = s3_stored v T w \<and> True \<and> (\<forall>u. rc = Inr u \<longrightarrow> u \<in> bv_issued v w')"
    unfolding mp using quiet_laws(1) [OF s3_quiet(7) [OF ok]] s3_create_law [OF ok] by blast
  show "mp_presign_part m k u p crc ttl w = (rt, w') \<Longrightarrow> s3_stored v T w' = s3_stored v T w \<and> True"
    unfolding mp by (rule quiet_laws(1) [OF s3_quiet(6) [OF ok]])
  show "mp_abort m k u w = (res, w') \<Longrightarrow> s3_stored v T w' = s3_stored v T w \<and> True"
    unfolding mp by (rule quiet_laws(1) [OF s3_quiet(8) [OF ok]])
  show "mp_expired_uploads m t w = (rl, w') \<Longrightarrow> s3_stored v T w' = s3_stored v T w \<and> True"
    unfolding mp by (rule quiet_laws(1) [OF s3_quiet(10) [OF ok]])
  show "keeps_closed (\<lambda>w. True) (s3_open_at v T) (bv_issued v) (mp_create m k)"
    "keeps_closed (\<lambda>w. True) (s3_open_at v T) (bv_issued v) (mp_presign_part m k u p crc ttl)"
    "keeps_closed (\<lambda>w. True) (s3_open_at v T) (bv_issued v) (mp_abort m k u)"
    "keeps_closed (\<lambda>w. True) (s3_open_at v T) (bv_issued v) (mp_expired_uploads m t)"
    unfolding mp by (rule quiet_laws(2) [OF s3_quiet(7) [OF ok]] quiet_laws(2) [OF s3_quiet(6) [OF ok]]
      quiet_laws(2) [OF s3_quiet(8) [OF ok]] quiet_laws(2) [OF s3_quiet(10) [OF ok]])+
qed (rule quiet_laws(2), rule s3_quiet [OF ok] s3_begin_quiet [OF ok])+

subsection \<open>The service on its two stores\<close>

definition s3_service :: "'w s3store \<Rightarrow> hashes \<Rightarrow> mime \<Rightarrow> int \<Rightarrow> string list \<Rightarrow> (db, 'w) service" where
  "s3_service T H M ttl ps =
     \<lparr>sv_registry = pg_registry, sv_backend = s3_backend T, sv_mime = M, sv_hashes = H, sv_ttl = ttl,
      sv_prefixes = ps\<rparr>"

text \<open>
  The invariant of the two stores with the grants \<open>G\<close> that were handed out, and what a request may see of others that leave alone the
  reservations of the requests with numbers in \<open>K\<close>.
\<close>

definition s3_inv ::
  "'w s3store \<Rightarrow> hashes \<Rightarrow> 'w bucket_view \<Rightarrow> (string \<times> content) set \<Rightarrow> history \<Rightarrow> db \<times> 'w \<Rightarrow> bool" where
  "s3_inv T H v G = store_inv db_view db_next db_ok (s3_stored v T) (\<lambda>w. True) (s3_fits H) (s3_open_at v T) (bv_issued v)
     s3_multi G"

definition s3_evolves ::
  "'w s3store \<Rightarrow> hashes \<Rightarrow> 'w bucket_view \<Rightarrow> nat set \<Rightarrow> history \<Rightarrow> db \<times> 'w \<Rightarrow> history \<Rightarrow> db \<times> 'w \<Rightarrow> bool" where
  "s3_evolves T H v = evolves db_view (s3_stored v T) (s3_fits H) (s3_open_at v T) (bv_issued v)"

lemmas s3_folds = s3_inv_def [symmetric] s3_evolves_def [symmetric]

lemma s3_stores:
  assumes "bucket_ok (ss_client T) H v" "n \<notin> K" "insert n K \<subseteq> K'"
  shows "bloby_stores (s3_service T H M ttl ps) db_view db_ok db_next (s3_stored v T) (\<lambda>w. True) (s3_fits H)
    (s3_open_at v T) (bv_issued v) s3_multi K K' n"
proof (intro bloby_stores.intro bloby_stores_axioms.intro)
  show "registry_fresh (sv_registry (s3_service T H M ttl ps)) db_view db_ok db_next"
    by (simp add: s3_service_def pgf.registry_fresh_axioms)
  show "multipart_contract (sv_backend (s3_service T H M ttl ps)) (sv_hashes (s3_service T H M ttl ps)) (s3_stored v T)
      (\<lambda>w. True) (s3_fits H) (s3_open_at v T) (bv_issued v) s3_multi"
    by (simp add: s3_service_def s3_contract [OF assms(1)])
qed (use assms(2,3) in auto)

lemma s3_service_hashes: "sv_hashes (s3_service T H M ttl ps) = H"
  by (simp add: s3_service_def)

text \<open>A request with the number \<open>n\<close>, alone or among others.\<close>

abbreviation s3_within where
  "s3_within T H v G n \<equiv> within (s3_inv T H v G) (s3_evolves T H v {n}) (s3_evolves T H v {})"

lemma s3_serves:
  assumes "bucket_ok (ss_client T) H v" "admissible rq"
  shows "s3_within T H v G n (\<lambda>s h. True) (serve (s3_service T H M ttl ps) rq) (\<lambda>G' s. promised G')"
  unfolding s3_inv_def s3_evolves_def
  by (rule bloby_stores.w_serve [OF s3_stores [OF assms(1)] assms(2)]) auto

lemma s3_reads_back:
  assumes "bucket_ok (ss_client T) H v"
  shows "s3_within T H v G n (\<lambda>s h. True) (read_back (s3_service T H M ttl ps) i) (\<lambda>r s h. opened (s3_fits H) r)"
  unfolding s3_inv_def s3_evolves_def
  by (rule bloby_stores.w_read_back [OF s3_stores [OF assms]]) auto

lemma s3_finalizes:
  assumes "bucket_ok (ss_client T) H v"
  shows "s3_within T H v G n (\<lambda>s h. True) (finalize (s3_service T H M ttl ps) i p)
    (finalized (s3_fits H) (s3_stored v T) (s3_open_at v T))"
  unfolding s3_inv_def s3_evolves_def
  by (rule bloby_stores.w_finalize [OF s3_stores [OF assms]]) auto

lemma s3_stays:
  assumes "bucket_ok (ss_client T) H v" "admissible rq" "m \<noteq> n"
  shows "stays (s3_inv T H v G) (s3_evolves T H v {n}) (request_step (s3_service T H M ttl ps) rq)"
proof -
  have "bloby_stores (s3_service T H M ttl ps) db_view db_ok db_next (s3_stored v T) (\<lambda>w. True) (s3_fits H)
    (s3_open_at v T) (bv_issued v) s3_multi {n} {m, n} m"
    by (rule s3_stores [OF assms(1)]) (use assms(3) in auto)
  from bloby_stores.request_stays [OF this assms(2)] show ?thesis by (simp add: s3_inv_def s3_evolves_def)
qed

subsection \<open>Reachable states\<close>

text \<open>
  The holder of a signed request puts bytes of the signed length and SHA-256, and nothing else under
  the signed key: the provider checks both against the headers that were signed.
\<close>

definition s3_redeemed :: "'w s3store \<Rightarrow> hashes \<Rightarrow> 'w bucket_view \<Rightarrow> (string \<times> content) set \<Rightarrow> 'w \<Rightarrow> 'w \<Rightarrow> bool" where
  "s3_redeemed T H v G w w' \<longleftrightarrow> uploads_kept v w w' \<and>
     (\<exists>k c b. (k, c) \<in> G \<and> matches H c b \<and> bv_held v w' = (bv_held v w)((ss_bucket T, k) := Some b))"

text \<open>Parts arrive for open uploads, and uploads expire, without any object changing.\<close>

definition s3_environment :: "'w bucket_view \<Rightarrow> 'w \<Rightarrow> 'w \<Rightarrow> bool" where
  "s3_environment v w w' \<longleftrightarrow> bv_held v w' = bv_held v w \<and> uploads_kept v w w'"

inductive s3_reached ::
  "'w s3store \<Rightarrow> hashes \<Rightarrow> 'w bucket_view \<Rightarrow> mime \<Rightarrow> int \<Rightarrow> string list \<Rightarrow> db \<Rightarrow> 'w \<Rightarrow> (string \<times> content) set \<Rightarrow> bool"
  for T H v M ttl ps where
  start: "db_ok d \<Longrightarrow> db_rows d = [] \<Longrightarrow> s3_stored v T w = Map.empty \<Longrightarrow> s3_reached T H v M ttl ps d w {}"
| request: "s3_reached T H v M ttl ps d w G \<Longrightarrow> admissible rq \<Longrightarrow>
    list_all (stays (s3_inv T H v G) (s3_evolves T H v {n})) env \<Longrightarrow>
    run_state (serve (s3_service T H M ttl ps) rq) \<lparr>w_db = d, w_be = w, w_env = env\<rparr> = (G', w') \<Longrightarrow>
    s3_reached T H v M ttl ps (w_db w') (w_be w') (G \<union> G')"
| redeem: "s3_reached T H v M ttl ps d w G \<Longrightarrow> s3_redeemed T H v G w w' \<Longrightarrow> s3_reached T H v M ttl ps d w' G"
| environment: "s3_reached T H v M ttl ps d w G \<Longrightarrow> db_environment d d' \<Longrightarrow> s3_environment v w w' \<Longrightarrow>
    s3_reached T H v M ttl ps d' w' G"

inductive_cases s3_reachedE: "s3_reached T H v M ttl ps d w G"

text \<open>A step of the bucket alone, within the safety theory, and between the calls of a request.\<close>

lemma s3_step:
  assumes ok: "bucket_ok (ss_client T) H v" and I: "s3_inv T H v G h (d, w)"
    and r: "s3_redeemed T H v G w w' \<or> s3_environment v w w'"
  shows "s3_inv T H v G h (d, w') \<and> s3_evolves T H v K h (d, w) h (d, w')"
proof -
  have bs: "bloby_stores (s3_service T H M ttl ps) db_view db_ok db_next (s3_stored v T) (\<lambda>w. True) (s3_fits H)
    (s3_open_at v T) (bv_issued v) s3_multi {} {0} 0" for M ttl ps
    by (rule s3_stores [OF ok]) auto
  have "uploads_step (s3_open_at v T) (bv_issued v) w w'"
    using r by (auto simp: s3_redeemed_def s3_environment_def intro: uploads_kept_step)
  moreover have "s3_stored v T w' = s3_stored v T w
      \<or> (\<exists>k c b. granted G k c \<and> matches H c b \<and> s3_stored v T w' = (s3_stored v T w)(k \<mapsto> b))"
    using r by (auto simp: s3_redeemed_def s3_environment_def granted_def dest!: s3_stored_cong s3_stored_upd)
  ultimately have "bloby_stores.redeemed (s3_stored v T) (\<lambda>w. True) (s3_open_at v T) (bv_issued v) G H w w'"
    unfolding bloby_stores.redeemed_def [OF bs] by blast
  from bloby_stores.redeemed_within [OF bs I [unfolded s3_inv_def], unfolded s3_service_hashes, OF this]
  show ?thesis by (simp add: s3_inv_def s3_evolves_def)
qed

lemma s3_step_stays:
  assumes "bucket_ok (ss_client T) H v" "\<And>w. s3_redeemed T H v G w (g w) \<or> s3_environment v w (g w)"
  shows "stays (s3_inv T H v G) (s3_evolves T H v K) (\<lambda>(d, w). (d, g w))"
  using s3_step [OF assms(1) _ assms(2)] unfolding stays_def by fastforce

lemma s3_reached_inv:
  assumes "bucket_ok (ss_client T) H v" "s3_reached T H v M ttl ps d w G"
  shows "\<exists>h. s3_inv T H v G h (d, w)"
  using assms(2)
proof (induction rule: s3_reached.induct)
  case (start d w)
  then have "db_view d = Map.empty" by (simp add: db_view_def fun_eq_iff)
  with start show ?case by (intro exI [of _ Map.empty]) (simp add: s3_inv_def)
next
  case (request d f G rq n env G' w')
  then obtain h where h: "s3_inv T H v G h (d, f)" by blast
  let ?w = "\<lparr>w_db = d, w_be = f, w_env = env\<rparr>"
  have g: "good (s3_inv T H v G) (s3_evolves T H v {n}) h ?w" using h request.hyps by (simp add: good_def)
  obtain h' where h': "good (s3_inv T H v G) (s3_evolves T H v {n}) h' w'" "promised G' h'"
    by (rule withinD [OF s3_serves [OF assms(1) request.hyps(2)] g TrueI request.hyps(4)])
  then have "s3_inv T H v (G \<union> G') h' (w_db w', w_be w')"
    by (simp add: good_def stores_def s3_inv_def)
  then show ?case by blast
next
  case (redeem d w G w')
  then show ?case using s3_step [OF assms(1)] by blast
next
  case (environment d w G d' w')
  then obtain h where h: "s3_inv T H v G h (d, w)" by blast
  have "s3_inv T H v G h (d, w')" using s3_step [OF assms(1) h] environment.hyps(3) by blast
  moreover have "db_ok d' = db_ok d" "db_view d' = db_view d" "db_next d' = db_next d"
    using environment.hyps(2) by (auto simp: db_environment_def db_ok_def db_view_def)
  ultimately have "s3_inv T H v G h (d', w')" by (simp add: s3_inv_def)
  then show ?case by blast
qed

end
