(* ===== verification/S3Guarantees.thy ===== *)
theory S3Guarantees
  imports S3Lifecycle
begin

text \<open>
  What the service guarantees over an S3 bucket, at every reachable state and for every request,
  with single-request and with multipart uploads. A provider in memory that keeps objects, open
  uploads and their parts shows that the hypotheses on the bucket can be met.
\<close>

subsection \<open>A provider in memory\<close>

record memory =
  mm_objects :: "((string \<times> string) \<times> string) list"
  mm_uploads :: "(((string \<times> string) \<times> string) \<times> string list) list"
  mm_next :: nat

definition memory_put :: "hashes \<Rightarrow> put_input \<Rightarrow> memory \<Rightarrow> unit result \<times> memory" where
  "memory_put H i w =
     (case pi_body i of
        None \<Rightarrow> (Inl (ApiError ''IncompleteBody''), w)
      | Some b \<Rightarrow>
          if b64std_encode (h_sha256 H b) \<noteq> pi_sha256 i then (Inl (ApiError ''BadDigest''), w)
          else (Inr (), w\<lparr>mm_objects := ((pi_bucket i, pi_key i), b) # mm_objects w\<rparr>))"

definition memory_get :: "get_input \<Rightarrow> memory \<Rightarrow> reader result \<times> memory" where
  "memory_get i w =
     (case map_of (mm_objects w) (gi_bucket i, gi_key i) of
        None \<Rightarrow> (Inl (ApiError ''NoSuchKey''), w) | Some b \<Rightarrow> (Inr (bytes_reader b), w))"

definition memory_delete :: "string \<Rightarrow> string \<Rightarrow> memory \<Rightarrow> unit result \<times> memory" where
  "memory_delete b k w = (Inr (), w\<lparr>mm_objects := filter (\<lambda>e. fst e \<noteq> (b, k)) (mm_objects w)\<rparr>)"

definition memory_head :: "hashes \<Rightarrow> string \<Rightarrow> string \<Rightarrow> memory \<Rightarrow> head_output result \<times> memory" where
  "memory_head H b k w =
     (case map_of (mm_objects w) (b, k) of
        None \<Rightarrow> (Inl (ApiError ''NotFound''), w)
      | Some x \<Rightarrow> (Inr \<lparr>ho_length = Some (int (length x)), ho_type = ''FULL_OBJECT'', ho_sha256 = None,
                     ho_crc64 = Some (b64std_encode (h_crc64 H x))\<rparr>, w))"

definition memory_id :: "nat \<Rightarrow> string" where
  "memory_id n = ''u'' @ show_nat n"

definition memory_create :: "string \<Rightarrow> string \<Rightarrow> memory \<Rightarrow> string option result \<times> memory" where
  "memory_create b k w =
     (let u = memory_id (mm_next w) in
      (Inr (Some u), w\<lparr>mm_uploads := (((b, k), u), []) # mm_uploads w, mm_next := Suc (mm_next w)\<rparr>))"

definition open_parts :: "memory \<Rightarrow> string \<times> string \<Rightarrow> string \<Rightarrow> string list option" where
  "open_parts w bk u = map_of (mm_uploads w) (bk, u)"

definition close_upload :: "string \<times> string \<Rightarrow> string \<Rightarrow> memory \<Rightarrow> memory" where
  "close_upload bk u w = w\<lparr>mm_uploads := filter (\<lambda>e. fst e \<noteq> (bk, u)) (mm_uploads w)\<rparr>"

definition memory_parts :: "string \<Rightarrow> string \<Rightarrow> string \<Rightarrow> memory \<Rightarrow> s3part list result list \<times> memory" where
  "memory_parts b k u w =
     (case open_parts w (b, k) u of
        None \<Rightarrow> ([Inl (ApiError ''NoSuchUpload'')], w)
      | Some ps \<Rightarrow> ([Inr (map (\<lambda>(n, p). \<lparr>pt_number = Some (int n), pt_size = Some (int (length p)),
            pt_etag = Some ''e'', pt_crc64 = None\<rparr>) (enumerate 1 ps))], w))"

definition memory_complete ::
  "string \<Rightarrow> string \<Rightarrow> string \<Rightarrow> completed_part list \<Rightarrow> memory \<Rightarrow> unit result \<times> memory" where
  "memory_complete b k u parts w =
     (case open_parts w (b, k) u of
        None \<Rightarrow> (Inl (ApiError ''NoSuchUpload''), w)
      | Some ps \<Rightarrow> (Inr (), (close_upload (b, k) u w)\<lparr>mm_objects := ((b, k), concat ps) # mm_objects w\<rparr>))"

definition memory_abort :: "string \<Rightarrow> string \<Rightarrow> string \<Rightarrow> memory \<Rightarrow> unit result \<times> memory" where
  "memory_abort b k u w =
     (case open_parts w (b, k) u of
        None \<Rightarrow> (Inl (ApiError ''NoSuchUpload''), w) | Some ps \<Rightarrow> (Inr (), close_upload (b, k) u w))"

definition memory_objects :: "string \<Rightarrow> string \<Rightarrow> memory \<Rightarrow> listed_object list result list \<times> memory" where
  "memory_objects b p w =
     (map (\<lambda>e. Inr [\<lparr>lt_key = Some (snd (fst e)), lt_modified = Some 0\<rparr>])
        (filter (\<lambda>e. fst (fst e) = b \<and> prefix p (snd (fst e))) (mm_objects w)), w)"

definition memory_client :: "hashes \<Rightarrow> memory s3client" where
  "memory_client H =
     \<lparr>sc_get = memory_get, sc_put = memory_put H, sc_delete = memory_delete, sc_head = memory_head H,
      sc_create = memory_create, sc_parts = memory_parts, sc_complete = memory_complete,
      sc_abort = memory_abort, sc_objects = memory_objects, sc_uploads = (\<lambda>b w. ([], w)),
      sc_sign_get = (\<lambda>i t w. (Inr \<lparr>sg_url = ''https://s3/get'', sg_headers = []\<rparr>, w)),
      sc_sign_put = (\<lambda>i t w. (Inr \<lparr>sg_url = ''https://s3/put'', sg_headers = []\<rparr>, w)),
      sc_sign_part = (\<lambda>i t w. (Inr \<lparr>sg_url = ''https://s3/part'', sg_headers = []\<rparr>, w))\<rparr>"

definition memory_view :: "memory bucket_view" where
  "memory_view = \<lparr>bv_held = (\<lambda>w. map_of (mm_objects w)),
     bv_open = (\<lambda>w bk. {u. open_parts w bk u \<noteq> None}), bv_issued = (\<lambda>w. memory_id ` {..< mm_next w})\<rparr>"

lemma memory_id_inj: "memory_id m = memory_id n \<longleftrightarrow> m = n"
  by (auto simp: memory_id_def dest: show_nat_inj)

lemma open_close: "open_parts (close_upload bk u w) bk' u' = (if bk' = bk \<and> u' = u then None else open_parts w bk' u')"
  by (auto simp: open_parts_def close_upload_def map_of_filter_ne)

lemmas memory_calls = memory_get_def memory_put_def memory_delete_def memory_head_def memory_create_def
  memory_parts_def memory_complete_def memory_abort_def memory_objects_def

lemma memory_view_simps [simp]:
  "bv_held memory_view w = map_of (mm_objects w)" "bv_open memory_view w bk = {u. open_parts w bk u \<noteq> None}"
  "bv_issued memory_view w = memory_id ` {..< mm_next w}"
  by (simp_all add: memory_view_def)

lemma memory_kept: "mm_uploads w' = mm_uploads w \<Longrightarrow> mm_next w' = mm_next w \<Longrightarrow> uploads_kept memory_view w w'"
  by (simp add: uploads_kept_def open_parts_def)

lemma memory_kept_close: "uploads_kept memory_view w (close_upload bk u w)"
  by (auto simp: uploads_kept_def open_close) (simp add: close_upload_def)

lemma memory_kept_create: "memory_create b k w = (r, w') \<Longrightarrow> uploads_kept memory_view w w'"
  by (auto simp: memory_create_def Let_def uploads_kept_def open_parts_def memory_id_inj)

lemma memory_reads_only: "reads_only (memory_client H) memory_view"
proof -
  have "quiet_call memory_view (memory_create b k)" for b k
    by (auto simp: quiet_call_def memory_kept_create) (auto simp: memory_create_def Let_def)
  moreover have "quiet_call memory_view (memory_abort b k u)" for b k u
    by (auto simp: quiet_call_def memory_abort_def memory_kept memory_kept_close split: option.splits)
       (auto simp: close_upload_def)
  ultimately show ?thesis
    by (auto simp: reads_only_def memory_client_def quiet_call_def memory_get_def memory_head_def memory_parts_def
        memory_objects_def memory_kept split: option.splits)
qed

lemma memory_uploads_ok: "uploads_ok (memory_client H) memory_view"
proof -
  have "uploads_kept memory_view w w'" if "memory_put H i w = (r, w')" for i w r w'
    using that by (auto simp: memory_put_def intro: memory_kept split: option.splits if_splits)
  moreover have "u \<in> bv_issued memory_view w'" if "memory_create b k w = (Inr (Some u), w')" for b k w u w'
    using that by (auto simp: memory_create_def Let_def)
  moreover have "uploads_kept memory_view w w' \<and> (bv_held memory_view w' = bv_held memory_view w
      \<or> (\<exists>x. u \<in> bv_open memory_view w (b, k) \<and> u \<notin> bv_open memory_view w' (b, k)
           \<and> bv_held memory_view w' = (bv_held memory_view w)((b, k) := Some x)))"
    if "memory_complete b k u ps w = (r, w')" for b k u ps w r w'
  proof (cases "open_parts w (b, k) u")
    case None
    with that show ?thesis by (simp add: memory_complete_def memory_kept)
  next
    case (Some xs)
    let ?c = "close_upload (b, k) u w"
    have w': "w' = ?c\<lparr>mm_objects := ((b, k), concat xs) # mm_objects w\<rparr>"
      using that Some by (simp add: memory_complete_def)
    have "uploads_kept memory_view ?c w'" by (rule memory_kept) (simp_all add: w')
    with memory_kept_close have "uploads_kept memory_view w w'" by (rule uploads_kept_trans)
    moreover have "open_parts w' (b, k) u = None" using open_close [of "(b, k)" u w] by (simp add: w' open_parts_def)
    ultimately show ?thesis using Some by (auto simp: w')
  qed
  ultimately show ?thesis by (auto simp: uploads_ok_def memory_client_def)
qed

lemma memory_provider: "provider_ok (memory_client H) H (bv_held memory_view)"
  by (auto simp: provider_ok_def memory_client_def memory_put_def memory_head_def reports_def to_string_def
      split: option.splits if_splits)

lemma memory_bucket: "bucket_ok (memory_client H) H memory_view"
proof -
  have "reads_held (memory_client H) memory_view"
    by (auto simp: reads_held_def memory_client_def memory_get_def bytes_reader_def split: option.splits)
  moreover have "lists_held (memory_client H) memory_view"
    by (auto simp: lists_held_def memory_client_def memory_objects_def) (metis weak_map_of_SomeI)
  moreover have "deletes_named (memory_client H) memory_view"
    by (auto simp: deletes_named_def memory_client_def memory_delete_def map_of_filter_ne fun_eq_iff intro: memory_kept)
  ultimately show ?thesis
    using memory_provider memory_reads_only memory_uploads_ok by (simp add: bucket_ok_def)
qed

subsection \<open>A system in which one object was written\<close>

definition memory_store :: "memory s3store" where
  "memory_store = \<lparr>ss_bucket = ''b'', ss_origin = ''https://s3'', ss_ttl = 60000000000,
     ss_client = memory_client demo_hashes\<rparr>"

definition memory_start :: memory where
  "memory_start = \<lparr>mm_objects = [], mm_uploads = [], mm_next = 0\<rparr>"

definition memory_later :: memory where
  "memory_later = \<lparr>mm_objects = [((''b'', ''_objects/1/f.txt''), ''x'')], mm_uploads = [], mm_next = 0\<rparr>"

definition memory_service :: "(db, memory) service" where
  "memory_service = s3_service memory_store demo_hashes demo_mime 60 []"

definition memory_run :: "request \<Rightarrow> db \<Rightarrow> memory \<Rightarrow> (string \<times> content) set \<times> db \<times> memory" where
  "memory_run rq d w = (case run_state (serve memory_service rq) \<lparr>w_db = d, w_be = w, w_env = []\<rparr> of
     (G, w) \<Rightarrow> (G, w_db w, w_be w))"

lemma memory_written: "memory_run demo_write demo_db memory_start = ({}, demo_db1, memory_later)"
  by code_simp

lemma memory_store_ok: "bucket_ok (ss_client memory_store) demo_hashes memory_view"
  by (simp add: memory_store_def memory_bucket)

abbreviation memory_reached :: "db \<Rightarrow> memory \<Rightarrow> bool" where
  "memory_reached d w \<equiv> s3_reached memory_store demo_hashes memory_view demo_mime 60 [] d w {}"

lemma memory_first: "memory_reached demo_db memory_start"
  by (rule s3_reached.start) (simp_all add: demo_db_ok s3_stored_def fun_eq_iff, simp_all add: demo_db_def memory_start_def)

lemma memory_second: "memory_reached demo_db1 memory_later"
proof -
  obtain w where w: "run_state (serve memory_service demo_write) \<lparr>w_db = demo_db, w_be = memory_start, w_env = []\<rparr> = ({}, w)"
    "w_db w = demo_db1" "w_be w = memory_later"
    using memory_written by (auto simp: memory_run_def split: prod.splits)
  from s3_reached.request [OF memory_first demo_admissible, of 0 "[]" "{}" w] w show ?thesis
    unfolding memory_service_def by simp
qed

definition memory_world :: "(db, memory) world" where
  "memory_world = \<lparr>w_db = demo_db1, w_be = memory_later, w_env = []\<rparr>"

text \<open>A second finalisation, and what it leaves.\<close>

definition memory_again :: "db \<times> memory" where
  "memory_again =
     (case run_state (serve memory_service (Finalize 1 ''pkg'')) memory_world of (G, w) \<Rightarrow> (w_db w, w_be w))"

lemma memory_finalized: "memory_again = (demo_db1, memory_later)"
  by code_simp

text \<open>An upload that was begun, and the arrival of its bytes.\<close>

abbreviation memory_grants :: "(string \<times> content) set" where
  "memory_grants \<equiv> {(''_objects/1/f.txt'', demo_content)}"

lemma memory_began:
  "memory_run (Begin ''pkg'' ''f.txt'' demo_content) demo_db memory_start = (memory_grants, demo_pending, memory_start)"
  by code_simp

lemma memory_pending:
  "s3_reached memory_store demo_hashes memory_view demo_mime 60 [] demo_pending memory_start memory_grants"
proof -
  obtain w where w: "run_state (serve memory_service (Begin ''pkg'' ''f.txt'' demo_content))
      \<lparr>w_db = demo_db, w_be = memory_start, w_env = []\<rparr> = (memory_grants, w)"
    "w_db w = demo_pending" "w_be w = memory_start"
    using memory_began by (auto simp: memory_run_def split: prod.splits)
  have "admissible (Begin ''pkg'' ''f.txt'' demo_content)" by code_simp
  from s3_reached.request [OF memory_first this, of 0 "[]", OF _ w(1) [unfolded memory_service_def]] w(2,3)
  show ?thesis by simp
qed

definition memory_arrival :: "memory \<Rightarrow> memory" where
  "memory_arrival w = w\<lparr>mm_objects := ((''b'', ''_objects/1/f.txt''), ''x'') # mm_objects w\<rparr>"

definition memory_env :: "(db \<times> memory \<Rightarrow> db \<times> memory) list" where
  "memory_env = [\<lambda>(d, w). (d, memory_arrival w)]"

lemma memory_env_stays:
  "list_all (stays (s3_inv memory_store demo_hashes memory_view memory_grants)
     (s3_evolves memory_store demo_hashes memory_view K)) memory_env"
proof -
  have "matches demo_hashes demo_content ''x''" by code_simp
  then have "s3_redeemed memory_store demo_hashes memory_view memory_grants w (memory_arrival w)" for w
    by (auto simp: s3_redeemed_def memory_arrival_def memory_store_def intro: memory_kept)
  then show ?thesis
    using s3_step_stays [OF memory_store_ok] by (simp add: memory_env_def)
qed

subsection \<open>Requests from reachable states\<close>

lemma s3_run:
  assumes ok: "bucket_ok (ss_client T) H v" and w: "s3_within T H v G n (\<lambda>s h. True) m Q"
    and r: "s3_reached T H v M ttl ps d f G"
    and env: "list_all (stays (s3_inv T H v G) (s3_evolves T H v {n})) env"
    and run: "run_state m \<lparr>w_db = d, w_be = f, w_env = env\<rparr> = (x, w')"
  obtains h h' where "s3_inv T H v G h (d, f)" "good (s3_inv T H v G) (s3_evolves T H v {n}) h' w'"
    "s3_evolves T H v {} h (d, f) h' (stores w')" "Q x (stores w') h'"
proof -
  obtain h where h: "s3_inv T H v G h (d, f)" using s3_reached_inv [OF ok r] by blast
  let ?w = "\<lparr>w_db = d, w_be = f, w_env = env\<rparr>"
  have g: "good (s3_inv T H v G) (s3_evolves T H v {n}) h ?w" using h env by (simp add: good_def)
  obtain h' where "good (s3_inv T H v G) (s3_evolves T H v {n}) h' w'"
    "s3_evolves T H v {} h (stores ?w) h' (stores w')" "Q x (stores w') h'"
    by (rule withinD [OF w g TrueI run])
  with that h show ?thesis by simp
qed

text \<open>
  C7: On S3 a published object never dangles and never holds other bytes. At every reachable state of
  the system, with uploads in one piece and in parts, an object that is available has bytes in the
  bucket under its key, of the declared size and with the declared SHA-256; only above the threshold
  for uploads in parts may the declared CRC64NVME stand in for it.
\<close>

theorem s3_available_bytes:
  assumes "bucket_ok (ss_client T) H v" "s3_reached T H v M ttl ps d w G" "db_view d i = Some r" "available r"
  shows "\<exists>c b. obj_content r = Inr c \<and> bv_held v w (ss_bucket T, obj_stored_key r) = Some b
    \<and> int (length b) = c_size c \<and> (hex_encode (h_sha256 H b) = c_sha256 c \<or> c_size c > s3_threshold \<and> hex_encode (h_crc64 H b) = c_crc64 c)"
proof -
  obtain h where h: "s3_inv T H v G h (d, w)" using s3_reached_inv [OF assms(1,2)] by blast
  then have "obj_ok r" "has_fit (s3_fits H) (s3_stored v T) w r"
    using assms(3,4) unfolding s3_inv_def store_inv.simps by blast+
  then show ?thesis
    using stored_key_available [OF _ assms(4)] by (auto simp: has_fit_def s3_fits_def s3_multi_def s3_stored_def)
qed

theorem s3_available_bytes_witness:
  "\<exists>c b. obj_content demo_row = Inr c \<and> map_of (mm_objects memory_later) (''b'', obj_stored_key demo_row) = Some b
     \<and> int (length b) = c_size c"
  using s3_available_bytes [OF memory_store_ok memory_second demo_view demo_row_available]
  by (auto simp: memory_store_def)

text \<open>
  Across any request to a service on S3, interleaved with any other requests, a row keeps its
  prefix, file name and declared content, a published row is unchanged as long as it exists, and a row
  that cleanup has claimed stays claimed and is never published.
\<close>

theorem s3_published_once:
  assumes "bucket_ok (ss_client T) H v" "s3_reached T H v M ttl ps d w G" "admissible rq"
    and "list_all (stays (s3_inv T H v G) (s3_evolves T H v {n})) env"
    and "run_state (serve (s3_service T H M ttl ps) rq) \<lparr>w_db = d, w_be = w, w_env = env\<rparr> = (g, w')"
    and "db_view d i = Some r" "db_view (w_db w') i = Some r'"
  shows "ob_prefix r' = ob_prefix r \<and> ob_filename r' = ob_filename r \<and> obj_content r' = obj_content r
    \<and> (available r \<longrightarrow> r' = r) \<and> (\<not> live r \<longrightarrow> \<not> live r' \<and> \<not> available r')"
proof -
  have run: "s3_within T H v G n (\<lambda>s h. True) (serve (s3_service T H M ttl ps) rq) (\<lambda>r s h. True)"
    by (rule within_conseq [OF s3_serves [OF assms(1,3)]]) auto
  obtain h h' where h': "good (s3_inv T H v G) (s3_evolves T H v {n}) h' w'" "s3_evolves T H v {} h (d, w) h' (stores w')"
    by (rule s3_run [OF assms(1) run assms(2,4,5)]) blast
  then have "row_step (s3_fits H) (s3_stored v T) w (w_be w') r r'"
    using assms(6,7) by (simp add: s3_evolves_def stores_def)
  moreover have "available r' \<Longrightarrow> live r'"
    using h'(1) assms(7) by (auto simp: good_def stores_def s3_inv_def)
  ultimately show ?thesis by (auto simp: row_step_def)
qed

theorem s3_published_once_witness:
  "\<exists>g w'. run_state (serve memory_service (Finalize 1 ''pkg'')) memory_world = (g, w')
     \<and> available demo_row \<and> db_view (w_db w') 1 = Some demo_row"
proof -
  obtain g w' where w: "run_state (serve memory_service (Finalize 1 ''pkg'')) memory_world = (g, w')" by fastforce
  with memory_finalized obtain r' where v: "db_view (w_db w') 1 = Some r'"
    by (auto simp: memory_again_def demo_view)
  from s3_published_once [OF memory_store_ok memory_second _ _ _ demo_view v, of "Finalize 1 ''pkg''" 0 "[]" g]
    w demo_row_available
  have "r' = demo_row" by (simp add: memory_service_def memory_world_def)
  with w v demo_row_available show ?thesis by blast
qed

text \<open>
  C8: \<open>Finalize\<close> on S3 returns only published objects, after an upload in one piece or in parts, and
  what it returns is settled: whatever runs meanwhile, the object is available under the key of its ID
  and file name, and the bytes under this key, while there are any, have the declared size and
  SHA-256, or above the threshold the declared size and CRC64NVME.
\<close>

theorem s3_finalize_publishes:
  assumes "bucket_ok (ss_client T) H v" "s3_reached T H v M ttl ps d w G"
    and "list_all (stays (s3_inv T H v G) (s3_evolves T H v {n})) env"
    and "run_state (finalize (s3_service T H M ttl ps) i p) \<lparr>w_db = d, w_be = w, w_env = env\<rparr> = (Inr b, w')"
  shows "available b \<and> obj_stored_key b = key_for (ob_id b) (ob_filename b)
    \<and> (\<exists>c. obj_content b = Inr c \<and> (\<forall>x. bv_held v (w_be w') (ss_bucket T, obj_stored_key b) = Some x \<longrightarrow>
         int (length x) = c_size c \<and> (hex_encode (h_sha256 H x) = c_sha256 c \<or> c_size c > s3_threshold \<and> hex_encode (h_crc64 H x) = c_crc64 c)))"
proof -
  obtain h' where f: "finalized (s3_fits H) (s3_stored v T) (s3_open_at v T) (Inr b) (stores w') h'"
    and g: "good (s3_inv T H v G) (s3_evolves T H v {n}) h' w'"
    by (rule s3_run [OF assms(1) s3_finalizes [OF assms(1)] assms(2-4)])
  then have b: "obj_ok b" "available b" "settled (s3_fits H) (s3_stored v T) (s3_open_at v T) b (stores w') h'"
    by (simp_all add: finalized_def knows_def)
  have "s3_inv T H v G h' (stores w')" using g by (simp add: good_def)
  from settled_bytes [OF this [unfolded s3_inv_def] b(1,3)] b(1,2) stored_key_available [OF b(1,2)]
  show ?thesis by (auto simp: obj_ok_def s3_fits_def s3_multi_def s3_stored_def stores_def)
qed

theorem s3_finalize_publishes_witness:
  "\<exists>w'. run_state (finalize memory_service 1 ''pkg'') \<lparr>w_db = demo_pending, w_be = memory_start, w_env = memory_env\<rparr>
       = (Inr demo_obj, w')
     \<and> available demo_obj \<and> obj_stored_key demo_obj = key_for (ob_id demo_obj) (ob_filename demo_obj)"
proof -
  let ?w = "\<lparr>w_db = demo_pending, w_be = memory_start, w_env = memory_env\<rparr>"
  have "fst (run_state (finalize memory_service 1 ''pkg'') ?w) = Inr demo_obj" by code_simp
  then obtain w' where w: "run_state (finalize memory_service 1 ''pkg'') ?w = (Inr demo_obj, w')"
    by (metis prod.collapse)
  from s3_finalize_publishes [OF memory_store_ok memory_pending memory_env_stays w [unfolded memory_service_def]]
  show ?thesis using w by auto
qed

text \<open>
  C9: Reading back from S3 returns the declared bytes. Looking up an object and opening it, whatever
  ran in between, yields a reader over a prefix of bytes that have the declared size and SHA-256, or
  above the threshold the declared size and CRC64NVME, and over all of them when the reader ends
  without an error.
\<close>

theorem s3_opened_bytes:
  assumes "bucket_ok (ss_client T) H v" "s3_reached T H v M ttl ps d w G"
    and "list_all (stays (s3_inv T H v G) (s3_evolves T H v {n})) env"
    and "run_state (read_back (s3_service T H M ttl ps) i) \<lparr>w_db = d, w_be = w, w_env = env\<rparr> = (Inr (b, rd), w')"
  shows "\<exists>c x. obj_content b = Inr c \<and> int (length x) = c_size c
    \<and> (hex_encode (h_sha256 H x) = c_sha256 c \<or> c_size c > s3_threshold \<and> hex_encode (h_crc64 H x) = c_crc64 c)
    \<and> prefix (rd_bytes rd) x \<and> (rd_err rd = None \<longrightarrow> rd_bytes rd = x)"
proof -
  have "opened (s3_fits H) (Inr (b, rd))"
    by (rule s3_run [OF assms(1) s3_reads_back [OF assms(1)] assms(2-4)]) simp
  then show ?thesis by (auto simp: opened_def reads_fit_def s3_fits_def s3_multi_def)
qed

theorem s3_opened_bytes_witness:
  "\<exists>c x. obj_content demo_obj = Inr c \<and> int (length x) = c_size c \<and> ''x'' = x"
proof -
  have "fst (run_state (read_back memory_service 1) memory_world) = Inr (demo_obj, bytes_reader ''x'')"
    by code_simp
  then obtain w' where
    w: "run_state (read_back memory_service 1) memory_world = (Inr (demo_obj, bytes_reader ''x''), w')"
    by (metis prod.collapse)
  from s3_opened_bytes [OF memory_store_ok memory_second _ w [unfolded memory_service_def memory_world_def], of 0]
  show ?thesis by (auto simp: bytes_reader_def)
qed

end
