(* ===== verification/Authz.thy ===== *)
theory Authz
  imports GoStrings
begin

text \<open>
  \<open>auth/authz\<close>: the evaluation of grants against a catalogue of resources. Resources and access
  names are strings, as in the code. The application's store of grants is a parameter, a function
  on a world of any type. A Go map from resources is a HOL map; the loops over one read it through
  the list of the catalogue, in whatever order.
\<close>

subsection \<open>Access levels\<close>

definition access_none :: string where "access_none = ''none''"
definition access_view :: string where "access_view = ''view''"
definition access_edit :: string where "access_edit = ''edit''"

definition level :: "string \<Rightarrow> int" where
  "level a =
     (if a = access_none then 0 else if a = access_view then 1 else if a = access_edit then 2 else -1)"

record requirement =
  rq_resource :: string
  rq_access :: string

record grant_row =
  gr_resource :: string
  gr_access :: string

lemma level_values: "level access_none = 0" "level access_view = 1" "level access_edit = 2"
  by (simp_all add: level_def access_none_def access_view_def access_edit_def)

lemma level_bounds: "-1 \<le> level a" "level a \<le> 2"
  by (simp_all add: level_def)

lemma level_inj: "0 \<le> level a \<Longrightarrow> level a = level b \<Longrightarrow> a = b"
  by (auto simp: level_def split: if_splits)

subsection \<open>The service\<close>

record 'w authz =
  az_grants :: "int \<Rightarrow> 'w \<Rightarrow> grant_row list result \<times> 'w"
  az_resources :: "string list"

text \<open>The loop of \<open>NewService\<close> over the resources, with the catalogue so far.\<close>

fun catalogue :: "string list \<Rightarrow> string list \<Rightarrow> string list result" where
  "catalogue [] done = Inr done"
| "catalogue (r # rs) done =
     (if trim_space r = '''' then Inl (Wrap ''resource is empty'' [Sentinel ErrUnknownResource])
      else if r \<in> set done then Inl (Opaque ''duplicate authorization resource'')
      else catalogue rs (done @ [r]))"

definition new_authz :: "(int \<Rightarrow> 'w \<Rightarrow> grant_row list result \<times> 'w) \<Rightarrow> string list \<Rightarrow> 'w authz result" where
  "new_authz store resources =
     (if resources = [] then Inl (Opaque ''authorization resource catalogue is empty'')
      else case catalogue resources [] of
        Inl e \<Rightarrow> Inl e
      | Inr rs \<Rightarrow> Inr \<lparr>az_grants = store, az_resources = rs\<rparr>)"

definition validate_access :: "'w authz \<Rightarrow> string \<Rightarrow> string \<Rightarrow> goerr option" where
  "validate_access S r a =
     (if r \<notin> set (az_resources S) then Some (Wrap '''' [Sentinel ErrUnknownResource])
      else if level a < 0 then Some (Wrap '''' [Sentinel ErrInvalidAccess])
      else None)"

text \<open>Reading a Go map gives the zero value for a key that is not there.\<close>

definition perm :: "(string \<rightharpoonup> string) \<Rightarrow> string \<Rightarrow> string" where
  "perm m r = (case m r of None \<Rightarrow> '''' | Some a \<Rightarrow> a)"

fun merge_grants :: "'w authz \<Rightarrow> grant_row list \<Rightarrow> (string \<rightharpoonup> string) \<Rightarrow> (string \<rightharpoonup> string) result" where
  "merge_grants S [] m = Inr m"
| "merge_grants S (g # gs) m =
     (case validate_access S (gr_resource g) (gr_access g) of
        Some e \<Rightarrow> Inl e
      | None \<Rightarrow>
          merge_grants S gs
            (if level (gr_access g) > level (perm m (gr_resource g))
             then m(gr_resource g \<mapsto> gr_access g) else m))"

definition no_permissions :: "'w authz \<Rightarrow> string \<rightharpoonup> string" where
  "no_permissions S = (\<lambda>r. if r \<in> set (az_resources S) then Some access_none else None)"

definition effective_permissions :: "'w authz \<Rightarrow> int \<Rightarrow> 'w \<Rightarrow> (string \<rightharpoonup> string) result \<times> 'w" where
  "effective_permissions S i w =
     (let (r, w') = az_grants S i w in
      (case r of
         Inl e \<Rightarrow> Inl (Wrap ''get authorization grants'' [e])
       | Inr gs \<Rightarrow> merge_grants S gs (no_permissions S), w'))"

definition has_access :: "'w authz \<Rightarrow> int \<Rightarrow> 'w \<Rightarrow> bool result \<times> 'w" where
  "has_access S i w =
     (let (r, w') = effective_permissions S i w in
      (case r of
         Inl e \<Rightarrow> Inl e
       | Inr m \<Rightarrow> Inr (list_ex (\<lambda>x. perm m x = access_view \<or> perm m x = access_edit) (az_resources S)), w'))"

fun validate_all :: "'w authz \<Rightarrow> requirement list \<Rightarrow> goerr option" where
  "validate_all S [] = None"
| "validate_all S (q # qs) =
     (case validate_access S (rq_resource q) (rq_access q) of Some e \<Rightarrow> Some e | None \<Rightarrow> validate_all S qs)"

definition can_all :: "'w authz \<Rightarrow> int \<Rightarrow> requirement list \<Rightarrow> 'w \<Rightarrow> bool result \<times> 'w" where
  "can_all S i qs w =
     (case validate_all S qs of
        Some e \<Rightarrow> (Inl e, w)
      | None \<Rightarrow>
          (let (r, w') = effective_permissions S i w in
           (case r of
              Inl e \<Rightarrow> Inl e
            | Inr m \<Rightarrow> Inr (list_all (\<lambda>q. \<not> level (perm m (rq_resource q)) < level (rq_access q)) qs), w')))"

definition can :: "'w authz \<Rightarrow> int \<Rightarrow> string \<Rightarrow> string \<Rightarrow> 'w \<Rightarrow> bool result \<times> 'w" where
  "can S i resource required w = can_all S i [\<lparr>rq_resource = resource, rq_access = required\<rparr>] w"

subsection \<open>Effective permissions\<close>

text \<open>The specification: the highest level granted on a resource, and none when there is no grant.\<close>

definition valid_grant :: "'w authz \<Rightarrow> grant_row \<Rightarrow> bool" where
  "valid_grant S g \<longleftrightarrow> gr_resource g \<in> set (az_resources S) \<and> 0 \<le> level (gr_access g)"

definition highest :: "grant_row list \<Rightarrow> string \<Rightarrow> int" where
  "highest gs r = Max (insert 0 (level ` gr_access ` {g \<in> set gs. gr_resource g = r}))"

lemma validate_access_None [simp]:
  "validate_access S (gr_resource g) (gr_access g) = None \<longleftrightarrow> valid_grant S g"
  by (auto simp: validate_access_def valid_grant_def)

lemma validate_access_req:
  "validate_access S r a = None \<longleftrightarrow> r \<in> set (az_resources S) \<and> 0 \<le> level a"
  by (auto simp: validate_access_def)

lemma validate_all_None:
  "validate_all S qs = None \<longleftrightarrow> list_all (\<lambda>q. rq_resource q \<in> set (az_resources S) \<and> 0 \<le> level (rq_access q)) qs"
  by (induction qs) (auto simp: validate_access_def)

lemma highest_Nil [simp]: "highest [] r = 0"
  by (simp add: highest_def)

lemma highest_Cons: "highest (g # gs) r = (if gr_resource g = r then max (level (gr_access g)) (highest gs r) else highest gs r)"
proof -
  have "{h \<in> set (g # gs). gr_resource h = r}
      = (if gr_resource g = r then insert g {h \<in> set gs. gr_resource h = r} else {h \<in> set gs. gr_resource h = r})"
    by auto
  then show ?thesis by (simp add: highest_def insert_commute [of 0] del: insert_iff)
qed

text \<open>The state of the loop: a map on the catalogue whose levels are the highest so far.\<close>

lemma merge_grants_spec:
  assumes "dom m = set (az_resources S)" "\<forall>r \<in> dom m. 0 \<le> level (perm m r)"
  shows "if list_all (valid_grant S) gs
    then \<exists>m'. merge_grants S gs m = Inr m' \<and> dom m' = set (az_resources S)
      \<and> (\<forall>r \<in> dom m'. level (perm m' r) = max (level (perm m r)) (highest gs r))
    else \<exists>e. merge_grants S gs m = Inl e"
  using assms
proof (induction gs arbitrary: m)
  case Nil
  then show ?case by (auto simp: max_def)
next
  case (Cons g gs)
  show ?case
  proof (cases "valid_grant S g")
    case False
    then obtain e where "validate_access S (gr_resource g) (gr_access g) = Some e"
      using validate_access_None by (metis option.exhaust)
    with False show ?thesis by simp
  next
    case True
    let ?n = "if level (gr_access g) > level (perm m (gr_resource g)) then m(gr_resource g \<mapsto> gr_access g) else m"
    have n: "dom ?n = set (az_resources S)" using True Cons.prems(1) by (auto simp: valid_grant_def)
    have l: "level (perm ?n r) = (if gr_resource g = r then max (level (gr_access g)) (level (perm m r)) else level (perm m r))" for r
      by (auto simp: perm_def max_def)
    have "\<forall>r \<in> dom ?n. 0 \<le> level (perm ?n r)" using Cons.prems n l by (auto simp: max_def)
    note IH = Cons.IH [OF n this]
    have step: "merge_grants S (g # gs) m = merge_grants S gs ?n"
      using True by (simp add: option.case_eq_if)
    have h: "max (level (perm ?n r)) (highest gs r) = max (level (perm m r)) (highest (g # gs) r)" for r
      unfolding l highest_Cons by (auto simp: max.commute max.left_commute max.assoc)
    show ?thesis
      using IH True unfolding step h by (auto split: if_splits)
  qed
qed

lemma effective_spec:
  assumes "az_grants S i w = (Inr gs, w')"
  shows "if list_all (valid_grant S) gs
    then \<exists>m. effective_permissions S i w = (Inr m, w') \<and> dom m = set (az_resources S)
      \<and> (\<forall>r \<in> dom m. level (perm m r) = highest gs r)
    else \<exists>e. effective_permissions S i w = (Inl e, w')"
proof -
  have d: "dom (no_permissions S) = set (az_resources S)" by (auto simp: no_permissions_def split: if_splits)
  have l: "level (perm (no_permissions S) r) = 0" if "r \<in> set (az_resources S)" for r
    using that by (simp add: perm_def no_permissions_def level_values)
  have h: "max 0 (highest gs r) = highest gs r" for r by (simp add: highest_def)
  from merge_grants_spec [OF d, of gs] assms show ?thesis
    unfolding d by (auto simp: effective_permissions_def l h split: if_splits)
qed

text \<open>
  C35: Permissions are the highest grants. When the store returns grants that all name resources of the
  catalogue and known access levels, every resource of the catalogue, and no other, has the highest
  access granted on it, and none without a grant; one grant that is not valid, or an error of the
  store, discards all permissions.
\<close>

theorem permissions_highest:
  "case az_grants S i w of
     (Inl e, w') \<Rightarrow> effective_permissions S i w = (Inl (Wrap ''get authorization grants'' [e]), w')
   | (Inr gs, w') \<Rightarrow>
       if \<not> list_all (valid_grant S) gs then \<exists>e. effective_permissions S i w = (Inl e, w')
       else \<exists>m. effective_permissions S i w = (Inr m, w') \<and> dom m = set (az_resources S)
         \<and> (\<forall>r. level (perm m r) = (if r \<in> dom m then highest gs r else -1))"
proof (cases "az_grants S i w")
  case (Pair r w')
  show ?thesis
  proof (cases r)
    case (Inl e)
    with Pair show ?thesis by (simp add: effective_permissions_def)
  next
    case (Inr gs)
    have out: "r \<notin> dom m \<Longrightarrow> level (perm m r) = -1" for m r
      by (auto simp: perm_def domIff level_def access_none_def access_view_def access_edit_def)
    show ?thesis
      using effective_spec [of S i w gs w'] Pair Inr out by (auto split: if_splits)
  qed
qed

definition demo_grants :: "grant_row list" where
  "demo_grants = [\<lparr>gr_resource = ''users'', gr_access = ''view''\<rparr>,
     \<lparr>gr_resource = ''users'', gr_access = ''edit''\<rparr>, \<lparr>gr_resource = ''users'', gr_access = ''none''\<rparr>]"

definition demo_authz :: "unit authz" where
  "demo_authz = \<lparr>az_grants = (\<lambda>i w. (Inr demo_grants, w)), az_resources = [''users'', ''reports'']\<rparr>"

lemma demo_grants_valid: "list_all (valid_grant demo_authz) demo_grants"
  by (simp add: valid_grant_def demo_authz_def demo_grants_def level_def access_none_def access_view_def access_edit_def)

lemma demo_highest: "highest demo_grants ''users'' = 2" "highest demo_grants ''reports'' = 0"
  by (simp_all add: demo_grants_def highest_Cons level_def access_none_def access_view_def access_edit_def)

theorem permissions_highest_witness:
  "\<exists>m. effective_permissions demo_authz 42 () = (Inr m, ()) \<and> level (perm m ''users'') = 2 \<and> level (perm m ''reports'') = 0"
proof -
  have g: "az_grants demo_authz 42 () = (Inr demo_grants, ())" by (simp add: demo_authz_def)
  obtain m where "effective_permissions demo_authz 42 () = (Inr m, ())" "dom m = set (az_resources demo_authz)"
    "\<forall>r. level (perm m r) = (if r \<in> dom m then highest demo_grants r else -1)"
    using permissions_highest [of demo_authz 42 "()"] demo_grants_valid by (auto simp: g)
  then show ?thesis by (intro exI [of _ m]) (simp add: demo_highest, simp add: demo_authz_def)
qed

lemma can_all_iff:
  "fst (can_all S i qs w) = Inr b \<longleftrightarrow>
    (\<exists>gs. fst (az_grants S i w) = Inr gs \<and> list_all (valid_grant S) gs
       \<and> list_all (\<lambda>q. rq_resource q \<in> set (az_resources S) \<and> 0 \<le> level (rq_access q)) qs
       \<and> b = list_all (\<lambda>q. level (rq_access q) \<le> highest gs (rq_resource q)) qs)"
proof (cases "validate_all S qs")
  case None
  then have v: "list_all (\<lambda>q. rq_resource q \<in> set (az_resources S) \<and> 0 \<le> level (rq_access q)) qs"
    by (simp add: validate_all_None)
  obtain r w' where g: "az_grants S i w = (r, w')" by fastforce
  show ?thesis
  proof (cases r)
    case (Inl e)
    with g None show ?thesis by (simp add: can_all_def effective_permissions_def)
  next
    case (Inr gs)
    show ?thesis
    proof (cases "list_all (valid_grant S) gs")
      case True
      obtain m where m: "effective_permissions S i w = (Inr m, w')" "dom m = set (az_resources S)"
        "\<forall>r \<in> dom m. level (perm m r) = highest gs r"
        using effective_spec [of S i w gs w'] g Inr True by auto
      have "list_all (\<lambda>q. \<not> level (perm m (rq_resource q)) < level (rq_access q)) qs
          = list_all (\<lambda>q. level (rq_access q) \<le> highest gs (rq_resource q)) qs"
        using v m(2,3) by (auto simp: list_all_iff not_less)
      with g Inr None True v m(1) show ?thesis by (auto simp: can_all_def)
    next
      case False
      then obtain e where "effective_permissions S i w = (Inl e, w')"
        using effective_spec [of S i w gs w'] g Inr by auto
      with g Inr None False show ?thesis by (simp add: can_all_def)
    qed
  qed
next
  case (Some e)
  then have "\<not> list_all (\<lambda>q. rq_resource q \<in> set (az_resources S) \<and> 0 \<le> level (rq_access q)) qs"
    using validate_all_None by (metis option.distinct(1))
  with Some show ?thesis by (simp add: can_all_def)
qed

text \<open>
  C36: \<open>CanAll\<close> allows exactly what the grants cover, and fails closed. It has an answer iff every
  requirement names a resource of the catalogue and a known level and the store returns valid grants,
  and the answer is whether no requirement asks for more than the highest access granted on its
  resource; in every other case it is an error.
\<close>

theorem can_all_exact:
  "fst (can_all S i qs w) = Inr b \<longleftrightarrow>
    (\<exists>gs. fst (az_grants S i w) = Inr gs \<and> list_all (valid_grant S) gs
       \<and> list_all (\<lambda>q. rq_resource q \<in> set (az_resources S) \<and> 0 \<le> level (rq_access q)) qs
       \<and> b = list_all (\<lambda>q. level (rq_access q) \<le> highest gs (rq_resource q)) qs)"
  by (rule can_all_iff)

text \<open>
  \<open>CanAll\<close> is the conjunction of \<open>Can\<close>. A nonempty list of requirements is allowed iff each of them
  is allowed alone under the same grants.
\<close>

theorem can_all_conjunction:
  "fst (can_all S i (q # qs) w) = Inr True \<longleftrightarrow>
     list_all (\<lambda>q. fst (can S i (rq_resource q) (rq_access q) w) = Inr True) (q # qs)"
  unfolding can_def can_all_iff by (auto simp: list_all_iff)

text \<open>
  The order and the repetition of grants do not matter. Two stores that return the same set of
  grants for a principal, over the same catalogue, give it the same permissions.
\<close>

lemma highest_set: "set gs = set gs' \<Longrightarrow> highest gs = highest gs'"
  by (simp add: highest_def fun_eq_iff)

theorem grants_order_irrelevant:
  assumes "az_grants S i w = (Inr gs, w')" "az_grants T i w = (Inr gs', w')" "set gs = set gs'"
    and "az_resources S = az_resources T" "list_all (valid_grant S) gs"
  shows "effective_permissions S i w = effective_permissions T i w"
proof -
  have v: "list_all (valid_grant T) gs'"
    using assms(3-5) by (auto simp: list_all_iff valid_grant_def)
  obtain m where m: "effective_permissions S i w = (Inr m, w')" "dom m = set (az_resources S)"
    "\<forall>r \<in> dom m. level (perm m r) = highest gs r"
    using effective_spec [OF assms(1)] assms(5) by auto
  obtain m' where m': "effective_permissions T i w = (Inr m', w')" "dom m' = set (az_resources S)"
    "\<forall>r \<in> dom m'. level (perm m' r) = highest gs r"
    using effective_spec [OF assms(2)] v assms(4) highest_set [OF assms(3)] by auto
  have "m r = m' r" for r
  proof (cases "r \<in> set (az_resources S)")
    case True
    then have "level (perm m r) = level (perm m' r)" "0 \<le> level (perm m r)"
      using m m' by (auto simp: highest_def)
    then have "perm m r = perm m' r" using level_inj by blast
    with True m(2) m'(2) show ?thesis by (auto simp: perm_def split: option.splits)
  next
    case False
    with m(2) m'(2) show ?thesis by (metis domIff)
  qed
  with m(1) m'(1) show ?thesis by (simp add: fun_eq_iff)
qed

theorem grants_order_irrelevant_witness:
  "effective_permissions demo_authz 42 ()
     = effective_permissions (demo_authz\<lparr>az_grants := (\<lambda>i w. (Inr (rev demo_grants @ demo_grants), w))\<rparr>) 42 ()"
  by (rule grants_order_irrelevant [where gs = demo_grants and gs' = "rev demo_grants @ demo_grants" and w' = "()"])
     (use demo_grants_valid in \<open>simp_all add: demo_authz_def\<close>)

end
