(* ===== verification/ActionSchema.thy ===== *)
theory ActionSchema
  imports S3Guarantees Authz
begin

text \<open>
  The schemas that the APIs publish: \<open>bloby/huma/transfer.go\<close> describes the two valid upload actions
  to clients and \<open>auth/huma/schema.go\<close> the levels of access. The validator of the schemas is
  \<open>huma\<close>'s and a parameter; what is used of it are the rules of JSON Schema for the keywords that
  occur, and the schema that \<open>huma\<close> derives from the tags of \<open>UploadTarget\<close>.
\<close>

subsection \<open>Schemas and values\<close>

datatype json = JString string | JObject "(string \<times> json) list"

text \<open>
  A schema of a string with an enumeration, of an object with its properties, the required names
  and whether others are allowed, of exactly one of several, and of a registered type.
\<close>

datatype schema =
    StringEnum "string list"
  | ObjectOf "(string \<times> schema) list" "string list" bool
  | OneOf "schema list"
  | Registered string

text \<open>The strategies by their names, as \<open>bloby/transfer.go\<close> declares them.\<close>

fun strategy_name :: "strategy \<Rightarrow> string" where
  "strategy_name StrategyDirectPut = ''direct-put''"
| "strategy_name StrategyMultipart = ''multipart''"

definition action_schema :: schema where
  "action_schema = OneOf
     [ObjectOf [(''strategy'', StringEnum [strategy_name StrategyDirectPut]), (''target'', Registered ''UploadTarget'')]
        [''strategy'', ''target''] False,
      ObjectOf [(''strategy'', StringEnum [strategy_name StrategyMultipart])] [''strategy''] False]"

definition access_schema :: schema where
  "access_schema = StringEnum [access_none, access_view, access_edit]"

text \<open>The JSON of a target and of an action, by the tags of their fields.\<close>

definition target_json :: "upload_target \<Rightarrow> json" where
  "target_json t = JObject ([(''url'', JString (ut_url t)), (''method'', JString (ut_method t))] @
     (if ut_headers t = [] then [] else [(''headers'', JObject (map (\<lambda>(k, v). (k, JString v)) (ut_headers t)))]))"

definition action_json :: "upload_action \<Rightarrow> json" where
  "action_json a = JObject ((''strategy'', JString (strategy_name (ua_strategy a))) #
     (case ua_target a of None \<Rightarrow> [] | Some t \<Rightarrow> [(''target'', target_json t)]))"

subsection \<open>The validator\<close>

definition enum_rule :: "(schema \<Rightarrow> json \<Rightarrow> bool) \<Rightarrow> bool" where
  "enum_rule V \<longleftrightarrow> (\<forall>xs s. V (StringEnum xs) (JString s) = (s \<in> set xs))"

definition object_rule :: "(schema \<Rightarrow> json \<Rightarrow> bool) \<Rightarrow> bool" where
  "object_rule V \<longleftrightarrow> (\<forall>ps req extra fs. V (ObjectOf ps req extra) (JObject fs) =
     (set req \<subseteq> fst ` set fs \<and> (extra \<or> fst ` set fs \<subseteq> fst ` set ps)
      \<and> (\<forall>p \<in> set ps. \<forall>e \<in> set fs. fst p = fst e \<longrightarrow> V (snd p) (snd e))))"

definition one_of_rule :: "(schema \<Rightarrow> json \<Rightarrow> bool) \<Rightarrow> bool" where
  "one_of_rule V \<longleftrightarrow> (\<forall>ss j. V (OneOf ss) j = (length (filter (\<lambda>s. V s j) ss) = 1))"

text \<open>\<open>huma\<close> derives from the tags of \<open>UploadTarget\<close> that its method is \<open>PUT\<close>.\<close>

definition target_rule :: "(schema \<Rightarrow> json \<Rightarrow> bool) \<Rightarrow> bool" where
  "target_rule V \<longleftrightarrow> (\<forall>t. V (Registered ''UploadTarget'') (target_json t) = (ut_method t = ''PUT''))"

definition json_schema :: "(schema \<Rightarrow> json \<Rightarrow> bool) \<Rightarrow> bool" where
  "json_schema V \<longleftrightarrow> enum_rule V \<and> object_rule V \<and> one_of_rule V \<and> target_rule V"

text \<open>The schema admits an action with a target for one strategy and without for the other.\<close>

definition action_ok :: "upload_action \<Rightarrow> bool" where
  "action_ok a \<longleftrightarrow> (case ua_strategy a of
     StrategyDirectPut \<Rightarrow> (case ua_target a of None \<Rightarrow> False | Some t \<Rightarrow> ut_method t = ''PUT'')
   | StrategyMultipart \<Rightarrow> ua_target a = None)"

lemma schema_action_ok:
  assumes "json_schema V"
  shows "V action_schema (action_json a) \<longleftrightarrow> action_ok a"
proof -
  have r: "V (StringEnum xs) (JString s) = (s \<in> set xs)"
    "V (ObjectOf ps req extra) (JObject fs) = (set req \<subseteq> fst ` set fs \<and> (extra \<or> fst ` set fs \<subseteq> fst ` set ps)
      \<and> (\<forall>p \<in> set ps. \<forall>e \<in> set fs. fst p = fst e \<longrightarrow> V (snd p) (snd e)))"
    "V (OneOf ss) j = (length (filter (\<lambda>s. V s j) ss) = 1)"
    "V (Registered ''UploadTarget'') (target_json t) = (ut_method t = ''PUT'')" for xs s ps req extra fs ss j t
    using assms by (simp_all add: json_schema_def enum_rule_def object_rule_def one_of_rule_def target_rule_def)
  show ?thesis
    by (cases "ua_strategy a"; cases "ua_target a") (simp_all add: action_schema_def action_json_def action_ok_def r)
qed

lemma access_schema_valid: "json_schema V \<Longrightarrow> V access_schema (JString a) \<longleftrightarrow> level a \<ge> 0"
  by (auto simp: json_schema_def enum_rule_def access_schema_def level_def)

subsection \<open>The actions of the service\<close>

lemma file_action_ok: "file_begin_upload C N F k c s = (Inr a, s') \<Longrightarrow> action_ok a"
  by (auto simp: action_ok_def file_begin_upload_def file_presign_put_def split: sum.splits)

lemma s3_action_ok: "s3_begin_upload T k c w = (Inr a, w') \<Longrightarrow> action_ok a"
  by (auto simp: action_ok_def s3_begin_upload_def s3_presign_put_def signed_target_def split: if_splits sum.splits prod.splits)

lemma begin_upload_action:
  assumes "run_state (begin_upload S p fn c) w = (Inr (b, a), w')"
    and "\<And>k s s'. be_begin_upload (sv_backend S) k c s = (Inr a, s') \<Longrightarrow> action_ok a"
  shows "action_ok a"
  using assms
  by (auto simp: begin_upload_def attempt_def on_be_def abandon_def State_Monad.return_def Let_def
      split: sum.splits if_splits prod.splits)

text \<open>
  Every upload action that the service hands out is described by the published schema. On the file
  store and on S3, whatever runs meanwhile, the JSON of the action that \<open>Begin\<close> returns is valid:
  an upload in one piece has a target for a \<open>PUT\<close>, and an upload in parts has none.
\<close>

theorem begun_action_described:
  assumes "json_schema V"
    and "run_state (begin_upload (file_service C N H F M ttl ps) p fn c) w = (Inr (b, a), w')"
    and "run_state (begin_upload (s3_service T H M ttl ps) p fn c) u = (Inr (b', a'), u')"
  shows "V action_schema (action_json a) \<and> V action_schema (action_json a')"
proof -
  have "action_ok a"
    by (rule begin_upload_action [OF assms(2)]) (simp add: file_service_simps file_backend_simps file_action_ok)
  moreover have "action_ok a'"
    by (rule begin_upload_action [OF assms(3)]) (simp add: s3_service_def s3_backend_def s3_action_ok)
  ultimately show ?thesis by (simp add: schema_action_ok [OF assms(1)])
qed

text \<open>A validator of these keywords.\<close>

function demo_valid :: "schema \<Rightarrow> json \<Rightarrow> bool" where
  "demo_valid (StringEnum xs) j = (case j of JString s \<Rightarrow> s \<in> set xs | JObject fs \<Rightarrow> False)"
| "demo_valid (Registered t) j =
     (case j of JString s \<Rightarrow> False | JObject fs \<Rightarrow> map_of fs ''method'' = Some (JString ''PUT''))"
| "demo_valid (ObjectOf ps req extra) j =
     (case j of JString s \<Rightarrow> False
      | JObject fs \<Rightarrow> set req \<subseteq> fst ` set fs \<and> (extra \<or> fst ` set fs \<subseteq> fst ` set ps)
          \<and> (\<forall>p \<in> set ps. \<forall>e \<in> set fs. fst p = fst e \<longrightarrow> demo_valid (snd p) (snd e)))"
| "demo_valid (OneOf ss) j = (length (filter (\<lambda>s. demo_valid s j) ss) = 1)"
  by pat_completeness auto
termination
proof (relation "measure (size \<circ> fst)")
  fix ps :: "(string \<times> schema) list" and req extra fs p e and j :: json
  assume p: "p \<in> set ps"
  have "size (snd p) \<le> size_list (size_prod (\<lambda>x. 0) size) ps"
    by (rule size_list_estimation' [OF p]) (cases p; simp)
  then show "((snd p, snd e), ObjectOf ps req extra, j) \<in> measure (size \<circ> fst)" by simp
next
  fix ss :: "schema list" and s and j :: json
  assume "s \<in> set ss"
  then show "((s, j), OneOf ss, j) \<in> measure (size \<circ> fst)"
    by (simp add: size_list_estimation' less_Suc_eq_le)
qed simp

lemma demo_valid_rules: "json_schema demo_valid"
proof -
  have "enum_rule demo_valid" "object_rule demo_valid" "one_of_rule demo_valid"
    by (simp_all add: enum_rule_def object_rule_def one_of_rule_def)
  moreover have "target_rule demo_valid" by (auto simp: target_rule_def target_json_def)
  ultimately show ?thesis by (simp add: json_schema_def)
qed

theorem begun_action_described_witness:
  "\<exists>b a w' b' a' u'. run_state (begin_upload demo_service ''pkg'' ''f.txt'' demo_content) demo_world = (Inr (b, a), w')
     \<and> run_state (begin_upload memory_service ''pkg'' ''f.txt'' demo_content)
          \<lparr>w_db = demo_db, w_be = memory_start, w_env = []\<rparr> = (Inr (b', a'), u')
     \<and> demo_valid action_schema (action_json a) \<and> demo_valid action_schema (action_json a')"
proof -
  let ?m = "run_state (begin_upload demo_service ''pkg'' ''f.txt'' demo_content) demo_world"
  let ?n = "run_state (begin_upload memory_service ''pkg'' ''f.txt'' demo_content)
          \<lparr>w_db = demo_db, w_be = memory_start, w_env = []\<rparr>"
  have "case fst ?m of Inl e \<Rightarrow> False | Inr x \<Rightarrow> True" "case fst ?n of Inl e \<Rightarrow> False | Inr x \<Rightarrow> True" by code_simp+
  then obtain b a w' b' a' u' where m: "?m = (Inr (b, a), w')" and n: "?n = (Inr (b', a'), u')"
    by (cases ?m; cases ?n) (auto split: sum.splits)
  from begun_action_described [OF demo_valid_rules m [unfolded demo_service_def] n [unfolded memory_service_def]]
  show ?thesis using m n by blast
qed

end
