(* ===== verification/FileSuccess.thy ===== *)
theory FileSuccess
  imports Laws
begin

text \<open>
  What the file store achieves when no call fails: \<open>Put\<close> of a matching body ends with success,
  leaves the bytes readable and no temporary file behind, and \<open>Delete\<close> ends with success. The
  directory may already hold any files, as long as none stands where a directory has to be.
\<close>

subsection \<open>Directories\<close>

lemma os_call_works: "fs_faults s = [] \<Longrightarrow> os_call f s = f s"
  by (simp add: os_call_def)

lemma mkdirs_succeeds:
  "\<forall>p \<in> set ps. \<not> is_file p ns \<Longrightarrow>
     \<exists>ns'. mkdirs ps ns = Inr ns' \<and> (\<forall>q. map_of ns' q = (if q \<in> set ps then Some Dir else map_of ns q))"
proof (induction ps arbitrary: ns)
  case (Cons p ps)
  consider "map_of ns p = None" | "map_of ns p = Some Dir"
    using Cons.prems by (auto simp: is_file_def split: option.splits node.splits)
  then show ?case
  proof cases
    case 1
    have "\<forall>q \<in> set ps. \<not> is_file q (node_set p Dir ns)" using Cons.prems by (simp add: is_file_def)
    from Cons.IH [OF this] 1 show ?thesis by auto
  next
    case 2
    with Cons show ?thesis by fastforce
  qed
qed simp

lemma butlast_ancestors:
  assumes "norm_comps cs" "norm_comp c"
  shows "butlast (ancestors (abs_path (cs @ [c]))) = ancestors (abs_path cs)"
proof -
  have "norm_comps (cs @ [c])" using assms by (simp add: norm_comps_append)
  then have "ancestors (abs_path (cs @ [c])) =
      map (\<lambda>n. abs_path (take n (cs @ [c]))) ([1..<Suc (length cs)] @ [Suc (length cs)])"
    by (simp add: ancestors_abs)
  then show ?thesis by (auto simp: ancestors_abs [OF assms(1)] butlast_append simp del: upt_Suc)
qed

lemma ancestor_shorter:
  assumes "norm_comps cs" "norm_comp c"
  shows "abs_path (cs @ [c]) \<notin> set (ancestors (abs_path cs))"
proof
  assume "abs_path (cs @ [c]) \<in> set (ancestors (abs_path cs))"
  then obtain n where n: "1 \<le> n" "abs_path (cs @ [c]) = abs_path (take n cs)"
    by (auto simp: ancestors_abs [OF assms(1)])
  have "cs @ [c] = take n cs"
    using n abs_path_inj norm_comps_append [OF assms(1), of "[c]"] assms(2) take_norm [OF assms(1) n(1)] by simp
  then have "length (cs @ [c]) = length (take n cs)" by (rule arg_cong)
  then show False by simp
qed

lemma ancestor_self: "norm_comps cs \<Longrightarrow> abs_path cs \<in> set (ancestors (abs_path cs))"
  by (auto simp: ancestors_abs norm_comps_def Suc_le_eq intro!: image_eqI [of _ _ "length cs"])

lemma fresh_temp_succeeds:
  assumes "j < n" "map_of ns (base @ show_nat (k + j)) = None"
  obtains i where "i < n" "fresh_temp n base ns k = Some (base @ show_nat (k + i), Suc (k + i))"
    "map_of ns (base @ show_nat (k + i)) = None"
proof -
  have "\<exists>i < n. fresh_temp n base ns k = Some (base @ show_nat (k + i), Suc (k + i))
      \<and> map_of ns (base @ show_nat (k + i)) = None"
    using assms
  proof (induction n base ns k arbitrary: j rule: fresh_temp.induct)
    case (2 n base ns k)
    show ?case
    proof (cases "map_of ns (base @ show_nat k) = None")
      case True
      then show ?thesis by (intro exI [of _ 0]) simp
    next
      case False
      with "2.prems" have "j \<noteq> 0" by (cases j) auto
      then obtain l where l: "j = Suc l" by (cases j) auto
      with "2.IH" [OF False, of l] "2.prems" obtain i where "i < n"
        "fresh_temp n base ns (Suc k) = Some (base @ show_nat (Suc k + i), Suc (Suc k + i))"
        "map_of ns (base @ show_nat (Suc k + i)) = None" by auto
      with False show ?thesis by (intro exI [of _ "Suc i"]) simp
    qed
  qed simp
  with that show thesis by blast
qed

text \<open>All directories above a path are there.\<close>

definition dirs_made :: "string list \<Rightarrow> nodes \<Rightarrow> bool" where
  "dirs_made cs ns \<longleftrightarrow> (\<forall>q \<in> set (ancestors (abs_path cs)). map_of ns q = Some Dir)"

lemma dirs_made_free: "norm_comps cs \<Longrightarrow> norm_comp c \<Longrightarrow> dirs_made cs ns \<Longrightarrow> \<not> blocked (abs_path (cs @ [c])) ns"
  by (auto simp: blocked_def list_ex_iff butlast_ancestors dirs_made_def is_file_def)

lemma dirs_made_set:
  "norm_comps cs \<Longrightarrow> norm_comp c \<Longrightarrow> dirs_made cs ns \<Longrightarrow> dirs_made cs (node_set (abs_path (cs @ [c])) n ns)"
  using ancestor_shorter by (auto simp: dirs_made_def)

lemma dirs_made_del:
  "norm_comps cs \<Longrightarrow> norm_comp c \<Longrightarrow> dirs_made cs ns \<Longrightarrow> dirs_made cs (node_del (abs_path (cs @ [c])) ns)"
  using ancestor_shorter by (auto simp: dirs_made_def)

lemma mkdir_works:
  assumes "norm_comps cs" "norm_comp c" "\<not> blocked (abs_path (cs @ [c])) (fs_nodes s)"
  obtains ns where "os_mkdir_all (abs_path cs) s = (Inr (), s\<lparr>fs_nodes := ns\<rparr>)" "dirs_made cs ns"
    "\<forall>q. map_of ns q = map_of (fs_nodes s) q \<or> q \<in> set (ancestors (abs_path cs)) \<and> map_of ns q = Some Dir"
proof -
  have "\<forall>p \<in> set (ancestors (abs_path cs)). \<not> is_file p (fs_nodes s)"
    using assms(3) by (simp add: blocked_def list_ex_iff butlast_ancestors [OF assms(1,2)])
  from mkdirs_succeeds [OF this] obtain ns where
    "mkdirs (ancestors (abs_path cs)) (fs_nodes s) = Inr ns"
    "\<forall>q. map_of ns q = (if q \<in> set (ancestors (abs_path cs)) then Some Dir else map_of (fs_nodes s) q)" by blast
  then show thesis by (intro that [of ns]) (auto simp: os_mkdir_all_def dirs_made_def split: if_splits)
qed

subsection \<open>Writing\<close>

lemma norm_temp: "norm_comp (''.upload-'' @ show_nat j)"
  by (simp add: norm_comp_def not_in_show_nat)

lemma temp_base_dir: "norm_comps cs \<Longrightarrow> temp_base (abs_path cs) @ show_nat j = abs_path (cs @ [''.upload-'' @ show_nat j])"
  using last_abs_path [of cs] by (auto simp: temp_base_def abs_path_snoc norm_comps_def)

lemma create_temp_works:
  assumes cs: "norm_comps cs" and dirs: "dirs_made cs (fs_nodes s)"
    and free: "j < 10000" "map_of (fs_nodes s) (temp_base (abs_path cs) @ show_nat (fs_rand s + j)) = None"
  obtains i where
    "os_create_temp (abs_path cs) s = (Inr (abs_path (cs @ [''.upload-'' @ show_nat i])),
       s\<lparr>fs_nodes := node_set (abs_path (cs @ [''.upload-'' @ show_nat i])) (File [] (fs_now s)) (fs_nodes s), fs_rand := Suc i\<rparr>)"
    "map_of (fs_nodes s) (abs_path (cs @ [''.upload-'' @ show_nat i])) = None"
proof -
  obtain i where
    i: "fresh_temp 10000 (temp_base (abs_path cs)) (fs_nodes s) (fs_rand s) = Some (temp_base (abs_path cs) @ show_nat i, Suc i)"
      "map_of (fs_nodes s) (temp_base (abs_path cs) @ show_nat i) = None"
    by (rule fresh_temp_succeeds [OF free]) blast
  have "temp_base (abs_path cs) = abs_path (cs @ [''.upload-''])"
    using last_abs_path [OF cs] cs by (auto simp: temp_base_def abs_path_snoc norm_comps_def)
  moreover have "\<not> blocked (abs_path (cs @ [''.upload-''])) (fs_nodes s)"
    by (rule dirs_made_free [OF cs _ dirs]) (simp add: norm_comp_def)
  moreover have "map_of (fs_nodes s) (abs_path cs) = Some Dir"
    using dirs ancestor_self [OF cs] by (simp add: dirs_made_def)
  ultimately show thesis
    using i by (intro that [of i]) (simp_all add: os_create_temp_def abs_path_snoc del: fresh_temp.simps)
qed

lemma os_remove_absent:
  assumes "map_of (fs_nodes s) p = None"
  obtains e where "os_remove p s = (e, s)"
  using assms that by (cases "blocked p (fs_nodes s)") (auto simp: os_remove_def)

lemma whole_limit:
  assumes "matches H c (rd_bytes r)" "c_size c < 2 ^ 63 - 1"
  shows "limit_reader r (wrap64 (c_size c + 1)) = r"
proof -
  have "wrap64 (c_size c + 1) = c_size c + 1"
    by (rule wrap64_id) (use assms in \<open>auto simp: in_int64_def matches_def\<close>)
  then show ?thesis using assms(1) by (simp add: limit_reader_def matches_def)
qed

lemma put_body_works:
  fixes r :: reader
  assumes cs: "norm_comps cs" "norm_comp f" "norm_comp t" "t \<noteq> f" and s: "fs_faults s = []" "dirs_made cs (fs_nodes s)"
    and no: "map_of (fs_nodes s) (abs_path (cs @ [f])) \<noteq> Some Dir"
    and r: "matches H c (rd_bytes r)" "rd_err r = None" "c_size c < 2 ^ 63 - 1"
  shows "file_put_body H (abs_path (cs @ [f])) (abs_path (cs @ [t])) r c s =
    (Inr (), s\<lparr>fs_nodes := node_set (abs_path (cs @ [f])) (File (rd_bytes r) (fs_now s))
        (node_del (abs_path (cs @ [t])) (node_set (abs_path (cs @ [t])) (File (rd_bytes r) (fs_now s)) (fs_nodes s)))\<rparr>)"
proof -
  let ?p = "abs_path (cs @ [f])" and ?t = "abs_path (cs @ [t])"
  let ?ns = "node_set ?t (File (rd_bytes r) (fs_now s)) (fs_nodes s)"
  have ne: "?p \<noteq> ?t"
    using abs_path_inj norm_comps_append [OF cs(1)] cs(2-4) by auto
  have "dirs_made cs ?ns" by (rule dirs_made_set [OF cs(1,3) s(2)])
  then have "\<not> blocked ?p ?ns" "\<not> blocked ?t ?ns" using dirs_made_free cs by blast+
  with ne no have "os_rename ?t ?p (s\<lparr>fs_nodes := ?ns\<rparr>) =
      (Inr (), s\<lparr>fs_nodes := node_set ?p (File (rd_bytes r) (fs_now s)) (node_del ?t ?ns)\<rparr>)"
    by (auto simp: os_rename_def split: option.splits node.splits)
  moreover have "int (length (rd_bytes r)) = c_size c" "hex_encode (h_sha256 H (rd_bytes r)) = c_sha256 c"
    using r(1) by (simp_all add: matches_def)
  ultimately show ?thesis
    using r(2) s(1) by (simp add: file_put_body_def whole_limit [OF r(1,3)] os_call_works os_write_def os_noop_def Let_def)
qed

text \<open>
  C15: \<open>Put\<close> ends with success when it can. On a file store whose calls work, with no file in the way
  of the key's directories and one of the next 10000 temporary names free, \<open>Put\<close> of a body that
  matches its declaration succeeds: the key holds the body, and apart from the object's file and
  directories the file system is as it was, without a temporary file.
\<close>

theorem put_succeeds:
  assumes "fs_ok F s" "object_key k" "fs_faults s = []" "\<not> blocked (object_path F k) (fs_nodes s)"
    and "j < 10000" "map_of (fs_nodes s) (temp_base (path_dir (object_path F k)) @ show_nat (fs_rand s + j)) = None"
    and "matches H c (rd_bytes r)" "rd_err r = None" "c_size c < 2 ^ 63 - 1"
  shows "\<exists>s'. file_put H F k r c opts s = (Inr (), s') \<and> fs_stored F s' = (fs_stored F s)(k \<mapsto> rd_bytes r)
    \<and> (\<forall>p. map_of (fs_nodes s') p = map_of (fs_nodes s) p \<or> p = object_path F k
         \<or> p \<in> set (ancestors (path_dir (object_path F k))) \<and> map_of (fs_nodes s') p = Some Dir)"
proof -
  have F: "root_ok F" using assms(1) by (simp add: fs_ok_def)
  obtain i f where f: "k = key_for i f" "\<not> temp_name f" "safe_filename f"
    and p: "object_path F k = abs_path (path_comps (fc_root F) @ key_comps i f)"
    and n: "norm_comps (path_comps (fc_root F) @ key_comps i f)"
    using F assms(2) by (rule object_pathE)
  define cs where "cs = path_comps (fc_root F) @ [''_objects'', show_int i]"
  have p: "object_path F k = abs_path (cs @ [f])" and cs: "norm_comps cs" "norm_comp f"
    using p n by (simp_all add: cs_def key_comps_def norm_comps_def)
  have dir: "path_dir (object_path F k) = abs_path cs" unfolding p by (rule path_dir_abs [OF cs])
  obtain ns where mk: "os_mkdir_all (abs_path cs) s = (Inr (), s\<lparr>fs_nodes := ns\<rparr>)" "dirs_made cs ns"
    "\<forall>q. map_of ns q = map_of (fs_nodes s) q \<or> q \<in> set (ancestors (abs_path cs)) \<and> map_of ns q = Some Dir"
    by (rule mkdir_works [OF cs assms(4) [unfolded p]])
  let ?s1 = "s\<lparr>fs_nodes := ns\<rparr>"
  have outside: "map_of ns (abs_path (cs @ [x])) = map_of (fs_nodes s) (abs_path (cs @ [x]))" if "norm_comp x" for x
    using mk(3) ancestor_shorter [OF cs(1) that] by blast
  have "map_of (fs_nodes ?s1) (temp_base (abs_path cs) @ show_nat (fs_rand ?s1 + j)) = None"
    using assms(6) outside [OF norm_temp] by (simp add: dir temp_base_dir [OF cs(1)])
  then obtain u where u: "os_create_temp (abs_path cs) ?s1 = (Inr (abs_path (cs @ [''.upload-'' @ show_nat u])),
      ?s1\<lparr>fs_nodes := node_set (abs_path (cs @ [''.upload-'' @ show_nat u])) (File [] (fs_now s)) ns, fs_rand := Suc u\<rparr>)"
      "map_of ns (abs_path (cs @ [''.upload-'' @ show_nat u])) = None"
    using create_temp_works [OF cs(1), of ?s1 j] mk(2) assms(5) by auto
  define t where "t = ''.upload-'' @ show_nat u"
  have t: "norm_comp t" "t \<noteq> f" using norm_temp f(2) by (auto simp: t_def temp_name_def)
  let ?t = "abs_path (cs @ [t])"
  let ?s2 = "?s1\<lparr>fs_nodes := node_set ?t (File [] (fs_now s)) ns, fs_rand := Suc u\<rparr>"
  have ne: "object_path F k \<noteq> ?t" using abs_path_inj norm_comps_append [OF cs(1)] cs(2) t unfolding p by auto
  have "map_of (fs_nodes s) (object_path F k) \<noteq> Some Dir" using assms(1,2) unfolding fs_ok_def by blast
  then have no: "map_of (fs_nodes ?s2) (object_path F k) \<noteq> Some Dir"
    using ne outside [OF cs(2)] unfolding p by simp
  let ?ns = "node_set (object_path F k) (File (rd_bytes r) (fs_now s))
    (node_del ?t (node_set ?t (File (rd_bytes r) (fs_now s)) (fs_nodes ?s2)))"
  have body: "file_put_body H (object_path F k) ?t r c ?s2 = (Inr (), ?s2\<lparr>fs_nodes := ?ns\<rparr>)"
    using put_body_works [OF cs t, of ?s2 H c r] dirs_made_set [OF cs(1) t(1) mk(2)] no assms(3,7-9) by (simp add: p)
  have "map_of (fs_nodes (?s2\<lparr>fs_nodes := ?ns\<rparr>)) ?t = None" using ne by simp
  then obtain e where rm: "os_remove ?t (?s2\<lparr>fs_nodes := ?ns\<rparr>) = (e, ?s2\<lparr>fs_nodes := ?ns\<rparr>)"
    by (rule os_remove_absent)
  have calls: "os_call (os_mkdir_all (abs_path cs)) s = (Inr (), ?s1)"
    "os_call (os_create_temp (abs_path cs)) ?s1 = (Inr ?t, ?s2)"
    "os_call (os_remove ?t) (?s2\<lparr>fs_nodes := ?ns\<rparr>) = (e, ?s2\<lparr>fs_nodes := ?ns\<rparr>)"
    using mk(1) u(1) rm assms(3) by (simp_all add: os_call_works t_def)
  have put: "file_put H F k r c opts s = (Inr (), ?s2\<lparr>fs_nodes := ?ns\<rparr>)"
    unfolding file_put_def resolve_key [OF F assms(2)] dir sum.case Let_def calls prod.case body ..
  have "map_of ?ns q = map_of (fs_nodes s) q \<or> q = object_path F k
      \<or> q \<in> set (ancestors (path_dir (object_path F k))) \<and> map_of ?ns q = Some Dir" for q
    using mk(3) u(2) outside [OF t(1)] unfolding dir by (auto simp: t_def)
  with put file_put_law(3) [OF assms(1,2) put] show ?thesis by auto
qed

theorem put_succeeds_witness:
  "\<exists>s'. file_put demo_hashes demo_conf ''_objects/1/f.txt'' (bytes_reader ''x'') demo_content \<lparr>po_ctype = ''''\<rparr> demo_fs
      = (Inr (), s') \<and> fs_stored demo_conf s' ''_objects/1/f.txt'' = Some ''x''"
proof -
  have "\<not> blocked (object_path demo_conf ''_objects/1/f.txt'') (fs_nodes demo_fs)"
    "matches demo_hashes demo_content (rd_bytes (bytes_reader ''x''))" "rd_err (bytes_reader ''x'') = None"
    "c_size demo_content < 2 ^ 63 - 1" by code_simp+
  from put_succeeds [OF demo_fs_ok demo_object_key _ this(1) _ _ this(2-4), of 0 "\<lparr>po_ctype = ''''\<rparr>"]
  show ?thesis by (auto simp: demo_fs_def bytes_reader_def)
qed

end
