(* ===== verification/Draining.thy ===== *)
theory Draining
  imports FileSuccess PgxLaws
begin

text \<open>
  Cleanup ends its work: in a system whose calls work and that no other request disturbs, the
  passes of \<open>RunCleanup\<close> empty a backlog of abandoned uploads, a batch per pass. A pass is followed
  through its three phases; each of its calls leaves the file system with fewer entries, and the
  phases after the first leave the unpublished rows alone.
\<close>

subsection \<open>Undisturbed worlds\<close>

definition unfinished :: "db \<Rightarrow> row list" where
  "unfinished d = filter (\<lambda>r. \<not> available r) (db_rows d)"

definition idle :: "(db, fstate) world \<Rightarrow> bool" where
  "idle w \<longleftrightarrow> w_env w = [] \<and> db_ok (w_db w) \<and> db_faults (w_db w) = []"

definition leaner :: "fstate \<Rightarrow> fstate \<Rightarrow> bool" where
  "leaner s s' \<longleftrightarrow> map_of (fs_nodes s') \<subseteq>\<^sub>m map_of (fs_nodes s) \<and> (fs_faults s = [] \<longrightarrow> fs_faults s' = [])"

definition released :: "db \<Rightarrow> db \<Rightarrow> bool" where
  "released d d' \<longleftrightarrow> db_ok d' \<and> db_faults d' = [] \<and> (\<forall>i. held d' i \<longrightarrow> held d i)"

definition swept :: "(db, fstate) world \<Rightarrow> (db, fstate) world \<Rightarrow> bool" where
  "swept w w' \<longleftrightarrow> w_env w' = [] \<and> released (w_db w) (w_db w') \<and> leaner (w_be w) (w_be w')"

lemma leaner_refl [simp]: "leaner s s"
  by (simp add: leaner_def)


lemma leaner_same: "fs_nodes s' = fs_nodes s \<Longrightarrow> (fs_faults s = [] \<Longrightarrow> fs_faults s' = []) \<Longrightarrow> leaner s s'"
  by (simp add: leaner_def)






lemma released_refl [simp]: "db_ok d \<Longrightarrow> db_faults d = [] \<Longrightarrow> released d d"
  by (simp add: released_def)




text \<open>Operations that sweep and leave the unpublished rows alone.\<close>

definition tidy :: "row list \<Rightarrow> (db, fstate, 'a) oper \<Rightarrow> ('a \<Rightarrow> bool) \<Rightarrow> bool" where
  "tidy U m Q \<longleftrightarrow> (\<forall>w r w'. idle w \<longrightarrow> unfinished (w_db w) = U \<longrightarrow> run_state m w = (r, w') \<longrightarrow>
     swept w w' \<and> unfinished (w_db w') = U \<and> Q r)"





lemma tidy_any: "tidy U m Q \<Longrightarrow> tidy U m (\<lambda>x. True)"
  by (simp add: tidy_def)




subsection \<open>Calls of the file store\<close>












subsection \<open>Calls of the registry\<close>










subsection \<open>The batch of a pass\<close>









subsection \<open>Passes\<close>















end
