(* ===== verification/Config.thy ===== *)
theory Config
  imports FileStore S3Store
begin

text \<open>
  The construction of the service: \<open>bloby/config.go\<close> and the constructor of the S3 store in
  \<open>bloby/s3.go\<close>. Loading the AWS configuration and making a client from it are parameters. The
  file system and the provider are two parts of one world.
\<close>

subsection \<open>The S3 store\<close>

record s3_config =
  s3c_bucket :: string
  s3c_region :: string
  s3c_endpoint :: string
  s3c_access :: string
  s3c_secret :: string
  s3c_path_style :: bool

text \<open>
  \<open>sl_load\<close> is \<open>LoadDefaultConfig\<close> with a region and static credentials, and with the checksums
  of requests and responses computed only when required; \<open>sl_client\<close> is \<open>s3.NewFromConfig\<close> with
  the base endpoint and the addressing style.
\<close>

record ('w, 'c) s3lib =
  sl_load :: "string \<Rightarrow> string \<Rightarrow> string \<Rightarrow> 'w \<Rightarrow> 'c result \<times> 'w"
  sl_client :: "'c \<Rightarrow> string option \<Rightarrow> bool \<Rightarrow> 'w s3client"

definition new_s3_client :: "('w, 'c) s3lib \<Rightarrow> 'c \<Rightarrow> string \<Rightarrow> bool \<Rightarrow> 'w s3client" where
  "new_s3_client L cfg endpoint pathStyle = sl_client L cfg (if_set endpoint) pathStyle"

definition minute :: int where "minute = 60 * 1000000000"

definition presigned_transfer_origin ::
  "netlib \<Rightarrow> 'w s3client \<Rightarrow> string \<Rightarrow> 'w \<Rightarrow> string result \<times> 'w" where
  "presigned_transfer_origin N client bucket w =
     (let (r, w') = sc_sign_part client
            \<lparr>ui_bucket = bucket, ui_key = ''bloby-transfer-origin'', ui_upload = ''bloby-transfer-origin'',
             ui_number = 1, ui_crc64 = None\<rparr> minute w
      in (case r of
            Inl e \<Rightarrow> Inl (Wrap ''resolve storage transfer origin'' [e])
          | Inr out \<Rightarrow>
              (case transfer_origin N (sg_url out) of
                 Inl e \<Rightarrow> Inl (Wrap ''resolve storage transfer origin'' [e])
               | Inr origin \<Rightarrow> Inr origin), w'))"

definition new_s3_store ::
  "('w, 'c) s3lib \<Rightarrow> netlib \<Rightarrow> s3_config \<Rightarrow> int \<Rightarrow> 'w \<Rightarrow> 'w s3store result \<times> 'w" where
  "new_s3_store L N cfg ttl w =
     (let (a, w1) = sl_load L (s3c_region cfg) (s3c_access cfg) (s3c_secret cfg) w in
      case a of
        Inl e \<Rightarrow> (Inl (Wrap ''load storage s3 config'' [e]), w1)
      | Inr aws \<Rightarrow>
          (let client = new_s3_client L aws (s3c_endpoint cfg) (s3c_path_style cfg);
               (r, w2) = presigned_transfer_origin N client (s3c_bucket cfg) w1
           in (case r of
                 Inl e \<Rightarrow> Inl e
               | Inr origin \<Rightarrow>
                   Inr \<lparr>ss_bucket = s3c_bucket cfg, ss_origin = origin, ss_ttl = ttl, ss_client = client\<rparr>, w2)))"

subsection \<open>The service\<close>

record file_config =
  flc_root :: string
  flc_base_url :: string
  flc_key_hex :: string

record config =
  cf_kind :: string
  cf_ttl :: int
  cf_file :: file_config
  cf_s3 :: s3_config
  cf_prefixes :: "string list"

definition kind_file :: string where "kind_file = ''file''"
definition kind_s3 :: string where "kind_s3 = ''s3''"

datatype 'w storage = FileStorage fconf | S3Storage "'w s3store"

text \<open>The type assertion \<open>s.backend.(*fileStore)\<close>.\<close>

fun storage_file :: "'w storage \<Rightarrow> fconf option" where
  "storage_file (FileStorage F) = Some F"
| "storage_file (S3Storage S) = None"

definition new_backend ::
  "('w, 'c) s3lib \<Rightarrow> netlib \<Rightarrow> string result \<Rightarrow> config \<Rightarrow> fstate \<times> 'w \<Rightarrow> 'w storage result \<times> (fstate \<times> 'w)" where
  "new_backend L N cwd cfg w =
     (if cf_ttl cfg \<le> 0 then (Inl (Opaque ''storage transfer TTL must be positive''), w)
      else if cf_kind cfg = kind_file then
        (let (r, s) = new_file_store N cwd (flc_root (cf_file cfg)) (flc_base_url (cf_file cfg))
               (flc_key_hex (cf_file cfg)) (cf_ttl cfg) (fst w)
         in (map_sum id FileStorage r, (s, snd w)))
      else if cf_kind cfg = kind_s3 then
        (let (r, v) = new_s3_store L N (cf_s3 cfg) (cf_ttl cfg) (snd w) in (map_sum id S3Storage r, (fst w, v)))
      else (Inl (Opaque ''unknown storage kind''), w))"

record ('d, 'w) built =
  bt_registry :: "'d registry"
  bt_storage :: "'w storage"
  bt_ttl :: int
  bt_prefixes :: "string list"

definition new_service ::
  "('w, 'c) s3lib \<Rightarrow> netlib \<Rightarrow> string result \<Rightarrow> 'd registry option \<Rightarrow> config \<Rightarrow> fstate \<times> 'w \<Rightarrow>
     ('d, 'w) built result \<times> (fstate \<times> 'w)" where
  "new_service L N cwd R cfg w =
     (case R of
        None \<Rightarrow> (Inl (Opaque ''storage registry is required''), w)
      | Some reg \<Rightarrow>
          (let (b, w') = new_backend L N cwd cfg w in
           (case b of
              Inl e \<Rightarrow> Inl e
            | Inr st \<Rightarrow>
                if list_ex (\<lambda>p. \<not> prefix_pattern p) (cf_prefixes cfg)
                then Inl (invalid_input ''invalid referenced prefix'')
                else Inr \<lparr>bt_registry = reg, bt_storage = st, bt_ttl = cf_ttl cfg, bt_prefixes = cf_prefixes cfg\<rparr>,
            w')))"

text \<open>What the constructor promises of its result.\<close>

lemma map_sum_Inr: "map_sum id f r = Inr y \<longleftrightarrow> (\<exists>x. r = Inr x \<and> y = f x)"
  by (cases r) auto

lemma new_file_store_Inr:
  assumes "new_file_store N cwd root url keyHex ttl s = (Inr F, s')"
  shows "length (fc_key F) = 32 \<and> hex_decode keyHex = Some (fc_key F) \<and> fc_ttl F = ttl \<and> fc_base_url F = url
    \<and> transfer_origin N url = Inr (fc_origin F) \<and> fp_abs cwd (trim_space root) = Inr (fc_root F)"
  using assms by (auto simp: new_file_store_def Let_def split: if_splits option.splits sum.splits prod.splits)

lemma new_s3_store_Inr:
  assumes "new_s3_store L N cfg ttl w = (Inr S, w')"
  shows "ss_bucket S = s3c_bucket cfg \<and> ss_ttl S = ttl"
  using assms by (auto simp: new_s3_store_def Let_def split: sum.splits prod.splits)

end
