(* ===== verification/ConfigLaws.thy ===== *)
theory ConfigLaws
  imports Config S3Laws
begin

text \<open>What a service that the constructor returned rests on.\<close>

lemma new_file_backend_Inr:
  assumes "new_backend L N cwd cfg w = (Inr (FileStorage F), w')"
  shows "0 < cf_ttl cfg \<and> cf_kind cfg = kind_file \<and> snd w' = snd w
    \<and> (\<exists>s. new_file_store N cwd (flc_root (cf_file cfg)) (flc_base_url (cf_file cfg)) (flc_key_hex (cf_file cfg))
          (cf_ttl cfg) (fst w) = (Inr F, s))"
  using assms by (auto simp: new_backend_def Let_def map_sum_Inr split: if_splits prod.splits)

lemma new_s3_backend_Inr:
  assumes "new_backend L N cwd cfg w = (Inr (S3Storage S), w')"
  shows "0 < cf_ttl cfg \<and> cf_kind cfg = kind_s3 \<and> fst w' = fst w
    \<and> (\<exists>v. new_s3_store L N (cf_s3 cfg) (cf_ttl cfg) (snd w) = (Inr S, v))"
  using assms by (auto simp: new_backend_def Let_def map_sum_Inr split: if_splits prod.splits)

lemma new_service_Inr:
  assumes "new_service L N cwd R cfg w = (Inr sv, w')"
  shows "R = Some (bt_registry sv) \<and> new_backend L N cwd cfg w = (Inr (bt_storage sv), w')
    \<and> list_all prefix_pattern (cf_prefixes cfg) \<and> bt_ttl sv = cf_ttl cfg \<and> bt_prefixes sv = cf_prefixes cfg"
  using assms
  by (auto simp: new_service_def Let_def list_all_iff list_ex_iff split: if_splits option.splits sum.splits prod.splits)

text \<open>
  C40: The constructor validates its configuration. A service is only ever returned with a registry, a
  positive TTL and well-formed prefixes, and with the storage its kind names: a file store with a
  32-byte capability key, the hexadecimal one of the configuration, the absolute form of its trimmed
  root and the origin of its base URL, or an S3 store on the configured bucket. The part of the world
  that belongs to the other kind is not touched.
\<close>

theorem constructed_service:
  assumes "new_service L N cwd R cfg w = (Inr sv, w')"
  shows "R = Some (bt_registry sv) \<and> 0 < bt_ttl sv \<and> bt_ttl sv = cf_ttl cfg
    \<and> list_all prefix_pattern (bt_prefixes sv) \<and> bt_prefixes sv = cf_prefixes cfg
    \<and> (case bt_storage sv of
         FileStorage F \<Rightarrow> cf_kind cfg = kind_file \<and> snd w' = snd w
           \<and> length (fc_key F) = 32 \<and> hex_decode (flc_key_hex (cf_file cfg)) = Some (fc_key F)
           \<and> fp_abs cwd (trim_space (flc_root (cf_file cfg))) = Inr (fc_root F) \<and> fc_ttl F = bt_ttl sv
           \<and> transfer_origin N (flc_base_url (cf_file cfg)) = Inr (fc_origin F)
       | S3Storage S \<Rightarrow> cf_kind cfg = kind_s3 \<and> fst w' = fst w
           \<and> ss_bucket S = s3c_bucket (cf_s3 cfg) \<and> ss_ttl S = bt_ttl sv)"
proof -
  note sv = new_service_Inr [OF assms]
  show ?thesis
  proof (cases "bt_storage sv")
    case (FileStorage F)
    with sv new_file_backend_Inr [of L N cwd cfg w F w'] new_file_store_Inr show ?thesis by fastforce
  next
    case (S3Storage S)
    with sv new_s3_backend_Inr [of L N cwd cfg w S w'] new_s3_store_Inr show ?thesis by fastforce
  qed
qed

definition demo_config :: config where
  "demo_config = \<lparr>cf_kind = ''file'', cf_ttl = 60000000000,
     cf_file = \<lparr>flc_root = '' /d '', flc_base_url = ''http://h'', flc_key_hex = concat (replicate 32 ''6b'')\<rparr>,
     cf_s3 = \<lparr>s3c_bucket = '''', s3c_region = '''', s3c_endpoint = '''', s3c_access = '''', s3c_secret = '''',
       s3c_path_style = False\<rparr>,
     cf_prefixes = [''avatars'']\<rparr>"

definition demo_s3lib :: "(bucket, unit) s3lib" where
  "demo_s3lib = \<lparr>sl_load = (\<lambda>r a s w. (Inr (), w)), sl_client = (\<lambda>c e p. fixture_client demo_hashes)\<rparr>"

lemma demo_constructed:
  "isl (fst (new_service demo_s3lib demo_net (Inr ''/'') (Some pg_registry) demo_config (demo_fs, fixture_bucket))) = False"
  by code_simp

theorem constructed_service_witness:
  "\<exists>sv w'. new_service demo_s3lib demo_net (Inr ''/'') (Some pg_registry) demo_config (demo_fs, fixture_bucket) = (Inr sv, w')
     \<and> 0 < bt_ttl sv \<and> (case bt_storage sv of FileStorage F \<Rightarrow> length (fc_key F) = 32 | S3Storage S \<Rightarrow> False)"
proof -
  let ?n = "new_service demo_s3lib demo_net (Inr ''/'') (Some pg_registry) demo_config (demo_fs, fixture_bucket)"
  obtain sv w' where n: "?n = (Inr sv, w')"
    using demo_constructed by (metis isl_def old.sum.exhaust prod.exhaust_sel)
  have "cf_kind demo_config \<noteq> kind_s3" by (simp add: demo_config_def kind_s3_def)
  with constructed_service [OF n] n show ?thesis by (auto split: storage.splits)
qed

end
