(* ===== verification/Authn.thy ===== *)
theory Authn
  imports Encoding Transfers Complex_Main
begin

text \<open>
  \<open>auth/authn\<close>: authentication by API key, session, password and single sign-on. A request runs on
  its session, a value of any type with the operations of \<open>scs.SessionManager\<close> (\<open>sessions\<close>), and on
  an outside world of any type, which holds the identities of the application, the identity provider
  and the source of random bytes. Argon2id, the OAuth2 client, the verifier of ID tokens, the rate
  limiter and \<open>net/url\<close> are parameters.
\<close>

subsection \<open>Parameters\<close>

record principal =
  pr_id :: int
  pr_email :: string
  pr_name :: string

record password_identity =
  pw_principal :: principal
  pw_hash :: string

text \<open>The application's identity store, \<open>Store\<close>.\<close>

record 'e identities =
  id_get :: "int \<Rightarrow> 'e \<Rightarrow> principal result \<times> 'e"
  id_password :: "string \<Rightarrow> 'e \<Rightarrow> password_identity result \<times> 'e"
  id_sso :: "string \<Rightarrow> 'e \<Rightarrow> principal result \<times> 'e"
  id_api_key :: "string \<Rightarrow> 'e \<Rightarrow> principal result \<times> 'e"
  id_set_key :: "int \<Rightarrow> string \<Rightarrow> 'e \<Rightarrow> unit result \<times> 'e"
  id_clear_key :: "int \<Rightarrow> 'e \<Rightarrow> unit result \<times> 'e"

record 's sessions =
  se_get_int :: "string \<Rightarrow> 's \<Rightarrow> int"
  se_pop :: "string \<Rightarrow> 's \<Rightarrow> string \<times> 's"
  se_put_int :: "string \<Rightarrow> int \<Rightarrow> 's \<Rightarrow> 's"
  se_put :: "string \<Rightarrow> string \<Rightarrow> 's \<Rightarrow> 's"
  se_renew :: "'s \<Rightarrow> unit result \<times> 's"
  se_destroy :: "'s \<Rightarrow> unit result \<times> 's"

record 'e passwords =
  ps_create :: "string \<Rightarrow> 'e \<Rightarrow> string result \<times> 'e"
  ps_compare :: "string \<Rightarrow> string \<Rightarrow> bool result"
  ps_random :: "nat \<Rightarrow> 'e \<Rightarrow> string result \<times> 'e"

record token_response =
  tr_id_token :: "string option"   \<comment> \<open>\<open>Extra("id_token").(string)\<close>\<close>

record id_token =
  it_nonce :: string
  it_claims :: "(string \<Rightarrow> string option) result"   \<comment> \<open>the claims whose value is a string\<close>

record oidc_config =
  oc_issuer :: string
  oc_client_id :: string
  oc_client_secret :: string
  oc_redirect :: string
  oc_scopes :: "string list"
  oc_email_claim :: string

record oauth_client =
  ol_client_id :: string
  ol_client_secret :: string
  ol_redirect :: string
  ol_scopes :: "string list"

text \<open>
  A discovered issuer is a value of any type; with it and the client's settings come the URL of an
  authorization request, the exchange of a code and the verification of a raw ID token.
\<close>

record ('e, 'p) oidclib =
  ox_discover :: "string \<Rightarrow> 'e \<Rightarrow> 'p result \<times> 'e"
  ox_auth_url :: "'p \<Rightarrow> oauth_client \<Rightarrow> string \<Rightarrow> string \<Rightarrow> string"
  ox_exchange :: "'p \<Rightarrow> oauth_client \<Rightarrow> string \<Rightarrow> 'e \<Rightarrow> token_response result \<times> 'e"
  ox_verify :: "'p \<Rightarrow> string \<Rightarrow> string \<Rightarrow> 'e \<Rightarrow> id_token result \<times> 'e"

record 'p oidc_provider =
  op_issuer :: 'p
  op_oauth :: oauth_client
  op_email_claim :: string

subsection \<open>The service\<close>

record ('s, 'e, 'p) authn =
  an_store :: "'e identities"
  an_sessions :: "'s sessions"
  an_passwords :: "'e passwords"
  an_oidclib :: "('e, 'p) oidclib"
  an_dummy :: string
  an_oidc :: "'p oidc_provider option"
  an_admit :: "(int \<Rightarrow> 'e \<Rightarrow> bool result \<times> 'e) option"
  an_success :: string
  an_failure :: string

text \<open>The state of a request: its session and the rest of the world.\<close>

type_synonym ('s, 'e, 'a) auth_op = "'s \<times> 'e \<Rightarrow> 'a \<times> ('s \<times> 'e)"

definition session_user_key :: string where "session_user_key = ''user_id''"
definition sso_state_key :: string where "sso_state_key = ''sso_state''"
definition sso_nonce_key :: string where "sso_nonce_key = ''sso_nonce''"
definition token_bytes :: nat where "token_bytes = 24"

definition hash_password :: "'e passwords \<Rightarrow> string \<Rightarrow> 'e \<Rightarrow> string result \<times> 'e" where
  "hash_password P password e = ps_create P password e"

definition verify_password :: "'e passwords \<Rightarrow> string \<Rightarrow> string \<Rightarrow> bool result" where
  "verify_password P password encoded = ps_compare P password encoded"

definition random_token :: "'e passwords \<Rightarrow> nat \<Rightarrow> 'e \<Rightarrow> string result \<times> 'e" where
  "random_token P n e =
     (let (r, e') = ps_random P n e in (case r of Inl x \<Rightarrow> Inl x | Inr b \<Rightarrow> Inr (b64url_encode b), e'))"

subsection \<open>Sessions and admission\<close>

definition admit_principal :: "('s, 'e, 'p) authn \<Rightarrow> int \<Rightarrow> ('s, 'e, unit result) auth_op" where
  "admit_principal A i w =
     (case an_admit A of
        None \<Rightarrow> (Inr (), w)
      | Some admit \<Rightarrow>
          (let (r, e) = admit i (snd w) in
           (case r of
              Inl x \<Rightarrow> Inl (Wrap ''check application access'' [x])
            | Inr allowed \<Rightarrow> if \<not> allowed then Inl (Sentinel ErrNotAuthenticated) else Inr (), (fst w, e))))"

definition current_principal :: "('s, 'e, 'p) authn \<Rightarrow> ('s, 'e, principal result) auth_op" where
  "current_principal A w =
     (let userID = se_get_int (an_sessions A) session_user_key (fst w) in
      if userID = 0 then (Inl (Sentinel ErrNotAuthenticated), w)
      else (let (r, e) = id_get (an_store A) userID (snd w) in
            case r of
              Inl x \<Rightarrow>
                if errors_is x ErrPrincipalNotFound then
                  (let (d, s) = se_destroy (an_sessions A) (fst w) in
                   (case d of
                      Inl y \<Rightarrow> Inl (Wrap ''destroy invalid session'' [y])
                    | Inr _ \<Rightarrow> Inl (Sentinel ErrNotAuthenticated), (s, e)))
                else (Inl (Wrap ''get session principal'' [x]), (fst w, e))
            | Inr p \<Rightarrow> (Inr p, (fst w, e))))"

definition start_session :: "('s, 'e, 'p) authn \<Rightarrow> int \<Rightarrow> ('s, 'e, unit result) auth_op" where
  "start_session A i w =
     (let (a, w1) = admit_principal A i w in
      case a of
        Inl e \<Rightarrow> (Inl e, w1)
      | Inr _ \<Rightarrow>
          (let (r, s) = se_renew (an_sessions A) (fst w1) in
           case r of
             Inl x \<Rightarrow> (Inl (Wrap ''renew session'' [x]), (s, snd w1))
           | Inr _ \<Rightarrow> (Inr (), (se_put_int (an_sessions A) session_user_key i s, snd w1))))"

definition logout :: "('s, 'e, 'p) authn \<Rightarrow> ('s, 'e, unit result) auth_op" where
  "logout A w =
     (let (r, s) = se_destroy (an_sessions A) (fst w) in
      (case r of Inl x \<Rightarrow> Inl (Wrap ''destroy session'' [x]) | Inr _ \<Rightarrow> Inr (), (s, snd w)))"

subsection \<open>API keys\<close>

definition bearer_token :: "string \<Rightarrow> string option" where
  "bearer_token authorization =
     (let (scheme, value, found) = cut (CHR '' '') authorization in
      if \<not> found \<or> \<not> equal_fold scheme ''Bearer'' then None
      else let v = trim_space value in
        if v = '''' \<or> contains_any v [CHR '' '', CHR 0x09, CHR 0x0D, CHR 0x0A] then None else Some v)"

definition authenticate_api_key :: "('s, 'e, 'p) authn \<Rightarrow> string \<Rightarrow> ('s, 'e, principal result) auth_op" where
  "authenticate_api_key A token w =
     (if token = '''' then (Inl (Sentinel ErrNotAuthenticated), w)
      else (let (r, e) = id_api_key (an_store A) token (snd w) in
            (case r of
               Inl x \<Rightarrow>
                 if errors_is x ErrPrincipalNotFound then Inl (Sentinel ErrNotAuthenticated)
                 else Inl (Wrap ''get principal by API key'' [x])
             | Inr p \<Rightarrow> Inr p, (fst w, e))))"

definition rotate_api_key :: "('s, 'e, 'p) authn \<Rightarrow> int \<Rightarrow> ('s, 'e, unit result) auth_op" where
  "rotate_api_key A i w =
     (let (k, e1) = random_token (an_passwords A) token_bytes (snd w) in
      case k of
        Inl x \<Rightarrow> (Inl x, (fst w, e1))
      | Inr key \<Rightarrow>
          (let (r, e2) = id_set_key (an_store A) i key e1 in
           (case r of Inl x \<Rightarrow> Inl (Wrap ''set API key'' [x]) | Inr _ \<Rightarrow> Inr (), (fst w, e2))))"

definition revoke_api_key :: "('s, 'e, 'p) authn \<Rightarrow> int \<Rightarrow> ('s, 'e, unit result) auth_op" where
  "revoke_api_key A i w =
     (let (r, e) = id_clear_key (an_store A) i (snd w) in
      (case r of Inl x \<Rightarrow> Inl (Wrap ''clear API key'' [x]) | Inr _ \<Rightarrow> Inr (), (fst w, e)))"

definition authenticate :: "('s, 'e, 'p) authn \<Rightarrow> string \<Rightarrow> ('s, 'e, principal result) auth_op" where
  "authenticate A header w =
     (let (r, w1) = (case bearer_token header of
            Some token \<Rightarrow> authenticate_api_key A token w
          | None \<Rightarrow> current_principal A w) in
      case r of
        Inl e \<Rightarrow> (Inl e, w1)
      | Inr p \<Rightarrow>
          (let (a, w2) = admit_principal A (pr_id p) w1 in
           (case a of Inl e \<Rightarrow> Inl e | Inr _ \<Rightarrow> Inr p, w2)))"

subsection \<open>Passwords\<close>

definition password_candidate ::
  "('s, 'e, 'p) authn \<Rightarrow> string \<Rightarrow> ('s, 'e, (principal option \<times> string) result) auth_op" where
  "password_candidate A email w =
     (let (r, e) = id_password (an_store A) email (snd w) in
      (case r of
         Inl x \<Rightarrow>
           if errors_is x ErrPrincipalNotFound then Inr (None, an_dummy A)
           else Inl (Wrap ''get password identity'' [x])
       | Inr d \<Rightarrow> Inr (Some (pw_principal d), pw_hash d), (fst w, e)))"

definition authenticate_password ::
  "('s, 'e, 'p) authn \<Rightarrow> string \<Rightarrow> string \<Rightarrow> ('s, 'e, principal result) auth_op" where
  "authenticate_password A email password w =
     (let (c, w') = password_candidate A (trim_space email) w in
      (case c of
         Inl e \<Rightarrow> Inl e
       | Inr (identity, hash) \<Rightarrow>
           (case verify_password (an_passwords A) password hash of
              Inl x \<Rightarrow> Inl (Wrap ''verify password'' [x])
            | Inr valid \<Rightarrow>
                (case identity of
                   None \<Rightarrow> Inl (Sentinel ErrInvalidCredentials)
                 | Some p \<Rightarrow> if \<not> valid then Inl (Sentinel ErrInvalidCredentials) else Inr p)), w'))"

definition login :: "('s, 'e, 'p) authn \<Rightarrow> string \<Rightarrow> string \<Rightarrow> ('s, 'e, principal result) auth_op" where
  "login A email password w =
     (let (r, w1) = authenticate_password A email password w in
      case r of
        Inl e \<Rightarrow> (Inl e, w1)
      | Inr p \<Rightarrow>
          (let (a, w2) = start_session A (pr_id p) w1 in
           (case a of Inl e \<Rightarrow> Inl e | Inr _ \<Rightarrow> Inr p, w2)))"

subsection \<open>Single sign-on\<close>

definition configure_oidc :: "('e, 'p) oidclib \<Rightarrow> oidc_config \<Rightarrow> 'e \<Rightarrow> 'p oidc_provider result \<times> 'e" where
  "configure_oidc L cfg e =
     (if oc_issuer cfg = '''' then (Inl (Sentinel ErrSSONotConfigured), e)
      else (let (r, e') = ox_discover L (oc_issuer cfg) e in
            (case r of
               Inl x \<Rightarrow> Inl (Wrap ''discover oidc issuer'' [x])
             | Inr p \<Rightarrow> Inr \<lparr>op_issuer = p,
                 op_oauth = \<lparr>ol_client_id = oc_client_id cfg, ol_client_secret = oc_client_secret cfg,
                   ol_redirect = oc_redirect cfg,
                   ol_scopes = (if oc_scopes cfg = [] then [''openid'', ''email'', ''profile''] else oc_scopes cfg)\<rparr>,
                 op_email_claim = (if oc_email_claim cfg = '''' then ''email'' else oc_email_claim cfg)\<rparr>, e')))"

definition sso_enabled :: "('s, 'e, 'p) authn \<Rightarrow> bool" where
  "sso_enabled A \<longleftrightarrow> an_oidc A \<noteq> None"

definition begin_sso :: "('s, 'e, 'p) authn \<Rightarrow> ('s, 'e, string result) auth_op" where
  "begin_sso A w =
     (case an_oidc A of
        None \<Rightarrow> (Inl (Sentinel ErrSSONotConfigured), w)
      | Some P \<Rightarrow>
          (let (s, e1) = random_token (an_passwords A) token_bytes (snd w) in
           case s of
             Inl x \<Rightarrow> (Inl x, (fst w, e1))
           | Inr st \<Rightarrow>
               (let (n, e2) = random_token (an_passwords A) token_bytes e1 in
                case n of
                  Inl x \<Rightarrow> (Inl x, (fst w, e2))
                | Inr nonce \<Rightarrow>
                    (Inr (ox_auth_url (an_oidclib A) (op_issuer P) (op_oauth P) st nonce),
                     (se_put (an_sessions A) sso_nonce_key nonce
                        (se_put (an_sessions A) sso_state_key st (fst w)), e2)))))"

definition sso_principal :: "('s, 'e, 'p) authn \<Rightarrow> string \<Rightarrow> ('s, 'e, principal result) auth_op" where
  "sso_principal A email w =
     (let (r, e) = id_sso (an_store A) email (snd w) in
      (case r of
         Inl x \<Rightarrow>
           if errors_is x ErrPrincipalNotFound then Inl (Sentinel ErrSSOUnknownUser)
           else Inl (Wrap ''lookup sso user'' [x])
       | Inr p \<Rightarrow> Inr p, (fst w, e)))"

text \<open>The email of a verified ID token.\<close>

definition token_email :: "'p oidc_provider \<Rightarrow> id_token \<Rightarrow> string result" where
  "token_email P t =
     (case it_claims t of
        Inl x \<Rightarrow> Inl (Wrap ''decode id token claims'' [x])
      | Inr claims \<Rightarrow>
          let email = trim_space (case claims (op_email_claim P) of None \<Rightarrow> '''' | Some m \<Rightarrow> m) in
          if email = '''' then Inl (Sentinel ErrSSOEmailClaimEmpty) else Inr email)"

text \<open>\<open>completeSSO\<close> from the exchange of the code on, with the nonce the session expects.\<close>

definition redeem_code ::
  "('s, 'e, 'p) authn \<Rightarrow> 'p oidc_provider \<Rightarrow> string \<Rightarrow> string \<Rightarrow> ('s, 'e, principal result) auth_op" where
  "redeem_code A P nonce code w =
     (let (t, e1) = ox_exchange (an_oidclib A) (op_issuer P) (op_oauth P) code (snd w) in
      case t of
        Inl x \<Rightarrow> (Inl (Wrap ''oidc token exchange'' [x]), (fst w, e1))
      | Inr token \<Rightarrow>
          (let raw = (case tr_id_token token of None \<Rightarrow> '''' | Some r \<Rightarrow> r) in
           if raw = '''' then (Inl (Opaque ''oidc token response missing id_token''), (fst w, e1))
           else (let (v, e2) = ox_verify (an_oidclib A) (op_issuer P) (ol_client_id (op_oauth P)) raw e1 in
                 case v of
                   Inl x \<Rightarrow> (Inl (Wrap ''verify id token'' [x]), (fst w, e2))
                 | Inr idt \<Rightarrow>
                     if it_nonce idt \<noteq> nonce then (Inl (Sentinel ErrSSONonceMismatch), (fst w, e2))
                     else (case token_email P idt of
                             Inl x \<Rightarrow> (Inl x, (fst w, e2))
                           | Inr email \<Rightarrow> sso_principal A email (fst w, e2)))))"

definition complete_sso :: "('s, 'e, 'p) authn \<Rightarrow> string \<Rightarrow> string \<Rightarrow> ('s, 'e, principal result) auth_op" where
  "complete_sso A st code w =
     (case an_oidc A of
        None \<Rightarrow> (Inl (Sentinel ErrSSONotConfigured), w)
      | Some P \<Rightarrow>
          (let (expectedState, s1) = se_pop (an_sessions A) sso_state_key (fst w);
               (expectedNonce, s2) = se_pop (an_sessions A) sso_nonce_key s1 in
           if expectedState = '''' \<or> st = '''' \<or> st \<noteq> expectedState
           then (Inl (Sentinel ErrSSOStateMismatch), (s2, snd w))
           else if expectedNonce = '''' then (Inl (Sentinel ErrSSONonceMismatch), (s2, snd w))
           else redeem_code A P expectedNonce code (s2, snd w)))"

definition sso_failed :: string where "sso_failed = ''sso sign-in failed''"

definition oidc_user_message :: "goerr \<Rightarrow> string" where
  "oidc_user_message e =
     (if errors_is e ErrSSOStateMismatch then ''sso state mismatch; try again''
      else if errors_is e ErrSSONonceMismatch then ''sso nonce mismatch; try again''
      else if errors_is e ErrSSOUnknownUser \<or> errors_is e ErrNotAuthenticated
      then ''no account for this identity''
      else if errors_is e ErrSSOEmailClaimEmpty then ''identity provider returned no email''
      else sso_failed)"

text \<open>\<open>http.Error\<close> and \<open>http.Redirect\<close>, of whose bodies only the text of the error is kept.\<close>

definition http_error :: "int \<Rightarrow> string \<Rightarrow> http_response" where
  "http_error st msg = \<lparr>rs_status = st, rs_header = [(''Content-Type'', ''text/plain; charset=utf-8'')], rs_body = msg\<rparr>"

definition redirect_sso_error :: "netlib \<Rightarrow> ('s, 'e, 'p) authn \<Rightarrow> string \<Rightarrow> http_response" where
  "redirect_sso_error N A message =
     (case nl_set_query N (an_failure A) ''sso_error'' message of
        None \<Rightarrow> http_error 500 sso_failed
      | Some u \<Rightarrow> redirect u)"

definition sso_start :: "('s, 'e, 'p) authn \<Rightarrow> ('s, 'e, http_response) auth_op" where
  "sso_start A w =
     (if \<not> sso_enabled A then (http_error 404 ''sso not configured'', w)
      else (let (r, w') = begin_sso A w in
            (case r of Inl e \<Rightarrow> http_error 500 sso_failed | Inr u \<Rightarrow> redirect u, w')))"

text \<open>The query of the callback: \<open>error\<close>, \<open>state\<close> and \<open>code\<close>.\<close>

record callback =
  cb_error :: string
  cb_state :: string
  cb_code :: string

definition sso_callback :: "netlib \<Rightarrow> ('s, 'e, 'p) authn \<Rightarrow> callback \<Rightarrow> ('s, 'e, http_response) auth_op" where
  "sso_callback N A q w =
     (if cb_error q \<noteq> '''' then (redirect_sso_error N A (cb_error q), w)
      else if cb_state q = '''' \<or> cb_code q = '''' then (redirect_sso_error N A ''missing state or code'', w)
      else (let (r, w1) = complete_sso A (cb_state q) (cb_code q) w;
                (s, w2) = (case r of Inl e \<Rightarrow> (Inl e, w1) | Inr p \<Rightarrow> start_session A (pr_id p) w1) in
            (case s of
               Inl e \<Rightarrow> redirect_sso_error N A (oidc_user_message e)
             | Inr _ \<Rightarrow> redirect (an_success A), w2)))"

subsection \<open>Construction\<close>

record ('e) authn_config =
  ac_admit :: "(int \<Rightarrow> 'e \<Rightarrow> bool result \<times> 'e) option"
  ac_oidc :: "oidc_config option"
  ac_success :: string
  ac_failure :: string

definition new_authn ::
  "'e passwords \<Rightarrow> ('e, 'p) oidclib \<Rightarrow> 'e identities option \<Rightarrow> 's sessions option \<Rightarrow> 'e authn_config \<Rightarrow> 'e \<Rightarrow>
     ('s, 'e, 'p) authn result \<times> 'e" where
  "new_authn P L store sess cfg e =
     (case (store, sess) of
        (Some st, Some se) \<Rightarrow>
          (let (h, e1) = hash_password P ''authentication-dummy-password'' e in
           case h of
             Inl x \<Rightarrow> (Inl (Wrap ''hash dummy password'' [x]), e1)
           | Inr dummy \<Rightarrow>
               (let A = \<lparr>an_store = st, an_sessions = se, an_passwords = P, an_oidclib = L, an_dummy = dummy,
                         an_oidc = None, an_admit = ac_admit cfg,
                         an_success = (if ac_success cfg = '''' then ''/'' else ac_success cfg),
                         an_failure = (if ac_failure cfg = '''' then ''/login'' else ac_failure cfg)\<rparr> in
                case ac_oidc cfg of
                  None \<Rightarrow> (Inr A, e1)
                | Some oc \<Rightarrow>
                    (let (r, e2) = configure_oidc L oc e1 in
                     (case r of Inl x \<Rightarrow> Inl x | Inr V \<Rightarrow> Inr (A\<lparr>an_oidc := Some V\<rparr>), e2))))
      | _ \<Rightarrow> (Inl (Opaque ''authentication requires an identity store and sessions''), e))"

subsection \<open>Throttling\<close>

text \<open>
  The token bucket of \<open>golang.org/x/time/rate\<close>: whether an event may happen now, and the number of
  tokens left, on a state of any type. Its numbers are rationals here.
\<close>

record 'l limiter =
  li_allow :: "'l \<Rightarrow> bool \<times> 'l"
  li_tokens :: "'l \<Rightarrow> rat"
  li_limit :: rat

definition retry_after :: "'l limiter \<Rightarrow> 'l \<Rightarrow> int" where
  "retry_after L l = max \<lceil>(1 - li_tokens L l) / li_limit L\<rceil> 1"

text \<open>The JSON document of the refusal, with the newline that the encoder adds.\<close>

definition throttled_body :: string where
  \<open>throttled_body =
     ''{"title":"Too Many Requests","status":429,"detail":"too many login attempts; try again shortly"}'' @ [CHR 0x0A]\<close>

definition limit_password_login ::
  "'l limiter \<Rightarrow> ('l \<times> 'w \<Rightarrow> http_response \<times> ('l \<times> 'w)) \<Rightarrow> 'l \<times> 'w \<Rightarrow> http_response \<times> ('l \<times> 'w)" where
  "limit_password_login L handler w =
     (let (ok, l) = li_allow L (fst w) in
      if ok then handler (l, snd w)
      else (\<lparr>rs_status = 429, rs_header = [(''Content-Type'', ''application/problem+json''),
               (''Retry-After'', show_int (retry_after L l))],
             rs_body = throttled_body\<rparr>, (l, snd w)))"

end
