(* ===== verification/Guards.thy ===== *)
theory Guards
  imports Authn Authz
begin

text \<open>
  The adapters \<open>auth/http\<close> and \<open>auth/huma\<close>: guards around handlers, the decoration of operations
  with requirements, and the session endpoints. A handler is a function of the Authorization header,
  of the principal in the context and of a world of any type; a guard takes a handler to a handler.
  The library huma is present as its middlewares, which run in their order before the handler, and as
  its error responses.
\<close>

subsection \<open>Context\<close>

text \<open>\<open>PrincipalFromContext\<close> and its two readers, on a context that holds a principal or none.\<close>

definition require_principal :: "principal option \<Rightarrow> principal result" where
  "require_principal ctx = (case ctx of None \<Rightarrow> Inl (Sentinel ErrNotAuthenticated) | Some p \<Rightarrow> Inr p)"

definition current_principal_id :: "principal option \<Rightarrow> int option" where
  "current_principal_id ctx = (case ctx of None \<Rightarrow> None | Some p \<Rightarrow> Some (pr_id p))"

type_synonym 'w handler = "string \<Rightarrow> principal option \<Rightarrow> 'w \<Rightarrow> http_response \<times> 'w"
type_synonym 'w authenticator = "string \<Rightarrow> 'w \<Rightarrow> principal result \<times> 'w"
type_synonym 'w authorizer = "int \<Rightarrow> requirement list \<Rightarrow> 'w \<Rightarrow> bool result \<times> 'w"

subsection \<open>Guards of net/http\<close>

definition status_text :: "int \<Rightarrow> string" where
  "status_text st =
     (if st = 401 then ''Unauthorized'' else if st = 403 then ''Forbidden''
      else if st = 429 then ''Too Many Requests'' else if st = 500 then ''Internal Server Error'' else '''')"

definition http_require_auth :: "'w authenticator \<Rightarrow> 'w handler \<Rightarrow> 'w handler" where
  "http_require_auth auth handler header ctx w =
     (let (r, w') = auth header w in
      case r of
        Inl e \<Rightarrow>
          let st = (if errors_is e ErrNotAuthenticated then 401 else 500) in (http_error st (status_text st), w')
      | Inr p \<Rightarrow> handler header (Some p) w')"

definition http_require_permission :: "'w authorizer \<Rightarrow> string \<Rightarrow> string \<Rightarrow> 'w handler \<Rightarrow> 'w handler" where
  "http_require_permission can_do resource required handler header ctx w =
     (case require_principal ctx of
        Inl e \<Rightarrow> (http_error 401 ''not authenticated'', w)
      | Inr p \<Rightarrow>
          (let (r, w') = can_do (pr_id p) [\<lparr>rq_resource = resource, rq_access = required\<rparr>] w in
           case r of
             Inl e \<Rightarrow> (http_error 500 ''authorization failed'', w')
           | Inr allowed \<Rightarrow>
               if \<not> allowed then (http_error 403 ''forbidden'', w') else handler header ctx w'))"

subsection \<open>Guards of huma\<close>

text \<open>\<open>huma.WriteErr\<close>: a problem response.\<close>

definition problem :: "int \<Rightarrow> string \<Rightarrow> http_response" where
  "problem st msg = \<lparr>rs_status = st, rs_header = [(''Content-Type'', ''application/problem+json'')], rs_body = msg\<rparr>"

definition optional_auth :: "'w authenticator \<Rightarrow> 'w handler \<Rightarrow> 'w handler" where
  "optional_auth auth handler header ctx w =
     (let (r, w') = auth header w in
      case r of
        Inr p \<Rightarrow> handler header (Some p) w'
      | Inl e \<Rightarrow>
          if errors_is e ErrNotAuthenticated then handler header ctx w'
          else (problem 500 ''request failed'', w'))"

definition require_auth :: "'w authenticator \<Rightarrow> 'w handler \<Rightarrow> 'w handler" where
  "require_auth auth handler header ctx w =
     (let (r, w') = auth header w in
      case r of
        Inl e \<Rightarrow>
          if errors_is e ErrNotAuthenticated then (problem 401 ''not authenticated'', w')
          else (problem 500 ''request failed'', w')
      | Inr p \<Rightarrow> handler header (Some p) w')"

datatype extension = OneRequirement string string | AllRequirements "(string \<times> string) list"

record 'w operation =
  hop_method :: string
  hop_extensions :: "(string \<rightharpoonup> extension) option"
  hop_responses :: "(string \<rightharpoonup> string) option"
  hop_security :: "string list"
  hop_middlewares :: "('w handler \<Rightarrow> 'w handler) list"

text \<open>A response is declared by its description; its schema is huma's error model.\<close>

definition declare_error_response :: "'w operation \<Rightarrow> int \<Rightarrow> 'w operation" where
  "declare_error_response op st =
     (let rs = (case hop_responses op of None \<Rightarrow> Map.empty | Some m \<Rightarrow> m); key = show_int st in
      if rs key \<noteq> None then op\<lparr>hop_responses := Some rs\<rparr>
      else op\<lparr>hop_responses := Some (rs(key \<mapsto> status_text st))\<rparr>)"

definition protected_operation :: "'w operation \<Rightarrow> 'w operation" where
  "protected_operation op =
     declare_error_response (op\<lparr>hop_security := [''cookieAuth'', ''bearerAuth'']\<rparr>) 401"

definition requirement_extension :: "requirement list \<Rightarrow> extension" where
  "requirement_extension qs =
     (let values = map (\<lambda>q. (rq_resource q, rq_access q)) qs in
      case values of [(r, a)] \<Rightarrow> OneRequirement r a | _ \<Rightarrow> AllRequirements values)"

definition merge_extensions :: "(string \<rightharpoonup> extension) option \<Rightarrow> (string \<rightharpoonup> extension) \<Rightarrow> (string \<rightharpoonup> extension)" where
  "merge_extensions current extra = (case current of None \<Rightarrow> Map.empty | Some m \<Rightarrow> m) ++ extra"

definition permission_middleware :: "'w authorizer \<Rightarrow> requirement list \<Rightarrow> 'w handler \<Rightarrow> 'w handler" where
  "permission_middleware can_do qs handler header ctx w =
     (case require_principal ctx of
        Inl e \<Rightarrow> (problem 401 ''not authenticated'', w)
      | Inr p \<Rightarrow>
          (let (r, w') = can_do (pr_id p) qs w in
           case r of
             Inl e \<Rightarrow> (problem 500 ''authorization failed'', w')
           | Inr allowed \<Rightarrow> if \<not> allowed then (problem 403 ''forbidden'', w') else handler header ctx w'))"

definition require :: "'w authorizer \<Rightarrow> 'w operation \<Rightarrow> requirement list \<Rightarrow> 'w operation" where
  "require can_do op qs =
     declare_error_response
       (op\<lparr>hop_extensions := Some (merge_extensions (hop_extensions op) [''x-authz'' \<mapsto> requirement_extension qs]),
          hop_middlewares := hop_middlewares op @ [permission_middleware can_do qs]\<rparr>) 403"

definition require_one :: "'w authorizer \<Rightarrow> string \<Rightarrow> string \<Rightarrow> 'w operation \<Rightarrow> 'w operation" where
  "require_one can_do resource required op =
     require can_do op [\<lparr>rq_resource = resource, rq_access = required\<rparr>]"

definition require_all :: "'w authorizer \<Rightarrow> 'w operation \<Rightarrow> requirement list \<Rightarrow> 'w operation" where
  "require_all can_do op qs = require can_do op qs"

text \<open>The modifiers of the groups that \<open>ResourceAPI\<close> and \<open>RequireAPI\<close> return.\<close>

definition required_for :: "string \<Rightarrow> string" where
  "required_for mth = (if mth \<in> {''POST'', ''PUT'', ''PATCH'', ''DELETE''} then access_edit else access_view)"

definition resource_api :: "'w authorizer \<Rightarrow> string \<Rightarrow> 'w operation \<Rightarrow> 'w operation" where
  "resource_api can_do resource op = require_one can_do resource (required_for (hop_method op)) op"

definition require_api :: "'w authorizer \<Rightarrow> requirement list \<Rightarrow> 'w operation \<Rightarrow> 'w operation" where
  "require_api can_do qs op = require_all can_do op qs"

text \<open>What huma does with the middlewares of an operation and its handler.\<close>

definition run_operation :: "'w operation \<Rightarrow> 'w handler \<Rightarrow> 'w handler" where
  "run_operation op handler = foldr (\<lambda>m h. m h) (hop_middlewares op) handler"

subsection \<open>Sessions\<close>

record session_body =
  sb_sso :: bool
  sb_user :: "principal option"

datatype 'a answer = Body 'a | Problem int string

definition session_error :: "goerr \<Rightarrow> 'a answer" where
  "session_error e =
     (if errors_is e ErrInvalidCredentials then Problem 401 ''invalid email or password''
      else if errors_is e ErrNotAuthenticated then Problem 401 ''not authenticated''
      else Problem 500 ''request failed'')"

definition get_session :: "('s, 'e, 'p) authn \<Rightarrow> principal option \<Rightarrow> session_body answer" where
  "get_session A ctx = Body \<lparr>sb_sso = sso_enabled A, sb_user = ctx\<rparr>"

definition create_session :: "('s, 'e, 'p) authn \<Rightarrow> string \<Rightarrow> string \<Rightarrow> ('s, 'e, principal answer) auth_op" where
  "create_session A email password w =
     (let (r, w') = login A email password w in
      (case r of Inl e \<Rightarrow> session_error e | Inr p \<Rightarrow> Body p, w'))"

definition delete_session :: "('s, 'e, 'p) authn \<Rightarrow> ('s, 'e, unit answer) auth_op" where
  "delete_session A w =
     (let (r, w') = logout A w in (case r of Inl e \<Rightarrow> session_error e | Inr _ \<Rightarrow> Body (), w'))"

end
