(* ===== verification/AuthLaws.thy ===== *)
theory AuthLaws
  imports Guards
begin

text \<open>
  Who is authenticated, and what reaches a handler: API keys, sessions, passwords, single sign-on and
  the guards around operations.
\<close>

subsection \<open>Admission\<close>

text \<open>The application admits a principal: no policy, or one that answered yes.\<close>

definition admitted :: "('s, 'e, 'p) authn \<Rightarrow> int \<Rightarrow> 'e \<Rightarrow> 'e \<Rightarrow> bool" where
  "admitted A i e e' \<longleftrightarrow> (case an_admit A of None \<Rightarrow> e' = e | Some f \<Rightarrow> f i e = (Inr True, e'))"

lemma admit_Inr:
  "admit_principal A i w = (Inr u, w') \<longleftrightarrow> fst w' = fst w \<and> admitted A i (snd w) (snd w')"
  by (cases w; cases w') (auto simp: admit_principal_def admitted_def split: option.splits sum.splits prod.splits if_splits)

lemma admit_session: "fst (snd (admit_principal A i w)) = fst w"
  by (auto simp: admit_principal_def split: option.splits prod.splits)

lemma api_key_Inr:
  "authenticate_api_key A t w = (Inr p, w') \<longleftrightarrow>
     t \<noteq> '''' \<and> fst w' = fst w \<and> id_api_key (an_store A) t (snd w) = (Inr p, snd w')"
  by (cases w') (auto simp: authenticate_api_key_def split: sum.splits prod.splits if_splits)

lemma current_Inr:
  "current_principal A w = (Inr p, w') \<longleftrightarrow>
     se_get_int (an_sessions A) session_user_key (fst w) \<noteq> 0 \<and> fst w' = fst w
     \<and> id_get (an_store A) (se_get_int (an_sessions A) session_user_key (fst w)) (snd w) = (Inr p, snd w')"
  by (cases w') (auto simp: current_principal_def Let_def split: sum.splits prod.splits if_splits)

lemma bearer_token_nonempty: "bearer_token h \<noteq> Some ''''"
  by (auto simp: bearer_token_def Let_def split: prod.splits if_splits)

lemma authenticate_Inr:
  "authenticate A header w = (Inr p, w') \<longleftrightarrow>
     (\<exists>e. (case bearer_token header of
             Some token \<Rightarrow> id_api_key (an_store A) token (snd w) = (Inr p, e)
           | None \<Rightarrow> se_get_int (an_sessions A) session_user_key (fst w) \<noteq> 0
               \<and> id_get (an_store A) (se_get_int (an_sessions A) session_user_key (fst w)) (snd w) = (Inr p, e))
        \<and> admitted A (pr_id p) e (snd w') \<and> fst w' = fst w)"
proof -
  define first where "first = (case bearer_token header of
      Some token \<Rightarrow> authenticate_api_key A token w | None \<Rightarrow> current_principal A w)"
  have f: "first = (Inr p, v) \<longleftrightarrow> fst v = fst w \<and> (case bearer_token header of
      Some token \<Rightarrow> id_api_key (an_store A) token (snd w) = (Inr p, snd v)
    | None \<Rightarrow> se_get_int (an_sessions A) session_user_key (fst w) \<noteq> 0
        \<and> id_get (an_store A) (se_get_int (an_sessions A) session_user_key (fst w)) (snd w) = (Inr p, snd v))" for v
    using bearer_token_nonempty [of header]
    by (auto simp: first_def api_key_Inr current_Inr split: option.splits)
  have "authenticate A header w = (Inr p, w') \<longleftrightarrow>
      (\<exists>v. first = (Inr p, v) \<and> admit_principal A (pr_id p) v = (Inr (), w'))"
    unfolding authenticate_def first_def [symmetric] by (auto split: sum.splits prod.splits)
  also have "\<dots> \<longleftrightarrow> (\<exists>v. first = (Inr p, v) \<and> fst w' = fst v \<and> admitted A (pr_id p) (snd v) (snd w'))"
    by (simp add: admit_Inr)
  finally show ?thesis unfolding f by (auto split: option.splits)
qed

subsection \<open>Passwords\<close>

lemma password_Inr:
  "authenticate_password A email password w = (Inr p, w') \<longleftrightarrow>
     (\<exists>d. id_password (an_store A) (trim_space email) (snd w) = (Inr d, snd w') \<and> fst w' = fst w
        \<and> p = pw_principal d \<and> ps_compare (an_passwords A) password (pw_hash d) = Inr True)"
  by (cases w') (auto simp: authenticate_password_def password_candidate_def verify_password_def Let_def
      split: sum.splits prod.splits if_splits)

lemma password_session: "fst (snd (authenticate_password A email password w)) = fst w"
  by (auto simp: authenticate_password_def password_candidate_def Let_def split: prod.splits)

lemma start_Inr:
  "start_session A i w = (Inr u, w') \<longleftrightarrow>
     (\<exists>s. admitted A i (snd w) (snd w') \<and> se_renew (an_sessions A) (fst w) = (Inr (), s)
        \<and> fst w' = se_put_int (an_sessions A) session_user_key i s)"
proof -
  have "start_session A i w = (Inr u, w') \<longleftrightarrow>
      (\<exists>v s. admit_principal A i w = (Inr (), v) \<and> se_renew (an_sessions A) (fst v) = (Inr (), s)
        \<and> w' = (se_put_int (an_sessions A) session_user_key i s, snd v))"
    by (auto simp: start_session_def split: sum.splits prod.splits)
  also have "\<dots> \<longleftrightarrow> (\<exists>v s. fst v = fst w \<and> admitted A i (snd w) (snd v) \<and> se_renew (an_sessions A) (fst w) = (Inr (), s)
        \<and> w' = (se_put_int (an_sessions A) session_user_key i s, snd v))"
    unfolding admit_Inr by metis
  finally show ?thesis by (cases w') auto
qed

lemma start_Inl:
  "start_session A i w = (Inl e, w') \<Longrightarrow>
     fst w' = fst w \<or> (\<exists>x. se_renew (an_sessions A) (fst w) = (Inl x, fst w'))"
  using admit_session [of A i w] by (auto simp: start_session_def split: sum.splits prod.splits)

lemma login_Inr:
  "login A email password w = (Inr p, w') \<longleftrightarrow>
     (\<exists>v. authenticate_password A email password w = (Inr p, v) \<and> start_session A (pr_id p) v = (Inr (), w'))"
  by (auto simp: login_def split: sum.splits prod.splits)

lemma login_Inl:
  "login A email password w = (Inl e, w') \<Longrightarrow>
     fst w' = fst w \<or> (\<exists>x. se_renew (an_sessions A) (fst w) = (Inl x, fst w'))"
  using password_session [of A email password w]
  by (auto simp: login_def split: sum.splits prod.splits) (metis fst_conv start_Inl)


subsection \<open>Single sign-on\<close>

lemma sso_principal_Inr:
  "sso_principal A email w = (Inr p, w') \<longleftrightarrow>
     fst w' = fst w \<and> id_sso (an_store A) email (snd w) = (Inr p, snd w')"
  by (cases w') (auto simp: sso_principal_def split: sum.splits prod.splits if_splits)

lemma trim_left_Nil: "trim_left_any ws [] = []"
proof -
  have "find (\<lambda>w. w \<noteq> [] \<and> prefix w []) ws = None" by (simp add: find_None_iff)
  then show ?thesis by (simp add: trim_left_any.simps)
qed

lemma trim_space_Nil: "trim_space [] = []"
  by (simp add: trim_space_def trim_left_Nil)

lemma token_email_Inr:
  "token_email P t = Inr email \<longleftrightarrow>
     email \<noteq> '''' \<and> (\<exists>claims m. it_claims t = Inr claims \<and> claims (op_email_claim P) = Some m \<and> email = trim_space m)"
  by (auto simp: token_email_def Let_def trim_space_Nil split: sum.splits option.splits if_splits)

lemma redeem_Inr:
  "redeem_code A P nonce code w = (Inr p, w') \<longleftrightarrow>
     (\<exists>token e1 raw idt e2 email.
        ox_exchange (an_oidclib A) (op_issuer P) (op_oauth P) code (snd w) = (Inr token, e1)
      \<and> tr_id_token token = Some raw \<and> raw \<noteq> ''''
      \<and> ox_verify (an_oidclib A) (op_issuer P) (ol_client_id (op_oauth P)) raw e1 = (Inr idt, e2)
      \<and> it_nonce idt = nonce \<and> token_email P idt = Inr email
      \<and> id_sso (an_store A) email e2 = (Inr p, snd w') \<and> fst w' = fst w)"
proof -
  have "redeem_code A P nonce code w = (Inr p, w') \<longleftrightarrow>
     (\<exists>token e1 raw idt e2 email.
        ox_exchange (an_oidclib A) (op_issuer P) (op_oauth P) code (snd w) = (Inr token, e1)
      \<and> tr_id_token token = Some raw \<and> raw \<noteq> ''''
      \<and> ox_verify (an_oidclib A) (op_issuer P) (ol_client_id (op_oauth P)) raw e1 = (Inr idt, e2)
      \<and> it_nonce idt = nonce \<and> token_email P idt = Inr email
      \<and> sso_principal A email (fst w, e2) = (Inr p, w'))"
    by (auto simp: redeem_code_def Let_def split: sum.splits prod.splits option.splits if_splits)
  then show ?thesis unfolding sso_principal_Inr by auto
qed

lemma redeem_session: "fst (snd (redeem_code A P nonce code w)) = fst w"
  by (auto simp: redeem_code_def sso_principal_def Let_def split: sum.splits prod.splits option.splits if_splits)

text \<open>The session after the callback has consumed what \<open>beginSSO\<close> stored.\<close>

definition consumed :: "'s sessions \<Rightarrow> 's \<Rightarrow> 's" where
  "consumed S s = snd (se_pop S sso_nonce_key (snd (se_pop S sso_state_key s)))"

lemma complete_Inr:
  "complete_sso A st code w = (Inr p, w') \<longleftrightarrow>
     (\<exists>P. an_oidc A = Some P \<and> st \<noteq> '''' \<and> fst (se_pop (an_sessions A) sso_state_key (fst w)) = st
      \<and> (\<exists>nonce. nonce \<noteq> '''' \<and> nonce = fst (se_pop (an_sessions A) sso_nonce_key
             (snd (se_pop (an_sessions A) sso_state_key (fst w))))
          \<and> redeem_code A P nonce code (consumed (an_sessions A) (fst w), snd w) = (Inr p, w')))"
  by (auto simp: complete_sso_def consumed_def Let_def split: option.splits prod.splits if_splits)

lemma complete_session:
  "an_oidc A \<noteq> None \<Longrightarrow> fst (snd (complete_sso A st code w)) = consumed (an_sessions A) (fst w)"
  by (auto simp: complete_sso_def consumed_def Let_def redeem_session split: option.splits prod.splits)

subsection \<open>Sessions\<close>

text \<open>
  The documented behaviour of \<open>scs\<close>: a value that was put is read back, a key that was popped is
  empty and leaves the other keys alone, and a destroyed session has no values.
\<close>

definition scs_laws :: "'s sessions \<Rightarrow> bool" where
  "scs_laws S \<longleftrightarrow>
     (\<forall>k i s. se_get_int S k (se_put_int S k i s) = i)
   \<and> (\<forall>k s. fst (se_pop S k (snd (se_pop S k s))) = '''')
   \<and> (\<forall>k j s. k \<noteq> j \<longrightarrow> fst (se_pop S k (snd (se_pop S j s))) = fst (se_pop S k s))
   \<and> (\<forall>k s t. se_destroy S s = (Inr (), t) \<longrightarrow> se_get_int S k t = 0)"

lemma sso_keys: "sso_state_key \<noteq> sso_nonce_key"
  by (simp add: sso_state_key_def sso_nonce_key_def)

lemma consumed_state:
  assumes "scs_laws S"
  shows "fst (se_pop S sso_state_key (consumed S s)) = ''''"
  using assms sso_keys unfolding scs_laws_def consumed_def by metis

lemma no_session:
  "bearer_token header = None \<Longrightarrow> se_get_int (an_sessions A) session_user_key (fst w) = 0
     \<Longrightarrow> authenticate A header w = (Inl (Sentinel ErrNotAuthenticated), w)"
  by (simp add: authenticate_def current_principal_def)

lemma session_user:
  assumes "scs_laws (an_sessions A)" "login A email password w = (Inr p, w')"
  shows "se_get_int (an_sessions A) session_user_key (fst w') = pr_id p"
  using assms unfolding login_Inr start_Inr scs_laws_def by auto

subsection \<open>Guards\<close>

lemma run_require:
  "run_operation (require can_do op qs) h = run_operation op (permission_middleware can_do qs h)"
  by (auto simp: run_operation_def require_def declare_error_response_def Let_def)

subsection \<open>A fixture\<close>

text \<open>One principal, sessions as two functions, passwords kept as they are, and a provider that knows one code.\<close>

type_synonym fixture_session = "(string \<Rightarrow> int) \<times> (string \<Rightarrow> string)"

definition fixture_sessions :: "fixture_session sessions" where
  "fixture_sessions = \<lparr>se_get_int = (\<lambda>k s. fst s k), se_pop = (\<lambda>k s. (snd s k, (fst s, (snd s)(k := [])))),
     se_put_int = (\<lambda>k i s. ((fst s)(k := i), snd s)), se_put = (\<lambda>k x s. (fst s, (snd s)(k := x))),
     se_renew = (\<lambda>s. (Inr (), s)), se_destroy = (\<lambda>s. (Inr (), ((\<lambda>_. 0), (\<lambda>_. []))))\<rparr>"

definition alice :: principal where
  "alice = \<lparr>pr_id = 7, pr_email = ''alice'', pr_name = ''Alice''\<rparr>"

definition lookup_alice :: "bool \<Rightarrow> principal result" where
  "lookup_alice b = (if b then Inr alice else Inl (Sentinel ErrPrincipalNotFound))"

definition fixture_identities :: "unit identities" where
  "fixture_identities = \<lparr>id_get = (\<lambda>i e. (lookup_alice (i = 7), e)),
     id_password = (\<lambda>m e. (map_sum id (\<lambda>p. \<lparr>pw_principal = p, pw_hash = ''secret''\<rparr>) (lookup_alice (m = ''alice'')), e)),
     id_sso = (\<lambda>m e. (lookup_alice (m = ''alice''), e)), id_api_key = (\<lambda>k e. (lookup_alice (k = ''key''), e)),
     id_set_key = (\<lambda>i k e. (Inr (), e)), id_clear_key = (\<lambda>i e. (Inr (), e))\<rparr>"

definition fixture_passwords :: "unit passwords" where
  "fixture_passwords = \<lparr>ps_create = (\<lambda>p e. (Inr p, e)), ps_compare = (\<lambda>p h. Inr (p = h)),
     ps_random = (\<lambda>n e. (Inr (replicate n (CHR ''a'')), e))\<rparr>"

definition fixture_oidc :: "(unit, unit) oidclib" where
  "fixture_oidc = \<lparr>ox_discover = (\<lambda>u e. (Inr (), e)), ox_auth_url = (\<lambda>p c st n. ''https://idp''),
     ox_exchange = (\<lambda>p c code e. (if code = ''code'' then Inr \<lparr>tr_id_token = Some ''raw''\<rparr> else Inl (Opaque ''bad code''), e)),
     ox_verify = (\<lambda>p c raw e. (Inr \<lparr>it_nonce = ''nonce'', it_claims = Inr [''email'' \<mapsto> ''alice'']\<rparr>, e))\<rparr>"

definition fixture_provider :: "unit oidc_provider" where
  "fixture_provider = \<lparr>op_issuer = (), op_oauth = \<lparr>ol_client_id = ''client'', ol_client_secret = ''s'',
     ol_redirect = ''https://app/callback'', ol_scopes = [''openid'']\<rparr>, op_email_claim = ''email''\<rparr>"

definition fixture_authn :: "(fixture_session, unit, unit) authn" where
  "fixture_authn = \<lparr>an_store = fixture_identities, an_sessions = fixture_sessions, an_passwords = fixture_passwords,
     an_oidclib = fixture_oidc, an_dummy = ''dummy'', an_oidc = Some fixture_provider,
     an_admit = Some (\<lambda>i e. (Inr (i = 7), e)), an_success = ''/'', an_failure = ''/login''\<rparr>"

definition fixture_visitor :: "fixture_session \<times> unit" where
  "fixture_visitor = ((\<lambda>_. 0, (\<lambda>_. [])(sso_state_key := ''state'', sso_nonce_key := ''nonce'')), ())"

lemmas fixture_auth_simps = fixture_authn_def fixture_sessions_def fixture_identities_def fixture_passwords_def
  fixture_oidc_def fixture_provider_def lookup_alice_def alice_def

lemma fixture_scs: "scs_laws (an_sessions fixture_authn)"
  by (simp add: scs_laws_def fixture_authn_def fixture_sessions_def)

lemma trim_alice: "trim_space ''alice'' = ''alice''" "trim_space ''bob'' = ''bob''"
  by code_simp+

definition fixture_user :: "fixture_session \<times> unit" where
  "fixture_user = (((\<lambda>_. 0)(session_user_key := 7), snd (fst fixture_visitor)), ())"

lemma fixture_login: "login fixture_authn ''alice'' ''secret'' fixture_visitor = (Inr alice, fixture_user)"
proof -
  have "authenticate_password fixture_authn ''alice'' ''secret'' fixture_visitor = (Inr alice, fixture_visitor)"
    unfolding password_Inr by (simp add: trim_alice fixture_auth_simps)
  moreover have "start_session fixture_authn 7 fixture_visitor = (Inr (), fixture_user)"
    unfolding start_Inr by (simp add: admitted_def fixture_auth_simps fixture_user_def fixture_visitor_def)
  ultimately show ?thesis unfolding login_Inr by (auto simp: alice_def)
qed


subsection \<open>Properties\<close>

text \<open>
  C29: Authentication is exact. A request is authenticated as a principal iff the application admits the
  principal and it is the one that owns the API key, when the Authorization header carries a bearer
  token, and the one that the identity store has for the user id of the session otherwise, a session
  without a user id having none; the session is left as it was.
\<close>

theorem authenticate_exact:
  "authenticate A header w = (Inr p, w') \<longleftrightarrow>
     (\<exists>e. (case bearer_token header of
             Some token \<Rightarrow> id_api_key (an_store A) token (snd w) = (Inr p, e)
           | None \<Rightarrow> se_get_int (an_sessions A) session_user_key (fst w) \<noteq> 0
               \<and> id_get (an_store A) (se_get_int (an_sessions A) session_user_key (fst w)) (snd w) = (Inr p, e))
        \<and> admitted A (pr_id p) e (snd w') \<and> fst w' = fst w)"
  by (rule authenticate_Inr)

text \<open>
  C30: Login. A login that succeeds found a password identity under the trimmed email, the comparison of
  the password with its hash said yes, the application admitted the principal, and the session was
  renewed before the user id was put into it. A login that fails leaves the session as it was, except
  that its renewal may have been tried and have failed.
\<close>

theorem login_exact:
  "case login A email password w of
     (Inr p, w') \<Rightarrow> \<exists>d e s. id_password (an_store A) (trim_space email) (snd w) = (Inr d, e)
       \<and> ps_compare (an_passwords A) password (pw_hash d) = Inr True \<and> p = pw_principal d
       \<and> admitted A (pr_id p) e (snd w') \<and> se_renew (an_sessions A) (fst w) = (Inr (), s)
       \<and> fst w' = se_put_int (an_sessions A) session_user_key (pr_id p) s
   | (Inl x, w') \<Rightarrow> fst w' = fst w \<or> (\<exists>y. se_renew (an_sessions A) (fst w) = (Inl y, fst w'))"
proof -
  obtain r w' where r: "login A email password w = (r, w')" by (meson surj_pair)
  show ?thesis
  proof (cases r)
    case (Inl x)
    with r login_Inl [of A email password w x w'] show ?thesis by simp
  next
    case (Inr p)
    from r Inr have "login A email password w = (Inr p, w')" by simp
    then obtain v where v: "authenticate_password A email password w = (Inr p, v)"
        "start_session A (pr_id p) v = (Inr (), w')"
      unfolding login_Inr by blast
    from v(1) obtain d where "id_password (an_store A) (trim_space email) (snd w) = (Inr d, snd v)" "fst v = fst w"
        "p = pw_principal d" "ps_compare (an_passwords A) password (pw_hash d) = Inr True"
      unfolding password_Inr by blast
    with v(2) r Inr show ?thesis unfolding start_Inr by auto
  qed
qed

lemma refused_login:
  assumes "authenticate_password A email password w = (Inl (Sentinel ErrInvalidCredentials), w')"
  shows "create_session A email password w = (Problem 401 ''invalid email or password'', w')"
  using assms by (simp add: create_session_def login_def session_error_def)

text \<open>
  C31: A login does not reveal which emails exist. For an email that the store does not know, whatever the
  comparison with the dummy hash says, and for a known one with a wrong password, the session endpoint
  gives the same answer, 401 with the same message, and the session is left as it was.
\<close>

theorem credentials_not_revealed:
  assumes "id_password (an_store A) (trim_space stranger) (snd w) = (Inl x, e1)" "errors_is x ErrPrincipalNotFound"
    and "ps_compare (an_passwords A) password (an_dummy A) = Inr b"
    and "id_password (an_store A) (trim_space member) (snd w) = (Inr d, e2)"
    and "ps_compare (an_passwords A) password (pw_hash d) = Inr False"
  shows "create_session A stranger password w = (Problem 401 ''invalid email or password'', (fst w, e1))
    \<and> create_session A member password w = (Problem 401 ''invalid email or password'', (fst w, e2))"
  using assms by (intro conjI refused_login)
    (simp_all add: authenticate_password_def password_candidate_def verify_password_def)

theorem credentials_not_revealed_witness:
  "create_session fixture_authn ''bob'' ''guess'' fixture_visitor = create_session fixture_authn ''alice'' ''guess'' fixture_visitor"
  using credentials_not_revealed [of fixture_authn "''bob''" fixture_visitor "Sentinel ErrPrincipalNotFound" "()" "''guess''"
    False "''alice''" "\<lparr>pw_principal = alice, pw_hash = ''secret''\<rparr>" "()"]
  by (simp add: trim_alice fixture_auth_simps)

text \<open>
  C32: From login to logout. With sessions that behave as \<open>scs\<close> documents, the requests of a session that
  logged in, and carry no bearer token, are authenticated as the principal that the identity store
  then has for the id that logged in, if the application then admits it; and once a logout succeeded
  none is authenticated, without a question to the store.
\<close>

theorem session_round_trip:
  assumes "scs_laws (an_sessions A)" "login A email password w = (Inr p, w')" "pr_id p \<noteq> 0"
    and "bearer_token header = None"
    and "id_get (an_store A) (pr_id p) e = (Inr q, e1)" "admitted A (pr_id q) e1 e2"
    and "logout A (fst w', e3) = (Inr (), v)"
  shows "authenticate A header (fst w', e) = (Inr q, (fst w', e2))
    \<and> authenticate A header v = (Inl (Sentinel ErrNotAuthenticated), v)"
proof
  show "authenticate A header (fst w', e) = (Inr q, (fst w', e2))"
    unfolding authenticate_Inr using assms session_user [OF assms(1,2)] by auto
  have "se_get_int (an_sessions A) session_user_key (fst v) = 0"
    using assms(1,7) by (auto simp: logout_def scs_laws_def split: sum.splits prod.splits)
  then show "authenticate A header v = (Inl (Sentinel ErrNotAuthenticated), v)"
    by (rule no_session [OF assms(4)])
qed

theorem session_round_trip_witness:
  "authenticate fixture_authn [] fixture_user = (Inr alice, fixture_user)
   \<and> authenticate fixture_authn [] (snd (logout fixture_authn fixture_user))
     = (Inl (Sentinel ErrNotAuthenticated), snd (logout fixture_authn fixture_user))"
proof -
  have b: "bearer_token [] = None" by code_simp
  show ?thesis
    using session_round_trip [OF fixture_scs fixture_login _ b, of "()" alice "()" "()" "()" "snd (logout fixture_authn fixture_user)"]
    by (simp add: admitted_def fixture_auth_simps logout_def fixture_user_def)
qed

text \<open>
  C33: Single sign-on is sound. A callback that succeeds carried the nonempty state that its own session
  began with, its code was exchanged for an ID token that the verifier accepted and whose nonce is the
  nonempty one of the session, and the principal is the one the store has for the trimmed, nonempty
  email claim. The hypothesis on the sessions is what \<open>scs\<close> documents.
\<close>

theorem sso_sound:
  assumes "scs_laws (an_sessions A)" "complete_sso A st code w = (Inr p, w')"
  shows "\<exists>P nonce token e1 raw idt e2 claims m.
      an_oidc A = Some P \<and> st \<noteq> [] \<and> st = fst (se_pop (an_sessions A) sso_state_key (fst w))
    \<and> nonce \<noteq> [] \<and> nonce = fst (se_pop (an_sessions A) sso_nonce_key (fst w))
    \<and> ox_exchange (an_oidclib A) (op_issuer P) (op_oauth P) code (snd w) = (Inr token, e1)
    \<and> tr_id_token token = Some raw
    \<and> ox_verify (an_oidclib A) (op_issuer P) (ol_client_id (op_oauth P)) raw e1 = (Inr idt, e2)
    \<and> it_nonce idt = nonce \<and> it_claims idt = Inr claims \<and> claims (op_email_claim P) = Some m
    \<and> trim_space m \<noteq> [] \<and> id_sso (an_store A) (trim_space m) e2 = (Inr p, snd w')"
proof -
  have n: "fst (se_pop (an_sessions A) sso_nonce_key (snd (se_pop (an_sessions A) sso_state_key (fst w))))
      = fst (se_pop (an_sessions A) sso_nonce_key (fst w))"
    using assms(1) sso_keys unfolding scs_laws_def by metis
  show ?thesis
    using assms(2) unfolding complete_Inr redeem_Inr token_email_Inr n by (elim exE conjE, simp)
qed

lemma fixture_complete: "complete_sso fixture_authn ''state'' ''code'' fixture_visitor
    = (Inr alice, (consumed fixture_sessions (fst fixture_visitor), ()))"
  unfolding complete_Inr redeem_Inr token_email_Inr
  by (simp add: fixture_auth_simps fixture_visitor_def trim_alice sso_state_key_def sso_nonce_key_def)

theorem sso_sound_witness:
  "\<exists>P nonce. an_oidc fixture_authn = Some P \<and> ''state'' = fst (se_pop fixture_sessions sso_state_key (fst fixture_visitor))
    \<and> nonce \<noteq> [] \<and> nonce = fst (se_pop fixture_sessions sso_nonce_key (fst fixture_visitor))"
proof -
  have "an_sessions fixture_authn = fixture_sessions" by (simp add: fixture_authn_def)
  then show ?thesis using sso_sound [OF fixture_scs fixture_complete] by auto
qed

text \<open>
  Of the sessions the handler of the callback uses more: renewing the token of a session keeps its
  values, and so does putting the user id for every other key.
\<close>

definition scs_keeps :: "'s sessions \<Rightarrow> bool" where
  "scs_keeps S \<longleftrightarrow>
     (\<forall>k s. fst (se_pop S k (snd (se_renew S s))) = fst (se_pop S k s))
   \<and> (\<forall>k j i s. k \<noteq> j \<longrightarrow> fst (se_pop S k (se_put_int S j i s)) = fst (se_pop S k s))"

definition carries_code :: "callback \<Rightarrow> bool" where
  "carries_code q \<longleftrightarrow> cb_error q = '''' \<and> cb_state q \<noteq> '''' \<and> cb_code q \<noteq> ''''"

text \<open>The answer to a callback on a session without a sign-on under way.\<close>

definition sso_refusal :: "netlib \<Rightarrow> ('s, 'e, 'p) authn \<Rightarrow> callback \<Rightarrow> http_response" where
  "sso_refusal N A q = redirect_sso_error N A
     (if cb_error q \<noteq> '''' then cb_error q
      else if cb_state q = '''' \<or> cb_code q = '''' then ''missing state or code''
      else ''sso state mismatch; try again'')"

fun sso_callbacks :: "netlib \<Rightarrow> ('s, 'e, 'p) authn \<Rightarrow> callback list \<Rightarrow> ('s, 'e, http_response list) auth_op" where
  "sso_callbacks N A [] w = ([], w)"
| "sso_callbacks N A (q # qs) w =
     (let (r, w1) = sso_callback N A q w; (rs, w2) = sso_callbacks N A qs w1 in (r # rs, w2))"

definition spent :: "'s sessions \<Rightarrow> 's \<Rightarrow> bool" where
  "spent S s \<longleftrightarrow> fst (se_pop S sso_state_key s) = ''''"

lemma spent_consumed: "scs_laws S \<Longrightarrow> spent S (consumed S s)"
  by (simp add: spent_def consumed_state)

lemma spent_start:
  assumes "scs_keeps (an_sessions A)" "spent (an_sessions A) (fst w)"
  shows "spent (an_sessions A) (fst (snd (start_session A i w)))"
proof -
  have "sso_state_key \<noteq> session_user_key" by (simp add: sso_state_key_def session_user_key_def)
  moreover have "fst (snd (admit_principal A i w)) = fst w" by (simp add: admit_session)
  ultimately show ?thesis
    using assms unfolding scs_keeps_def spent_def
    by (auto simp: start_session_def Let_def split: prod.splits sum.splits) (metis fst_conv snd_conv)+
qed

lemma callback_spends:
  assumes "scs_laws (an_sessions A)" "scs_keeps (an_sessions A)" "sso_enabled A" "carries_code q"
  shows "spent (an_sessions A) (fst (snd (sso_callback N A q w)))"
proof -
  have "an_oidc A \<noteq> None" using assms(3) by (simp add: sso_enabled_def)
  then have "fst (snd (complete_sso A (cb_state q) (cb_code q) w)) = consumed (an_sessions A) (fst w)"
    by (rule complete_session)
  then have "spent (an_sessions A) (fst (snd (complete_sso A (cb_state q) (cb_code q) w)))"
    using spent_consumed [OF assms(1)] by simp
  with spent_start [OF assms(2)] assms(4) show ?thesis
    by (auto simp: sso_callback_def carries_code_def Let_def split: prod.splits sum.splits) (metis fst_conv snd_conv)+
qed

lemma spent_refused:
  assumes "scs_laws (an_sessions A)" "sso_enabled A" "spent (an_sessions A) (fst w)"
  obtains s where "sso_callback N A q w = (sso_refusal N A q, (s, snd w))" "spent (an_sessions A) s"
proof (cases "carries_code q")
  case True
  obtain P where "an_oidc A = Some P" using assms(2) by (auto simp: sso_enabled_def)
  with assms(3) have "complete_sso A (cb_state q) (cb_code q) w
      = (Inl (Sentinel ErrSSOStateMismatch), (consumed (an_sessions A) (fst w), snd w))"
    by (auto simp: complete_sso_def spent_def consumed_def Let_def split: prod.splits)
  with True have "sso_callback N A q w = (sso_refusal N A q, (consumed (an_sessions A) (fst w), snd w))"
    by (simp add: sso_callback_def carries_code_def sso_refusal_def oidc_user_message_def)
  with spent_consumed [OF assms(1)] that show thesis by blast
next
  case False
  then have "sso_callback N A q w = (sso_refusal N A q, (fst w, snd w))"
    by (auto simp: sso_callback_def carries_code_def sso_refusal_def)
  with assms(3) that show thesis by blast
qed

text \<open>
  C34: A sign-on is used once. With sessions that behave as \<open>scs\<close> documents, after the handler of the
  callback served a request that carries a state and a code and no error of the provider, whether
  the sign-on succeeded or failed and for whatever reason, every further callback on the session, in
  any number and with any parameters, is refused before a code is exchanged. A request without a
  state or a code, or with an error of the provider, consumes nothing and changes nothing.
\<close>

theorem sso_single_use:
  assumes "scs_laws (an_sessions A)" "scs_keeps (an_sessions A)" "sso_enabled A"
  shows "if carries_code q
    then fst (sso_callbacks N A qs (snd (sso_callback N A q w))) = map (sso_refusal N A) qs
      \<and> snd (snd (sso_callbacks N A qs (snd (sso_callback N A q w)))) = snd (snd (sso_callback N A q w))
    else sso_callback N A q w = (sso_refusal N A q, w)"
proof (cases "carries_code q")
  case True
  have "fst (sso_callbacks N A qs v) = map (sso_refusal N A) qs \<and> snd (snd (sso_callbacks N A qs v)) = snd v"
    if "spent (an_sessions A) (fst v)" for v
    using that
  proof (induction qs arbitrary: v)
    case (Cons r qs)
    obtain s where "sso_callback N A r v = (sso_refusal N A r, (s, snd v))" "spent (an_sessions A) s"
      using spent_refused [OF assms(1,3) Cons.prems] by blast
    with Cons.IH [of "(s, snd v)"] show ?case by (auto simp: Let_def split: prod.splits)
  qed simp
  with callback_spends [OF assms True] True show ?thesis by simp
next
  case False
  then show ?thesis by (auto simp: sso_callback_def carries_code_def sso_refusal_def)
qed

definition fixture_net :: netlib where
  "fixture_net = \<lparr>nl_scheme_host = (\<lambda>u. None), nl_set_query = (\<lambda>u k v. Some (u @ ''?'' @ k @ ''='' @ v))\<rparr>"

definition fixture_callback :: callback where
  "fixture_callback = \<lparr>cb_error = '''', cb_state = ''state'', cb_code = ''code''\<rparr>"

lemma fixture_keeps: "scs_keeps (an_sessions fixture_authn)"
  by (simp add: scs_keeps_def fixture_authn_def fixture_sessions_def)

theorem sso_single_use_witness:
  "fst (sso_callback fixture_net fixture_authn fixture_callback fixture_visitor) = redirect (an_success fixture_authn)
   \<and> fst (sso_callbacks fixture_net fixture_authn [fixture_callback]
        (snd (sso_callback fixture_net fixture_authn fixture_callback fixture_visitor)))
      = [sso_refusal fixture_net fixture_authn fixture_callback]"
proof
  have "\<exists>v. start_session fixture_authn 7 (consumed fixture_sessions (fst fixture_visitor), ()) = (Inr (), v)"
    unfolding start_Inr by (simp add: admitted_def fixture_auth_simps)
  then show "fst (sso_callback fixture_net fixture_authn fixture_callback fixture_visitor) = redirect (an_success fixture_authn)"
    by (auto simp: sso_callback_def fixture_callback_def fixture_complete alice_def)
  show "fst (sso_callbacks fixture_net fixture_authn [fixture_callback]
        (snd (sso_callback fixture_net fixture_authn fixture_callback fixture_visitor)))
      = [sso_refusal fixture_net fixture_authn fixture_callback]"
    using sso_single_use [OF fixture_scs fixture_keeps, where N = fixture_net and q = fixture_callback
        and qs = "[fixture_callback]" and w = fixture_visitor]
    by (simp add: carries_code_def fixture_callback_def) (simp add: sso_enabled_def fixture_authn_def)
qed


definition method_level :: "string \<Rightarrow> int" where
  "method_level mth = (if mth \<in> {''POST'', ''PUT'', ''PATCH'', ''DELETE''} then 2 else 1)"

lemma required_level: "level (required_for mth) = method_level mth"
  by (simp add: required_for_def method_level_def level_values)

lemma run_resource:
  assumes "hop_middlewares op = []"
  shows "run_operation (resource_api can_do resource op) h
    = permission_middleware can_do [\<lparr>rq_resource = resource, rq_access = required_for (hop_method op)\<rparr>] h"
  unfolding resource_api_def require_one_def run_require by (simp add: run_operation_def assms)

text \<open>Every outcome of a question for one requirement of a valid access.\<close>

lemma can_all_one:
  assumes "0 \<le> level a"
  shows "(\<exists>e. can_all Z i [\<lparr>rq_resource = resource, rq_access = a\<rparr>] w = (Inl e, w)) \<and> resource \<notin> set (az_resources Z)
    \<or> resource \<in> set (az_resources Z) \<and> (\<exists>g w'. az_grants Z i w = (g, w') \<and> (case g of
        Inl e \<Rightarrow> \<exists>x. can_all Z i [\<lparr>rq_resource = resource, rq_access = a\<rparr>] w = (Inl x, w')
      | Inr gs \<Rightarrow> if list_all (valid_grant Z) gs
          then can_all Z i [\<lparr>rq_resource = resource, rq_access = a\<rparr>] w = (Inr (level a \<le> highest gs resource), w')
          else \<exists>x. can_all Z i [\<lparr>rq_resource = resource, rq_access = a\<rparr>] w = (Inl x, w')))"
proof (cases "resource \<in> set (az_resources Z)")
  case False
  then have "validate_access Z resource a \<noteq> None" by (simp add: validate_access_def)
  with False show ?thesis by (auto simp: can_all_def)
next
  case True
  let ?q = "\<lparr>rq_resource = resource, rq_access = a\<rparr>"
  have "validate_all Z [?q] = None" unfolding validate_all_None using True assms by simp
  then have snd: "snd (can_all Z i [?q] w) = snd (az_grants Z i w)"
    by (simp add: can_all_def effective_permissions_def split: prod.split)
  obtain g w' where g: "az_grants Z i w = (g, w')" by fastforce
  obtain c where c: "can_all Z i [?q] w = (c, w')" using snd g by (metis prod.collapse snd_conv)
  have iff: "c = Inr b \<longleftrightarrow> (\<exists>gs. g = Inr gs \<and> list_all (valid_grant Z) gs \<and> b = (level a \<le> highest gs resource))" for b
    using can_all_iff [of Z i "[?q]" w b] c g True assms by simp
  show ?thesis using True g c iff by (cases c; cases g) (auto split: if_splits)
qed

text \<open>
  C28: Who reaches the handler of a resource. Behind \<open>RequireAuth\<close> and \<open>ResourceAPI\<close>, on an operation without
  middlewares of its own, the answer and the world are exactly these. A request that is not
  authenticated is answered 401, or 500 when authentication failed otherwise; for a resource
  outside the catalogue, or grants that cannot be read or are not all valid, the answer is 500; when
  the highest access granted on the resource does not cover the method of the operation (edit for
  POST, PUT, PATCH and DELETE, and view for the others), it is 403. In all these cases the handler
  has not run: nothing of it shows in the answer or in the world. Only otherwise the handler runs, for
  the principal, in the world after its grants were read, and the answer is the handler's.
\<close>

theorem guarded_operation:
  assumes "hop_middlewares op = []"
  shows "require_auth (authenticate A) (run_operation (resource_api (can_all Z) resource op) h) header ctx w =
    (case authenticate A header w of
       (Inl e, w1) \<Rightarrow>
         (if errors_is e ErrNotAuthenticated then problem 401 ''not authenticated'' else problem 500 ''request failed'', w1)
     | (Inr p, w1) \<Rightarrow>
         if resource \<notin> set (az_resources Z) then (problem 500 ''authorization failed'', w1)
         else (case az_grants Z (pr_id p) w1 of
             (Inl e, w2) \<Rightarrow> (problem 500 ''authorization failed'', w2)
           | (Inr gs, w2) \<Rightarrow>
               if \<not> list_all (valid_grant Z) gs then (problem 500 ''authorization failed'', w2)
               else if method_level (hop_method op) \<le> highest gs resource then h header (Some p) w2
               else (problem 403 ''forbidden'', w2)))"
proof (cases "fst (authenticate A header w)")
  case (Inl e)
  then show ?thesis by (auto simp: require_auth_def split: prod.split)
next
  case (Inr p)
  then obtain w1 where p: "authenticate A header w = (Inr p, w1)" by (metis prod.collapse)
  have level: "0 \<le> level (required_for (hop_method op))" "level (required_for (hop_method op)) = method_level (hop_method op)"
    by (simp_all add: required_level method_level_def)
  let ?q = "\<lparr>rq_resource = resource, rq_access = required_for (hop_method op)\<rparr>"
  have run: "require_auth (authenticate A) (run_operation (resource_api (can_all Z) resource op) h) header ctx w
      = (case can_all Z (pr_id p) [?q] w1 of
          (Inl e, w2) \<Rightarrow> (problem 500 ''authorization failed'', w2)
        | (Inr True, w2) \<Rightarrow> h header (Some p) w2 | (Inr False, w2) \<Rightarrow> (problem 403 ''forbidden'', w2))"
    unfolding run_resource [OF assms]
    by (auto simp: require_auth_def p permission_middleware_def require_principal_def split: prod.split sum.split bool.split)
  from can_all_one [OF level(1), of Z "pr_id p" resource w1] show ?thesis
  proof (elim disjE conjE exE)
    fix e
    assume "can_all Z (pr_id p) [?q] w1 = (Inl e, w1)" "resource \<notin> set (az_resources Z)"
    then show ?thesis unfolding run p by simp
  next
    fix g w2
    assume r: "resource \<in> set (az_resources Z)" and g: "az_grants Z (pr_id p) w1 = (g, w2)"
      and c: "case g of Inl e \<Rightarrow> \<exists>x. can_all Z (pr_id p) [?q] w1 = (Inl x, w2)
        | Inr gs \<Rightarrow> if list_all (valid_grant Z) gs
            then can_all Z (pr_id p) [?q] w1 = (Inr (level (required_for (hop_method op)) \<le> highest gs resource), w2)
            else \<exists>x. can_all Z (pr_id p) [?q] w1 = (Inl x, w2)"
    show ?thesis
    proof (cases g)
      case (Inl e)
      with c r show ?thesis by (auto simp: run p g)
    next
      case (Inr gs)
      with c r show ?thesis by (auto simp: run p g level(2))
    qed
  qed
qed

definition fixture_authz :: "(fixture_session \<times> unit) authz" where
  "fixture_authz = \<lparr>az_grants = (\<lambda>i w. (Inr [\<lparr>gr_resource = ''users'', gr_access = ''edit''\<rparr>], w)), az_resources = [''users'']\<rparr>"

definition fixture_operation :: "(fixture_session \<times> unit) operation" where
  "fixture_operation = \<lparr>hop_method = ''POST'', hop_extensions = None, hop_responses = None, hop_security = [],
     hop_middlewares = []\<rparr>"

definition fixture_handler :: "(fixture_session \<times> unit) handler" where
  "fixture_handler header ctx w = (\<lparr>rs_status = 201, rs_header = [], rs_body = []\<rparr>, w)"

theorem guarded_operation_witness:
  "require_auth (authenticate fixture_authn)
      (run_operation (resource_api (can_all fixture_authz) ''users'' fixture_operation) fixture_handler) [] None fixture_user
    = fixture_handler [] (Some alice) fixture_user"
proof -
  have m: "hop_middlewares fixture_operation = []" by (simp add: fixture_operation_def)
  have b: "bearer_token [] = None" by code_simp
  have a: "authenticate fixture_authn [] fixture_user = (Inr alice, fixture_user)"
    unfolding authenticate_Inr by (simp add: b admitted_def fixture_auth_simps fixture_user_def)
  have "method_level (hop_method fixture_operation) \<le> highest [\<lparr>gr_resource = ''users'', gr_access = ''edit''\<rparr>] ''users''"
    "valid_grant fixture_authz \<lparr>gr_resource = ''users'', gr_access = ''edit''\<rparr>" by code_simp+
  then show ?thesis
    unfolding guarded_operation [OF m] a by (simp add: fixture_authz_def)
qed

text \<open>
  The two adapters agree. For every request, the guards of \<open>auth/http\<close> and those of \<open>auth/huma\<close> around
  the same handler leave the same world and answer with the same status.
\<close>

theorem adapters_agree:
  "map_prod rs_status id
     (http_require_auth auth (http_require_permission can_do resource required h) header ctx w)
   = map_prod rs_status id
     (require_auth auth (permission_middleware can_do [\<lparr>rq_resource = resource, rq_access = required\<rparr>] h) header ctx w)"
  by (auto simp: http_require_auth_def require_auth_def http_require_permission_def permission_middleware_def
      require_principal_def http_error_def problem_def Let_def split: sum.splits prod.splits)

end
