(* ===== verification/PgLock.thy ===== *)
theory PgLock
  imports Prelude
begin

text \<open>
  \<open>pglock/lock.go\<close>: callbacks under a PostgreSQL session advisory lock. A database is its lock table
  and its open sessions; a call of \<open>Try\<close> or \<open>With\<close> is a process that moves from phase to phase, one
  statement at a time, interleaved with the other calls in any order. Connecting, asking for the
  lock and the work may fail, the work may panic, and the server may drop a session at any time.
\<close>

subsection \<open>The server\<close>

type_synonym session = nat

text \<open>A pool is the database its configuration connects to.\<close>

type_synonym pool = nat

record server =
  sr_locks :: "pool \<times> int \<rightharpoonup> session"
  sr_open :: "session set"
  sr_next :: session

definition srv_connect :: "server \<Rightarrow> session \<times> server" where
  "srv_connect v = (sr_next v, v\<lparr>sr_open := insert (sr_next v) (sr_open v), sr_next := Suc (sr_next v)\<rparr>)"

definition srv_free :: "pool \<times> int \<Rightarrow> session \<Rightarrow> server \<Rightarrow> bool" where
  "srv_free k s v \<longleftrightarrow> sr_locks v k = None \<or> sr_locks v k = Some s"

definition srv_grant :: "pool \<times> int \<Rightarrow> session \<Rightarrow> server \<Rightarrow> server" where
  "srv_grant k s v = v\<lparr>sr_locks := (sr_locks v)(k \<mapsto> s)\<rparr>"

text \<open>The end of a session releases what it holds.\<close>

definition srv_end :: "session \<Rightarrow> server \<Rightarrow> server" where
  "srv_end s v = v\<lparr>sr_locks := (\<lambda>k. if sr_locks v k = Some s then None else sr_locks v k),
     sr_open := sr_open v - {s}\<rparr>"

subsection \<open>A call\<close>

record locker =
  lk_pool :: pool
  lk_key :: int

definition new_locker :: "pool \<Rightarrow> int \<Rightarrow> locker" where
  "new_locker pool key = \<lparr>lk_pool = pool, lk_key = key\<rparr>"

definition lock_id :: "locker \<Rightarrow> pool \<times> int" where
  "lock_id L = (lk_pool L, lk_key L)"

text \<open>How \<open>run\<close> ends: with its two results, or with the panic of the work.\<close>

datatype ending = Returned bool "goerr option" | Panicked

datatype phase =
    Calling
  | Connected session
  | Working session
  | Closing session ending
  | Finished ending

text \<open>The program counter of \<open>run\<close>, after the answer to each of its calls.\<close>

definition on_connect :: "session result \<Rightarrow> phase" where
  "on_connect r = (case r of
     Inl e \<Rightarrow> Finished (Returned False (Some (Wrap ''connect for advisory lock'' [e])))
   | Inr s \<Rightarrow> Connected s)"

definition on_exec :: "session \<Rightarrow> goerr option \<Rightarrow> phase" where
  "on_exec s r = (case r of
     Some e \<Rightarrow> Closing s (Returned False (Some (Wrap ''acquire advisory lock'' [e])))
   | None \<Rightarrow> Working s)"

definition on_try :: "session \<Rightarrow> bool result \<Rightarrow> phase" where
  "on_try s r = (case r of
     Inl e \<Rightarrow> Closing s (Returned False (Some (Wrap ''acquire advisory lock'' [e])))
   | Inr acquired \<Rightarrow> if \<not> acquired then Closing s (Returned False None) else Working s)"

text \<open>\<open>return true, work(ctx)\<close>, where no result is the panic of the work.\<close>

definition on_work :: "session \<Rightarrow> goerr option option \<Rightarrow> phase" where
  "on_work s r = (case r of None \<Rightarrow> Closing s Panicked | Some e \<Rightarrow> Closing s (Returned True e))"

record call =
  ca_locker :: locker
  ca_wait :: bool

definition call_try :: "locker \<Rightarrow> call" where
  "call_try L = \<lparr>ca_locker = L, ca_wait = False\<rparr>"

definition call_with :: "locker \<Rightarrow> call" where
  "call_with L = \<lparr>ca_locker = L, ca_wait = True\<rparr>"

text \<open>What \<open>With\<close> returns of the two results of \<open>run\<close>; no value is the panic.\<close>

definition with_result :: "ending \<Rightarrow> goerr option option" where
  "with_result x = (case x of Returned _ e \<Rightarrow> Some e | Panicked \<Rightarrow> None)"

subsection \<open>Interleaving\<close>

text \<open>The calls are numbered; \<open>st_runs\<close> counts how often the work of each was started.\<close>

record lock_state =
  st_server :: server
  st_phase :: "nat \<Rightarrow> phase"
  st_runs :: "nat \<Rightarrow> nat"

definition started :: "nat \<Rightarrow> phase \<Rightarrow> (nat \<Rightarrow> nat) \<Rightarrow> (nat \<Rightarrow> nat)" where
  "started p ph n = (case ph of Working _ \<Rightarrow> n(p := Suc (n p)) | _ \<Rightarrow> n)"

definition move :: "nat \<Rightarrow> phase \<Rightarrow> server \<Rightarrow> lock_state \<Rightarrow> lock_state" where
  "move p ph v w = w\<lparr>st_server := v, st_phase := (st_phase w)(p := ph), st_runs := started p ph (st_runs w)\<rparr>"

text \<open>
  \<open>pg_advisory_lock\<close> answers when the lock is free; a call that is cancelled or fails may still have
  been granted the lock. \<open>pg_try_advisory_lock\<close> answers at once.
\<close>

inductive lock_step :: "(nat \<Rightarrow> call) \<Rightarrow> lock_state \<Rightarrow> lock_state \<Rightarrow> bool" for K where
  connect_error:
    "st_phase w p = Calling \<Longrightarrow> lock_step K w (move p (on_connect (Inl e)) (st_server w) w)"
| connect:
    "st_phase w p = Calling \<Longrightarrow> srv_connect (st_server w) = (s, v)
     \<Longrightarrow> lock_step K w (move p (on_connect (Inr s)) v w)"
| exec:
    "st_phase w p = Connected s \<Longrightarrow> ca_wait (K p) \<Longrightarrow> s \<in> sr_open (st_server w)
     \<Longrightarrow> srv_free (lock_id (ca_locker (K p))) s (st_server w)
     \<Longrightarrow> lock_step K w (move p (on_exec s None) (srv_grant (lock_id (ca_locker (K p))) s (st_server w)) w)"
| exec_error:
    "st_phase w p = Connected s \<Longrightarrow> ca_wait (K p)
     \<Longrightarrow> lock_step K w (move p (on_exec s (Some e)) (st_server w) w)"
| exec_cancelled:
    "st_phase w p = Connected s \<Longrightarrow> ca_wait (K p) \<Longrightarrow> s \<in> sr_open (st_server w)
     \<Longrightarrow> srv_free (lock_id (ca_locker (K p))) s (st_server w)
     \<Longrightarrow> lock_step K w (move p (on_exec s (Some e)) (srv_grant (lock_id (ca_locker (K p))) s (st_server w)) w)"
| try_free:
    "st_phase w p = Connected s \<Longrightarrow> \<not> ca_wait (K p) \<Longrightarrow> s \<in> sr_open (st_server w)
     \<Longrightarrow> srv_free (lock_id (ca_locker (K p))) s (st_server w) \<Longrightarrow> r = Inr True \<or> r = Inl e
     \<Longrightarrow> lock_step K w (move p (on_try s r) (srv_grant (lock_id (ca_locker (K p))) s (st_server w)) w)"
| try_held:
    "st_phase w p = Connected s \<Longrightarrow> \<not> ca_wait (K p) \<Longrightarrow> s \<in> sr_open (st_server w)
     \<Longrightarrow> \<not> srv_free (lock_id (ca_locker (K p))) s (st_server w)
     \<Longrightarrow> lock_step K w (move p (on_try s (Inr False)) (st_server w) w)"
| try_error:
    "st_phase w p = Connected s \<Longrightarrow> \<not> ca_wait (K p)
     \<Longrightarrow> lock_step K w (move p (on_try s (Inl e)) (st_server w) w)"
| work_end:
    "st_phase w p = Working s \<Longrightarrow> lock_step K w (move p (on_work s r) (st_server w) w)"
| close:
    "st_phase w p = Closing s x \<Longrightarrow> lock_step K w (move p (Finished x) (srv_end s (st_server w)) w)"
| drop:
    "s \<in> sr_open (st_server w) \<Longrightarrow> lock_step K w (w\<lparr>st_server := srv_end s (st_server w)\<rparr>)"

definition lock_init :: lock_state where
  "lock_init = \<lparr>st_server = \<lparr>sr_locks = Map.empty, sr_open = {}, sr_next = 0\<rparr>,
     st_phase = (\<lambda>_. Calling), st_runs = (\<lambda>_. 0)\<rparr>"

inductive lock_reach :: "(nat \<Rightarrow> call) \<Rightarrow> lock_state \<Rightarrow> bool" for K where
  init: "lock_reach K lock_init"
| step: "lock_reach K w \<Longrightarrow> lock_step K w w' \<Longrightarrow> lock_reach K w'"


inductive_cases lock_stepE: "lock_step K w w'"

subsection \<open>Invariant\<close>

fun owns :: "phase \<Rightarrow> session option" where
  "owns (Connected s) = Some s"
| "owns (Working s) = Some s"
| "owns (Closing s x) = Some s"
| "owns Calling = None"
| "owns (Finished x) = None"

text \<open>Sessions are owned by one call, locks by an open session, and open sessions by a call.\<close>

definition sessions_ok :: "lock_state \<Rightarrow> bool" where
  "sessions_ok w \<longleftrightarrow>
     (\<forall>p q s. owns (st_phase w p) = Some s \<longrightarrow> owns (st_phase w q) = Some s \<longrightarrow> p = q)
   \<and> (\<forall>p s. owns (st_phase w p) = Some s \<longrightarrow> s < sr_next (st_server w))
   \<and> (\<forall>k s. sr_locks (st_server w) k = Some s \<longrightarrow> s \<in> sr_open (st_server w))
   \<and> (\<forall>s \<in> sr_open (st_server w). s < sr_next (st_server w) \<and> (\<exists>p. owns (st_phase w p) = Some s))"

definition holding_ok :: "(nat \<Rightarrow> call) \<Rightarrow> lock_state \<Rightarrow> bool" where
  "holding_ok K w \<longleftrightarrow> (\<forall>p s. st_phase w p = Working s \<longrightarrow> s \<in> sr_open (st_server w)
     \<longrightarrow> sr_locks (st_server w) (lock_id (ca_locker (K p))) = Some s)"

text \<open>What an ending says about the work: how often it ran, and for which calls it is possible.\<close>

fun ending_ok :: "bool \<Rightarrow> ending \<Rightarrow> nat \<Rightarrow> bool" where
  "ending_ok wait (Returned True e) n \<longleftrightarrow> n = 1"
| "ending_ok wait (Returned False e) n \<longleftrightarrow> n = 0 \<and> (wait \<longrightarrow> e \<noteq> None)"
| "ending_ok wait Panicked n \<longleftrightarrow> n = 1"

fun phase_ok :: "bool \<Rightarrow> phase \<Rightarrow> nat \<Rightarrow> bool" where
  "phase_ok wait Calling n \<longleftrightarrow> n = 0"
| "phase_ok wait (Connected s) n \<longleftrightarrow> n = 0"
| "phase_ok wait (Working s) n \<longleftrightarrow> n = 1"
| "phase_ok wait (Closing s x) n \<longleftrightarrow> ending_ok wait x n"
| "phase_ok wait (Finished x) n \<longleftrightarrow> ending_ok wait x n"

definition runs_ok :: "(nat \<Rightarrow> call) \<Rightarrow> lock_state \<Rightarrow> bool" where
  "runs_ok K w \<longleftrightarrow> (\<forall>p. phase_ok (ca_wait (K p)) (st_phase w p) (st_runs w p))"

lemmas pc_defs = on_connect_def on_exec_def on_try_def on_work_def
lemmas srv_defs = srv_connect_def srv_grant_def srv_end_def srv_free_def

lemma move_simps [simp]:
  "st_server (move p ph v w) = v"
  "st_phase (move p ph v w) = (st_phase w)(p := ph)"
  "st_runs (move p ph v w) = started p ph (st_runs w)"
  by (simp_all add: move_def)

lemma sessions_move:
  assumes "sessions_ok w" "owns ph = owns (st_phase w p)"
    and "sr_open v = sr_open (st_server w)" "sr_next v = sr_next (st_server w)"
    and "\<And>k s. sr_locks v k = Some s \<Longrightarrow> sr_locks (st_server w) k = Some s \<or> s \<in> sr_open (st_server w)"
  shows "sessions_ok (move p ph v w)"
proof -
  have o: "owns (((st_phase w)(p := ph)) q) = owns (st_phase w q)" for q using assms(2) by simp
  show ?thesis
    using assms(1,3-5) unfolding sessions_ok_def move_simps o by metis
qed

lemma sessions_connect:
  assumes "sessions_ok w" "owns (st_phase w p) = None" "srv_connect (st_server w) = (s, v)"
  shows "sessions_ok (move p (Connected s) v w)"
proof -
  have v: "s = sr_next (st_server w)" "v = (st_server w)\<lparr>sr_open := insert s (sr_open (st_server w)), sr_next := Suc s\<rparr>"
    using assms(3) by (auto simp: srv_connect_def)
  have o: "owns (((st_phase w)(p := Connected s)) q) = (if q = p then Some s else owns (st_phase w q))" for q
    by simp
  have fresh: "owns (st_phase w q) = Some t \<Longrightarrow> t < s" for q t using assms(1) v(1) by (simp add: sessions_ok_def)
  have "\<exists>q. owns (((st_phase w)(p := Connected s)) q) = Some t" if t: "t = s \<or> t \<in> sr_open (st_server w)" for t
  proof (cases "t = s")
    case True
    then show ?thesis by (intro exI [of _ p]) simp
  next
    case False
    then obtain q where "owns (st_phase w q) = Some t" using t assms(1) by (auto simp: sessions_ok_def)
    with assms(2) show ?thesis unfolding o by (metis option.distinct(1))
  qed
  then show ?thesis
    using assms(1) fresh unfolding sessions_ok_def move_simps o v(2)
    by (auto split: if_splits simp: v(1) less_Suc_eq)
qed

lemma sessions_end:
  assumes "sessions_ok w" "owns (st_phase w p) = Some s"
  shows "sessions_ok (move p (Finished x) (srv_end s (st_server w)) w)"
  using assms unfolding sessions_ok_def srv_end_def
  by (auto split: if_splits) (metis option.inject)

lemma sessions_drop:
  "sessions_ok w \<Longrightarrow> sessions_ok (w\<lparr>st_server := srv_end s (st_server w)\<rparr>)"
  unfolding sessions_ok_def srv_end_def by (auto split: if_splits)

lemma sessions_step: "lock_step K w w' \<Longrightarrow> sessions_ok w \<Longrightarrow> sessions_ok w'"
  by (induction rule: lock_step.induct)
    (auto simp: pc_defs srv_grant_def intro!: sessions_move sessions_connect sessions_end sessions_drop split: if_splits option.splits)


text \<open>A lock changes hands only when it is free, and a session holds only the lock of its own call.\<close>

lemma holding_move:
  assumes "holding_ok K w" "\<And>t. ph = Working t \<Longrightarrow> sr_locks v (lock_id (ca_locker (K p))) = Some t"
    and "sr_open v = sr_open (st_server w)"
    and "\<And>k t. sr_locks (st_server w) k = Some t \<Longrightarrow> sr_locks v k = Some t"
  shows "holding_ok K (move p ph v w)"
  using assms(1,2) unfolding holding_ok_def by (auto simp: assms(3) intro: assms(4))

lemma holding_connect:
  assumes "holding_ok K w" "sessions_ok w" "srv_connect (st_server w) = (s, v)"
  shows "holding_ok K (move p (Connected s) v w)"
proof -
  have "owns (st_phase w q) = Some t \<Longrightarrow> t < s" for q t
    using assms(2,3) unfolding sessions_ok_def srv_connect_def by blast
  then have "st_phase w q \<noteq> Working s" for q by (metis less_irrefl owns.simps(2))
  with assms show ?thesis unfolding holding_ok_def srv_connect_def by auto
qed

lemma holding_end:
  "holding_ok K w \<Longrightarrow> holding_ok K (w\<lparr>st_server := srv_end s (st_server w)\<rparr>)"
  "holding_ok K w \<Longrightarrow> holding_ok K (move p (Finished x) (srv_end s (st_server w)) w)"
  unfolding holding_ok_def srv_end_def by auto

lemma grant_keeps:
  "srv_free k s v \<Longrightarrow> sr_locks v j = Some t \<Longrightarrow> sr_locks (srv_grant k s v) j = Some t"
  by (auto simp: srv_free_def srv_grant_def)

lemma grant_simps [simp]:
  "sr_open (srv_grant k s v) = sr_open v" "sr_locks (srv_grant k s v) k = Some s"
  by (simp_all add: srv_grant_def)

lemma holding_step:
  "lock_step K w w' \<Longrightarrow> sessions_ok w \<Longrightarrow> holding_ok K w \<Longrightarrow> holding_ok K w'"
  by (induction rule: lock_step.induct)
    (auto simp: pc_defs intro!: holding_move holding_connect holding_end intro: grant_keeps split: if_splits option.splits)

lemma runs_move:
  "runs_ok K w \<Longrightarrow> phase_ok (ca_wait (K p)) ph (started p ph (st_runs w) p) \<Longrightarrow> runs_ok K (move p ph v w)"
  unfolding runs_ok_def by (auto simp: started_def split: phase.splits)

lemma runs_of:
  "runs_ok K w \<Longrightarrow> st_phase w p = ph \<Longrightarrow> phase_ok (ca_wait (K p)) ph (st_runs w p)"
  unfolding runs_ok_def by blast

lemma runs_step: "lock_step K w w' \<Longrightarrow> runs_ok K w \<Longrightarrow> runs_ok K w'"
proof (induction rule: lock_step.induct)
  case (drop s w)
  then show ?case by (simp add: runs_ok_def)
qed (frule (1) runs_of, rule runs_move, assumption, auto simp: pc_defs started_def split: option.splits)+

text \<open>A session only ever holds the lock its call asks for, and asks once connected.\<close>

definition keys_ok :: "(nat \<Rightarrow> call) \<Rightarrow> lock_state \<Rightarrow> bool" where
  "keys_ok K w \<longleftrightarrow> (\<forall>k s p. sr_locks (st_server w) k = Some s \<longrightarrow> owns (st_phase w p) = Some s
     \<longrightarrow> k = lock_id (ca_locker (K p)) \<and> st_phase w p \<noteq> Connected s)"

lemma keys_move:
  assumes "keys_ok K w" "sessions_ok w" "owns (st_phase w p) = Some s" "owns ph = Some s" "ph \<noteq> Connected s"
    and v: "\<And>k t. sr_locks v k = Some t \<Longrightarrow>
      sr_locks (st_server w) k = Some t \<or> (t = s \<and> k = lock_id (ca_locker (K p)))"
  shows "keys_ok K (move p ph v w)"
  unfolding keys_ok_def move_simps
proof (intro allI impI)
  fix k t q
  assume t: "sr_locks v k = Some t" and q: "owns (((st_phase w)(p := ph)) q) = Some t"
  have o: "owns (st_phase w q) = Some t" using q assms(3,4) by (auto split: if_splits)
  then have "t = s \<Longrightarrow> q = p" using assms(2,3) unfolding sessions_ok_def by blast
  moreover have "sr_locks (st_server w) k = Some t \<Longrightarrow> k = lock_id (ca_locker (K q)) \<and> st_phase w q \<noteq> Connected t"
    using assms(1) o unfolding keys_ok_def by blast
  moreover have "q = p \<Longrightarrow> t = s" using o assms(3) by simp
  ultimately show "k = lock_id (ca_locker (K q)) \<and> ((st_phase w)(p := ph)) q \<noteq> Connected t"
    using v [OF t] assms(5) by auto
qed

lemma keys_connect:
  assumes "keys_ok K w" "sessions_ok w" "srv_connect (st_server w) = (s, v)"
  shows "keys_ok K (move p (Connected s) v w)"
proof -
  have v: "s = sr_next (st_server w)" "sr_locks v = sr_locks (st_server w)"
    using assms(3) by (auto simp: srv_connect_def)
  then have "sr_locks (st_server w) k \<noteq> Some s" for k
    using assms(2) unfolding sessions_ok_def by (metis less_irrefl)
  with assms(1) show ?thesis unfolding keys_ok_def move_simps v(2) by (auto split: if_splits)
qed

lemma keys_end:
  assumes "keys_ok K w"
  shows "keys_ok K (w\<lparr>st_server := srv_end s (st_server w)\<rparr>)" "keys_ok K (move p (Finished x) (srv_end s (st_server w)) w)"
    "keys_ok K (move p (Finished x) (st_server w) w)"
  using assms unfolding keys_ok_def srv_end_def by auto

lemma keys_step: "lock_step K w w' \<Longrightarrow> sessions_ok w \<Longrightarrow> keys_ok K w \<Longrightarrow> keys_ok K w'"
  by (induction rule: lock_step.induct)
    (auto simp: pc_defs srv_grant_def intro!: keys_move keys_connect keys_end split: if_splits option.splits)


lemma lock_invariant: "lock_reach K w \<Longrightarrow> sessions_ok w \<and> holding_ok K w \<and> runs_ok K w \<and> keys_ok K w"
proof (induction rule: lock_reach.induct)
  case init
  show ?case by (simp add: lock_init_def sessions_ok_def holding_ok_def runs_ok_def keys_ok_def)
next
  case (step w w')
  then show ?case using sessions_step holding_step runs_step keys_step by blast
qed

text \<open>
  The fixture: \<open>With\<close> (call 0) runs its work while \<open>Try\<close> (call 1) has connected for the same lock,
  and what follows when \<open>Try\<close> has asked.
\<close>

definition fixture_calls :: "nat \<Rightarrow> call" where
  "fixture_calls p = (if p = 0 then call_with (new_locker 0 7) else call_try (new_locker 0 7))"

definition fixture_server :: server where
  "fixture_server = \<lparr>sr_locks = [(0, 7) \<mapsto> 0], sr_open = {0, 1}, sr_next = 2\<rparr>"

definition fixture_held :: lock_state where
  "fixture_held = \<lparr>st_server = fixture_server,
     st_phase = (\<lambda>_. Calling)(0 := Working 0, 1 := Connected 1), st_runs = (\<lambda>_. 0)(0 := 1)\<rparr>"

lemma lock_state_eqI:
  "st_server w = st_server v \<Longrightarrow> st_phase w = st_phase v \<Longrightarrow> st_runs w = st_runs v \<Longrightarrow> w = (v :: lock_state)"
  by simp

lemmas fixture_simps = fixture_calls_def call_with_def call_try_def new_locker_def lock_id_def
  srv_defs pc_defs started_def

lemma held_reached:
  assumes "K 0 = call_with (new_locker 0 7)"
  shows "lock_reach K fixture_held"
proof -
  let ?v1 = "snd (srv_connect (st_server lock_init))"
  let ?w1 = "move 0 (on_connect (Inr 0)) ?v1 lock_init"
  have 1: "lock_reach K ?w1"
    by (rule lock_reach.step [OF lock_reach.init lock_step.connect]) (simp_all add: lock_init_def srv_connect_def)
  let ?w2 = "move 0 (on_exec 0 None) (srv_grant (lock_id (ca_locker (K 0))) 0 (st_server ?w1)) ?w1"
  have 2: "lock_reach K ?w2"
    by (rule lock_reach.step [OF 1 lock_step.exec]) (simp_all add: lock_init_def fixture_simps assms)
  let ?v3 = "snd (srv_connect (st_server ?w2))"
  have "lock_reach K (move 1 (on_connect (Inr 1)) ?v3 ?w2)"
    by (rule lock_reach.step [OF 2 lock_step.connect]) (simp_all add: lock_init_def fixture_simps assms)
  also have "move 1 (on_connect (Inr 1)) ?v3 ?w2 = fixture_held"
    by (rule lock_state_eqI)
      (auto simp: lock_init_def fixture_simps assms fixture_held_def fixture_server_def fun_eq_iff)
  finally show ?thesis .
qed

lemma fixture_reached: "lock_reach fixture_calls fixture_held"
  by (rule held_reached) (simp add: fixture_calls_def)

subsection \<open>Properties\<close>

lemma exclusive:
  assumes "lock_reach K w" "st_phase w p = Working s" "s \<in> sr_open (st_server w)"
    and "st_phase w q = Working t" "t \<in> sr_open (st_server w)"
    and "lock_id (ca_locker (K p)) = lock_id (ca_locker (K q))"
  shows "p = q"
proof -
  note inv = lock_invariant [OF assms(1)]
  then have "Some s = Some t" using assms(2-6) unfolding holding_ok_def by metis
  then have "owns (st_phase w p) = owns (st_phase w q)" using assms(2,4) by simp
  with inv assms(2) show ?thesis unfolding sessions_ok_def by (metis owns.simps(2))
qed

lemma holder:
  assumes "lock_reach K w" "sr_locks (st_server w) k = Some s"
  shows "\<exists>p. lock_id (ca_locker (K p)) = k \<and> (st_phase w p = Working s \<or> (\<exists>x. st_phase w p = Closing s x))"
proof -
  note inv = lock_invariant [OF assms(1)]
  obtain p where p: "owns (st_phase w p) = Some s"
    using inv assms(2) unfolding sessions_ok_def by blast
  with inv assms(2) have "k = lock_id (ca_locker (K p))" "st_phase w p \<noteq> Connected s"
    unfolding keys_ok_def by blast+
  moreover from p have "st_phase w p = Connected s \<or> st_phase w p = Working s \<or> (\<exists>x. st_phase w p = Closing s x)"
    by (cases "st_phase w p") auto
  ultimately show ?thesis by blast
qed

text \<open>
  C37: Mutual exclusion. In every interleaving of calls of \<open>Try\<close> and \<open>With\<close>, with failing connections
  and statements, cancelled waits, panics and dropped sessions, two calls for the same lock whose
  work is running and whose sessions are both alive are the same call.
\<close>

theorem lock_exclusion:
  assumes "lock_reach K w" "st_phase w p = Working s" "s \<in> sr_open (st_server w)"
    and "st_phase w q = Working t" "t \<in> sr_open (st_server w)"
    and "lock_id (ca_locker (K p)) = lock_id (ca_locker (K q))"
  shows "p = q"
  using assms by (rule exclusive)

theorem lock_exclusion_witness: "{q. st_phase fixture_held q = Working 0} = {0}"
proof -
  have "0 = q" if q: "st_phase fixture_held q = Working 0" for q
  proof -
    have "q = 0 \<or> q = 1" using q by (auto simp: fixture_held_def split: if_splits)
    then have l: "lock_id (ca_locker (fixture_calls 0)) = lock_id (ca_locker (fixture_calls q))"
      by (auto simp: fixture_simps)
    show ?thesis
      by (rule lock_exclusion [where s = 0, OF fixture_reached _ _ q _ l])
        (simp_all add: fixture_held_def fixture_server_def)
  qed
  then have "{q. st_phase fixture_held q = Working 0} \<subseteq> {0}" by fast
  moreover have "st_phase fixture_held 0 = Working 0" by (simp add: fixture_held_def)
  ultimately show ?thesis by blast
qed

text \<open>
  C38: The lock is released on every exit. In every interleaving, a lock that is held is held for a
  call on that lock whose work is running or whose connection is about to be closed: the calls that
  have returned, failed to acquire or panicked hold nothing, and when no call on a lock is left in
  one of these two phases the lock is free.
\<close>

theorem lock_released:
  assumes "lock_reach K w"
  shows "case sr_locks (st_server w) k of
      None \<Rightarrow> True
    | Some s \<Rightarrow> \<exists>p. lock_id (ca_locker (K p)) = k
        \<and> (st_phase w p = Working s \<or> (\<exists>x. st_phase w p = Closing s x))"
  using holder [OF assms] by (auto split: option.split)

theorem lock_released_witness:
  "\<exists>p. lock_id (ca_locker (fixture_calls p)) = (0, 7)
     \<and> (st_phase fixture_held p = Working 0 \<or> (\<exists>x. st_phase fixture_held p = Closing 0 x))"
  using lock_released [OF fixture_reached, of "(0, 7)"] by (simp add: fixture_held_def fixture_server_def)

text \<open>
  The results tell whether the work ran. A call that has ended ran its work once when it reports
  that it did or panicked, and never otherwise; and \<open>With\<close> never reports success without having run it.
\<close>

theorem lock_result:
  assumes "lock_reach K w" "st_phase w p = Finished x"
  shows "case x of
      Returned b e \<Rightarrow> st_runs w p = (if b then 1 else 0) \<and> (if ca_wait (K p) \<and> e = None then b else True)
    | Panicked \<Rightarrow> st_runs w p = 1"
proof -
  have "ending_ok (ca_wait (K p)) x (st_runs w p)"
    using lock_invariant [OF assms(1)] assms(2) unfolding runs_ok_def by (metis phase_ok.simps(5))
  then show ?thesis by (cases x) (auto split: ending.split bool.split elim!: ending_ok.elims)
qed

definition fixture_done :: lock_state where
  "fixture_done = move 0 (Finished Panicked) (srv_end 0 fixture_server) (move 0 (on_work 0 None) fixture_server fixture_held)"

theorem lock_result_witness: "st_runs fixture_done 0 = 1"
proof -
  let ?w = "move 0 (on_work 0 None) (st_server fixture_held) fixture_held"
  have 1: "lock_reach fixture_calls ?w"
    by (rule lock_reach.step [OF fixture_reached lock_step.work_end]) (simp add: fixture_held_def)
  have "lock_reach fixture_calls (move 0 (Finished Panicked) (srv_end 0 (st_server ?w)) ?w)"
    by (rule lock_reach.step [OF 1 lock_step.close]) (simp add: pc_defs)
  then have "lock_reach fixture_calls fixture_done"
    by (simp add: fixture_done_def) (simp add: fixture_held_def)
  then show ?thesis using lock_result [of fixture_calls fixture_done 0 Panicked] by (simp add: fixture_done_def)
qed

text \<open>
  \<open>Try\<close> skips the work only under contention. When a call gives up without an error, it is a \<open>Try\<close>, and
  at that moment another call on the same lock holds it, with its work running or its connection
  about to be closed.
\<close>

theorem try_skips_held:
  assumes "lock_reach K w" "lock_step K w w'"
    and "st_phase w p = Connected s" "st_phase w' p = Closing s (Returned False None)"
  shows "\<not> ca_wait (K p) \<and> (\<exists>q t. q \<noteq> p \<and> lock_id (ca_locker (K q)) = lock_id (ca_locker (K p))
    \<and> sr_locks (st_server w) (lock_id (ca_locker (K p))) = Some t
    \<and> (st_phase w q = Working t \<or> (\<exists>x. st_phase w q = Closing t x)))"
proof -
  have "\<not> ca_wait (K p) \<and> \<not> srv_free (lock_id (ca_locker (K p))) s (st_server w)"
    using assms(2-4) by (cases rule: lock_step.cases) (auto simp: pc_defs split: if_splits option.splits)
  moreover from this obtain t where t: "sr_locks (st_server w) (lock_id (ca_locker (K p))) = Some t"
    by (auto simp: srv_free_def)
  moreover obtain q where "lock_id (ca_locker (K q)) = lock_id (ca_locker (K p))"
    "st_phase w q = Working t \<or> (\<exists>x. st_phase w q = Closing t x)"
    using holder [OF assms(1) t] by blast
  moreover from this assms(3) have "q \<noteq> p" by auto
  ultimately show ?thesis by blast
qed

definition fixture_skipped :: lock_state where
  "fixture_skipped = move 1 (on_try 1 (Inr False)) fixture_server fixture_held"

theorem try_skips_held_witness:
  "\<exists>q t. q \<noteq> 1 \<and> sr_locks (st_server fixture_held) (0, 7) = Some t
     \<and> (st_phase fixture_held q = Working t \<or> (\<exists>x. st_phase fixture_held q = Closing t x))"
proof -
  have "lock_step fixture_calls fixture_held (move 1 (on_try 1 (Inr False)) (st_server fixture_held) fixture_held)"
    by (rule lock_step.try_held) (simp_all add: fixture_held_def fixture_server_def fixture_simps)
  then have "lock_step fixture_calls fixture_held fixture_skipped"
    by (simp add: fixture_skipped_def fixture_held_def)
  from try_skips_held [OF fixture_reached this, of 1 1] show ?thesis
    by (auto simp: fixture_skipped_def pc_defs fixture_held_def fixture_calls_def call_with_def call_try_def
        lock_id_def new_locker_def fixture_server_def)
qed


lemma acquire:
  assumes "st_phase w p = Connected s" "ca_wait (K p)" "s \<in> sr_open (st_server w)"
    and "srv_free (lock_id (ca_locker (K p))) s (st_server w)"
  shows "\<exists>w'. (lock_step K)\<^sup>*\<^sup>* w w' \<and> st_phase w' p = Working s
    \<and> sr_locks (st_server w') (lock_id (ca_locker (K p))) = Some s"
proof -
  have "lock_step K w (move p (on_exec s None) (srv_grant (lock_id (ca_locker (K p))) s (st_server w)) w)"
    using assms by (rule lock_step.exec)
  then show ?thesis by (intro exI conjI, rule r_into_rtranclp) (simp_all add: on_exec_def)
qed

lemma release:
  assumes "st_phase w p = Connected s" "ca_wait (K p)" "s \<in> sr_open (st_server w)" "q \<noteq> p" "t \<noteq> s"
    and "st_phase w q = Closing t x" "sr_locks (st_server w) (lock_id (ca_locker (K p))) = Some t"
  shows "\<exists>w'. (lock_step K)\<^sup>*\<^sup>* w w' \<and> st_phase w' p = Working s
    \<and> sr_locks (st_server w') (lock_id (ca_locker (K p))) = Some s"
proof -
  let ?v = "move q (Finished x) (srv_end t (st_server w)) w"
  have "lock_step K w ?v" by (rule lock_step.close [OF assms(6)])
  moreover have "\<exists>w'. (lock_step K)\<^sup>*\<^sup>* ?v w' \<and> st_phase w' p = Working s
      \<and> sr_locks (st_server w') (lock_id (ca_locker (K p))) = Some s"
    using assms by (intro acquire) (simp_all add: srv_end_def srv_free_def)
  ultimately show ?thesis by (meson converse_rtranclp_into_rtranclp)
qed

text \<open>
  C39: Nobody waits in vain. In every interleaving, a call of \<open>With\<close> that waits for its lock on an open
  session can still get it: there is a continuation, in which the work of the holder ends and its
  connection is closed, after which the work of the waiting call runs under the lock.
\<close>

theorem lock_acquirable:
  assumes "lock_reach K w" "st_phase w p = Connected s" "ca_wait (K p)" "s \<in> sr_open (st_server w)"
  shows "\<exists>w'. (lock_step K)\<^sup>*\<^sup>* w w' \<and> st_phase w' p = Working s
    \<and> sr_locks (st_server w') (lock_id (ca_locker (K p))) = Some s"
proof (cases "srv_free (lock_id (ca_locker (K p))) s (st_server w)")
  case True
  with assms show ?thesis by (intro acquire)
next
  case False
  then obtain t where t: "sr_locks (st_server w) (lock_id (ca_locker (K p))) = Some t" "t \<noteq> s"
    by (auto simp: srv_free_def)
  from holder [OF assms(1) t(1)] obtain q where q:
    "st_phase w q = Working t \<or> (\<exists>x. st_phase w q = Closing t x)" by blast
  with assms(2) have "q \<noteq> p" by auto
  show ?thesis
  proof (cases "st_phase w q = Working t")
    case False
    with q assms(2-4) t \<open>q \<noteq> p\<close> show ?thesis by (auto intro: release)
  next
    case True
    let ?v = "move q (on_work t None) (st_server w) w"
    have "lock_step K w ?v" by (rule lock_step.work_end [OF True])
    moreover have "\<exists>w'. (lock_step K)\<^sup>*\<^sup>* ?v w' \<and> st_phase w' p = Working s
        \<and> sr_locks (st_server w') (lock_id (ca_locker (K p))) = Some s"
      using assms(2-4) t \<open>q \<noteq> p\<close> by (intro release [where q = q and t = t and x = Panicked]) (simp_all add: on_work_def)
    ultimately show ?thesis by (meson converse_rtranclp_into_rtranclp)
  qed
qed

definition fixture_waiting :: "nat \<Rightarrow> call" where
  "fixture_waiting p = call_with (new_locker 0 7)"

theorem lock_acquirable_witness:
  "\<exists>w'. (lock_step fixture_waiting)\<^sup>*\<^sup>* fixture_held w' \<and> st_phase w' 1 = Working 1
     \<and> sr_locks (st_server w') (0, 7) = Some 1"
proof -
  have "lock_reach fixture_waiting fixture_held" by (rule held_reached) (simp add: fixture_waiting_def)
  from lock_acquirable [OF this, of 1 1] show ?thesis
    by (simp add: fixture_held_def fixture_server_def fixture_waiting_def call_with_def new_locker_def lock_id_def)
qed

end
