(* ===== verification/Spec2Isabelle.thy ===== *)
theory Spec2Isabelle
  imports PgxLaws ActionSchema Draining ConfigLaws AuthLaws PgLock
begin

text \<open>
  Verification development of the Go library goodies: the packages \<open>bloby\<close> (storage of blobs in a
  registry and a backend), \<open>auth\<close> (authentication, authorization and the guards of two HTTP
  frameworks) and \<open>pglock\<close> (advisory locks).

  \<^bold>\<open>How the program's parts interact.\<close> A \<open>bloby.Service\<close> keeps the rows of its objects in a
  \<open>Registry\<close> (PostgreSQL) and their bytes in a \<open>backend\<close> (a local directory, or an S3 bucket). An
  object is reserved as a pending row, its bytes are stored at a key derived from the row's ID, either
  by the server (\<open>Write\<close>) or by a client with a signed capability (\<open>Begin\<close>, the transfer endpoint,
  \<open>Finalize\<close>), and the row is then published. Cleanup claims pending rows that were abandoned,
  removes bytes that no row owns and objects that nothing references. A request of \<open>auth\<close> is resolved
  to a principal from its bearer token or its session, and the grants of the principal decide what
  it may do. \<open>pglock\<close> runs a callback while a session of PostgreSQL holds an advisory lock.

  \<^bold>\<open>Theories and code.\<close>
  \<^item> \<^verbatim>\<open>Prelude\<close>: Go errors with \<open>errors.Is\<close> and \<open>errors.As\<close>, readers, \<open>int64\<close> with wrap-around,
    faults of infrastructure. \<^verbatim>\<open>GoStrings\<close>, \<^verbatim>\<open>Encoding\<close>: the functions of the Go library on strings and the
    encodings (decimal, hexadecimal, base64, UTF-8) that the program uses.
  \<^item> \<^verbatim>\<open>Content\<close>: \<open>bloby/content.go\<close>. \<^verbatim>\<open>Objects\<close>: the pure part of \<open>bloby/object_store.go\<close>.
  \<^item> \<^verbatim>\<open>Registry\<close>, \<^verbatim>\<open>Backend\<close>: the two interfaces as records of operations, and their contracts as the
    locales \<open>registry_contract\<close>, \<open>registry_fresh\<close>, \<open>backend_contract\<close> and \<open>multipart_contract\<close>.
  \<^item> \<^verbatim>\<open>PgxStore\<close>: \<open>bloby/pgxstore/store.go\<close> over a table of rows with the constraints of the migrations;
    every statement is atomic and may fail before or after it took effect. \<^verbatim>\<open>PgxContract\<close> interprets the
    registry contracts on it, \<^verbatim>\<open>PgxLaws\<close> says what each statement does.
  \<^item> \<^verbatim>\<open>Capability\<close>: \<open>bloby/capability.go\<close>. \<^verbatim>\<open>FileStore\<close>: \<open>bloby/file.go\<close> over a model of the file system;
    every call of package \<open>os\<close> may fail before or after it took effect. \<^verbatim>\<open>FileContract\<close> interprets the
    backend contract on it. \<^verbatim>\<open>Transfers\<close>: \<open>http.go\<close>, \<open>serve.go\<close> and \<open>delivery.go\<close>.
  \<^item> \<^verbatim>\<open>Service\<close>: \<open>ingest.go\<close>, \<open>cleanup_store.go\<close> and the operations of \<open>object_store.go\<close>, in the state monad
    of a world that holds a registry and a backend of any type. Before each call of either, the world
    takes one step chosen by the environment: other requests run in between.
  \<^item> \<^verbatim>\<open>Rely\<close>, \<^verbatim>\<open>Safety\<close>, \<^verbatim>\<open>Calls\<close>, \<^verbatim>\<open>Requests\<close>, \<^verbatim>\<open>Serving\<close>: the safety of the service while other
    requests run, over any registry and backend that keep the contracts. \<open>rely\<close> is the locale of an
    invariant and an evolution; \<open>bloby_stores\<close> extends the contracts and is a sublocale of it. \<^verbatim>\<open>Calls\<close>
    shows for every call of a store that it stays within the rely, \<^verbatim>\<open>Requests\<close> for every operation, with what
    it promises; \<^verbatim>\<open>Serving\<close> makes requests values (\<open>request\<close>, \<open>serve\<close>), with the grants they hand out, and
    shows that each is a step that the others tolerate.
  \<^item> \<^verbatim>\<open>Lifecycle\<close>, \<^verbatim>\<open>Guarantees\<close>: PostgreSQL and the file store. The interpretation of \<open>bloby_stores\<close>, the
    reachable states (\<open>reached\<close>) of requests, transfers and the environment, and what holds at each.
    \<^verbatim>\<open>FileSuccess\<close>, \<^verbatim>\<open>Draining\<close>: when \<open>Put\<close> succeeds, and that undisturbed cleanup finishes its work.
  \<^item> \<^verbatim>\<open>S3Store\<close>: \<open>bloby/s3.go\<close>. \<^verbatim>\<open>S3Lifecycle\<close>, \<^verbatim>\<open>S3Guarantees\<close>: PostgreSQL and S3, with single-request and
    multipart uploads, in the same order (\<open>s3_reached\<close>), and a provider in memory on which the hypotheses hold.
  \<^item> \<^verbatim>\<open>Config\<close>: \<open>bloby/config.go\<close>. \<^verbatim>\<open>Laws\<close>, \<^verbatim>\<open>S3Laws\<close>, \<^verbatim>\<open>ConfigLaws\<close>: what the parts guarantee on their own.
    \<^verbatim>\<open>ActionSchema\<close>: \<open>bloby/huma/transfer.go\<close> and \<open>auth/huma/schema.go\<close>. \<^verbatim>\<open>Demo\<close>: a concrete system on which
    hypotheses are met, among them an upload that arrives between the calls of its finalisation.
  \<^item> \<^verbatim>\<open>Authz\<close>: \<open>auth/authz\<close>. \<^verbatim>\<open>Authn\<close>: \<open>auth/authn\<close>, on a session and an outside world of any type.
    \<^verbatim>\<open>Guards\<close>: \<open>auth/http\<close> and \<open>auth/huma\<close>, with guards as functions from handlers to handlers.
    \<^verbatim>\<open>AuthLaws\<close>: who is authenticated, and what reaches a handler.
  \<^item> \<^verbatim>\<open>PgLock\<close>: \<open>pglock/lock.go\<close> as a step relation: the program counters of all calls of \<open>Try\<close> and \<open>With\<close>
    and the lock table of the server, with failing statements, panics and dropped sessions.
\<close>

text \<open>
  \<^bold>\<open>What the theorems show.\<close> For every reachable state and every request, whatever other requests, signed
  uploads, faults and cleanup do between its calls: an available object has stored bytes of the declared
  size and SHA-256, publication is final and a claim is a fence, and what \<open>Write\<close>, \<open>Finalize\<close> and opening
  return is what they promise (\<^verbatim>\<open>Guarantees\<close>), on S3 as well, where above the threshold for multipart uploads
  the declared CRC64NVME may stand in for the SHA-256 (\<^verbatim>\<open>S3Guarantees\<close>). Capabilities round trip and cannot
  be forged or used for another operation, key or time; keys stay below the root; \<open>Put\<close> is all or
  nothing, and succeeds when nothing is in its way (\<^verbatim>\<open>Laws\<close>, \<^verbatim>\<open>FileSuccess\<close>); passes of cleanup drain a
  backlog (\<^verbatim>\<open>Draining\<close>). Each statement of the registry on its branches (\<^verbatim>\<open>PgxLaws\<close>). The S3 backend accepts
  only bytes that the provider's checksums vouch for, and no row is claimed while a URL for its upload
  may still be valid (\<^verbatim>\<open>S3Laws\<close>); the constructor accepts only a valid configuration (\<^verbatim>\<open>ConfigLaws\<close>).
  Grants are evaluated to the highest one and fail closed (\<^verbatim>\<open>Authz\<close>); a principal is authenticated,
  logged in or signed on exactly under the checks of the code, a served callback of single sign-on
  spends its state, and a guarded handler runs exactly for a principal whose grants cover the method
  (\<^verbatim>\<open>AuthLaws\<close>). Work under one lock is exclusive while the session lives, every exit releases the lock,
  and a waiting call can always still get it (\<^verbatim>\<open>PgLock\<close>).

  \<^bold>\<open>What the environment may do.\<close> Between two calls of a request any steps may happen that keep the
  invariant and the evolution, given the promises \<open>G\<close>: the grants that were handed out before the request
  began. \<open>Guarantees.requests_interleave\<close> shows it of other requests, of uploads that redeem a grant of \<open>G\<close>,
  also when the row is gone by then, of time and of failing calls. Not among them is the redemption
  of a grant that another request hands out while this one runs; the reachable states have it from
  the next request on. On S3 a request has a number (\<open>n\<close>), and the environment leaves alone the objects that
  this request reserved for an upload in parts and has no upload of yet; \<open>S3Lifecycle.s3_stays\<close> and
  \<open>S3Lifecycle.s3_step_stays\<close> show the same of requests with other numbers and of the bucket's own steps.

  \<^bold>\<open>Parameters.\<close> Code outside the repository is an argument of the definitions that use it: SHA-256 and
  CRC64NVME (\<open>hashes\<close>), HMAC-SHA256 and the JSON codec of claims (\<open>crypto\<close>), \<open>net/url\<close> (\<open>netlib\<close>), MIME types
  (\<open>mime\<close>), \<open>http.ServeContent\<close> (\<open>httplib\<close>), the S3 client (\<open>s3client\<close>) and its construction (\<open>s3lib\<close>),
  sessions (\<open>sessions\<close>), Argon2id and random bytes (\<open>passwords\<close>), OAuth2 and the verifier of ID tokens
  (\<open>oidclib\<close>), the rate limiter (\<open>limiter\<close>) and the application's stores of identities and grants. What the
  theorems assume of them is named: \<open>hashes_ok\<close> (lengths), \<open>codec_ok\<close> (unmarshalling inverts marshalling),
  \<open>provider_ok\<close> (the provider's checksums are those of the bytes it holds) and \<open>scs_laws\<close> (a value put
  in a session is read back, a popped one is gone, a destroyed session is empty), \<open>scs_keeps\<close> (a
  new token and a value under another key leave the values of a session alone), \<open>bucket_ok\<close> (what S3 documents of its calls: which of them change
  objects, that identifiers of uploads are fresh, that completing closes the upload), \<open>json_schema\<close> (the
  rules of JSON Schema). Each such hypothesis is met by a concrete instance in a witness.

  \<^bold>\<open>Bounds.\<close> Integers of the code are \<open>int\<close> with \<open>wrap64\<close> where an operation can leave the range of
  \<open>int64\<close>. \<open>os.CreateTemp\<close> tries 10000 names, as in the library, and is the only loop with a counter; every
  other loop is a recursion on a list. \<open>RunCleanup\<close> is a sequence of sweeps at given times, one per tick,
  because its own loop ends only with its context.

  \<^bold>\<open>Not modelled, and why.\<close> Logging and contexts, which appear only through the calls they make fail.
  Errors on closing a reader. Uploads whose file name begins like a temporary file (\<open>.upload-\<close>), which
  the reachable states exclude: \<open>Laws.temp_name_put_loses\<close> shows what the code does with them. Within one
  completion of a multipart upload, listing the parts and completing are one step of the provider's
  world, so that no part arrives in between. The count of \<open>ListByPrefix\<close> is not
  cut to 32 bits as its column type is. The time between two reads of the clock within one request. Of
  huma, route registration and the OpenAPI document; two operations that share one map of extensions,
  which \<open>mergeExtensions\<close> would change for both. \<open>pgxstore/schema.go\<close> only assembles calls of a library, and
  \<open>auth/internal/authtest\<close> and the TypeScript packages are a test double and another language.
\<close>

end
